(* ===== verification/Prelude.thy ===== *)
theory Prelude
  imports Main "HOL-Library.Word" "HOL-Library.Sublist"
begin

text \<open>
  Shared vocabulary of the development: Go's error values and results, the part of Go's
  \<open>strings\<close>, \<open>strconv\<close> and \<open>fmt\<close> packages that the sources of Waterfall call, and the generic
  lemmas the component theories share. A Go \<open>string\<close> is a byte string and is modelled by
  \<open>string\<close> (a list of 8-bit characters); a Go \<open>[]byte\<close> by a list of 8-bit words. The Go type
  \<open>int\<close> is the 64-bit one. Log output is not modelled.
\<close>

named_theorems go_string "facts about the string functions of the Go library"
named_theorems go_io "facts about readers, writers and their contracts"
named_theorems go_state "frame and update facts of the components' state records"


section \<open>Errors, results and panics\<close>

type_synonym byte = "8 word"
type_synonym bytes = "byte list"

text \<open>
  Error values. The sentinels of the standard library and of the sources have constructors of
  their own, an error made by \<open>fmt.Errorf\<close> or \<open>errors.New\<close> carries its text, and an error made
  by gRPC's \<open>status.Error\<close> carries its code and its text. \<open>SysErr\<close> stands for the errors the
  operating system or a peer reports, by their text.
\<close>

datatype code = InvalidArgument | NotFound | AlreadyExists | Unauthenticated

datatype go_error =
    EOF
  | ErrUnexpectedEOF
  | ErrShortWrite
  | ErrClosedPipe
  | ErrClosed
  | ErrNotImplemented
  | ErrClosedRead
  | ErrClosedWrite
  | ParseError
  | NotExist
  | ExitError int
  | StatusErr code string
  | Errorf string
  | SysErr string

text \<open>\<open>err.Error()\<close>.\<close>

primrec code_text :: "code \<Rightarrow> string" where
  "code_text InvalidArgument = ''InvalidArgument''"
| "code_text NotFound = ''NotFound''"
| "code_text AlreadyExists = ''AlreadyExists''"
| "code_text Unauthenticated = ''Unauthenticated''"

primrec error_text :: "go_error \<Rightarrow> string" where
  "error_text EOF = ''EOF''"
| "error_text ErrUnexpectedEOF = ''unexpected EOF''"
| "error_text ErrShortWrite = ''short write''"
| "error_text ErrClosedPipe = ''io: read/write on closed pipe''"
| "error_text ErrClosed = ''error connection closed''"
| "error_text ErrNotImplemented = ''error not implemented''"
| "error_text ErrClosedRead = ''closed for reading''"
| "error_text ErrClosedWrite = ''closed for writing''"
| "error_text ParseError = []"
| "error_text NotExist = ''file does not exist''"
| "error_text (ExitError n) = ''exit status''"
| "error_text (StatusErr c s) = ''rpc error: code = '' @ code_text c @ '' desc = '' @ s"
| "error_text (Errorf s) = s"
| "error_text (SysErr s) = s"

text \<open>
  An error that a gRPC handler returns reaches the caller as a status: a status error as it is, any other
  error by its text. It is never \<open>io.EOF\<close> or an error type of the caller's own package.
\<close>

definition rpc_status :: "go_error \<Rightarrow> go_error" where
  "rpc_status e = (case e of StatusErr c t \<Rightarrow> StatusErr c t | _ \<Rightarrow> SysErr (error_text e))"

lemma rpc_status_foreign [simp]: "rpc_status e \<noteq> EOF" "rpc_status e \<noteq> ParseError"
  by (simp_all add: rpc_status_def split: go_error.splits)

text \<open>\<open>[]byte(s)\<close>.\<close>

definition bytes_of :: "string \<Rightarrow> bytes" where
  "bytes_of s = map (\<lambda>c. word_of_nat (of_char c)) s"

text \<open>A call with results \<open>(v, error)\<close>: the error, or the value.\<close>

type_synonym 'a result = "go_error + 'a"

text \<open>The first error that is not nil.\<close>

definition first_err :: "go_error option list \<Rightarrow> go_error option" where
  "first_err es = (case filter (\<lambda>e. e \<noteq> None) es of [] \<Rightarrow> None | e # _ \<Rightarrow> e)"

lemma first_err_simps [simp]:
  "first_err [] = None" "first_err (None # es) = first_err es" "first_err (Some e # es) = Some e"
  by (simp_all add: first_err_def)

lemma first_err_two [simp]: "first_err [a, b] = None \<longleftrightarrow> a = None \<and> b = None"
  by (cases a; cases b) simp_all

text \<open>
  A call that may also panic (an index or a slice out of range, a nil dereference, closing a
  closed channel) has the third outcome \<open>Panic\<close>.
\<close>

datatype 'a outcome = Return 'a | Fail go_error | Panic

primrec obind :: "'a outcome \<Rightarrow> ('a \<Rightarrow> 'b outcome) \<Rightarrow> 'b outcome" where
  "obind (Return a) f = f a"
| "obind (Fail e) f = Fail e"
| "obind Panic f = Panic"

primrec lift_result :: "'a result \<Rightarrow> 'a outcome" where
  "lift_result (Inl e) = Fail e"
| "lift_result (Inr a) = Return a"

lemma obind_eq_Return [simp]:
  "obind m f = Return b \<longleftrightarrow> (\<exists>a. m = Return a \<and> f a = Return b)"
  by (cases m) auto

lemma obind_eq_Panic:
  "obind m f = Panic \<longleftrightarrow> m = Panic \<or> (\<exists>a. m = Return a \<and> f a = Panic)"
  by (cases m) auto

lemma lift_result_no_panic [simp]: "lift_result r \<noteq> Panic"
  by (cases r) auto

lemma lift_result_eq_Return [simp]: "lift_result r = Return a \<longleftrightarrow> r = Inr a"
  by (cases r) auto

lemma lift_result_eq_Fail [simp]: "lift_result r = Fail e \<longleftrightarrow> r = Inl e"
  by (cases r) auto

text \<open>Reading \<open>xs[i]\<close>: Go panics when the index is out of range.\<close>

definition idx :: "'a list \<Rightarrow> nat \<Rightarrow> 'a outcome" where
  "idx xs i = (if i < length xs then Return (xs ! i) else Panic)"

lemma idx_Return [simp]: "i < length xs \<Longrightarrow> idx xs i = Return (xs ! i)"
  by (simp add: idx_def)

lemma idx_Panic [simp]: "length xs \<le> i \<Longrightarrow> idx xs i = Panic"
  by (simp add: idx_def)


text \<open>\<open>close(ch)\<close> on a channel, as the flag that says whether it is closed.\<close>

definition close_chan :: "bool \<Rightarrow> bool outcome" where
  "close_chan c = (if c then Panic else Return True)"

lemma close_chan_simps [simp]: "close_chan False = Return True" "close_chan True = Panic"
  by (simp_all add: close_chan_def)


section \<open>Decimal numbers\<close>

text \<open>\<open>fmt.Sprintf("%d", n)\<close> for a number that is not negative.\<close>

definition digit_char :: "nat \<Rightarrow> char" where
  "digit_char d = char_of (48 + d)"

fun show_nat :: "nat \<Rightarrow> string" where
  "show_nat n =
     (if n < 10 then [digit_char n] else show_nat (n div 10) @ [digit_char (n mod 10)])"

declare show_nat.simps [simp del]

definition is_digit :: "char \<Rightarrow> bool" where
  "is_digit c \<longleftrightarrow> 48 \<le> (of_char c :: nat) \<and> (of_char c :: nat) \<le> 57"

definition digit_val :: "char \<Rightarrow> nat" where
  "digit_val c = of_char c - 48"

definition digits_val :: "string \<Rightarrow> nat" where
  "digits_val s = foldl (\<lambda>n c. 10 * n + digit_val c) 0 s"

text \<open>\<open>strconv.ParseUint(s, 10, 64)\<close>: digits only, at least one, and a value below \<open>2^64\<close>.\<close>

definition parse_uint64 :: "string \<Rightarrow> (64 word) result" where
  "parse_uint64 s =
     (if s = [] \<or> \<not> list_all is_digit s then Inl (Errorf (''parsing '' @ s @ '': invalid syntax''))
      else if digits_val s < 2 ^ 64 then Inr (word_of_nat (digits_val s))
      else Inl (Errorf (''parsing '' @ s @ '': value out of range'')))"

text \<open>
  \<open>strconv.Atoi(s)\<close>: an optional sign, then digits, with a value in the range of a 64-bit
  signed integer.
\<close>

definition atoi :: "string \<Rightarrow> int result" where
  "atoi s =
     (let neg = (s \<noteq> [] \<and> hd s = CHR ''-'');
          ds = (if s \<noteq> [] \<and> (hd s = CHR ''-'' \<or> hd s = CHR ''+'') then tl s else s)
      in if ds = [] \<or> \<not> list_all is_digit ds then Inl (Errorf (''parsing '' @ s @ '': invalid syntax''))
         else let v = (if neg then - int (digits_val ds) else int (digits_val ds))
              in if - (2 ^ 63) \<le> v \<and> v < 2 ^ 63 then Inr v
                 else Inl (Errorf (''parsing '' @ s @ '': value out of range'')))"

lemma of_char_digit_char: "d < 10 \<Longrightarrow> (of_char (digit_char d) :: nat) = 48 + d"
  by (simp add: digit_char_def)

lemma is_digit_digit_char [simp]: "d < 10 \<Longrightarrow> is_digit (digit_char d)"
  by (simp add: is_digit_def of_char_digit_char)

lemma digit_val_digit_char [simp]: "d < 10 \<Longrightarrow> digit_val (digit_char d) = d"
  by (simp add: digit_val_def of_char_digit_char)

lemma digits_val_snoc: "digits_val (s @ [c]) = 10 * digits_val s + digit_val c"
  by (simp add: digits_val_def)

lemma show_nat_nonempty [simp]: "show_nat n \<noteq> []"
  by (subst show_nat.simps) simp

lemma show_nat_digits: "list_all is_digit (show_nat n)"
proof (induction n rule: show_nat.induct)
  case (1 n)
  show ?case
  proof (cases "n < 10")
    case True
    then show ?thesis by (subst show_nat.simps) simp
  next
    case False
    with "1.IH" show ?thesis by (subst show_nat.simps) simp
  qed
qed

lemma digits_val_show_nat [simp]: "digits_val (show_nat n) = n"
proof (induction n rule: show_nat.induct)
  case (1 n)
  show ?case
  proof (cases "n < 10")
    case True
    then show ?thesis by (subst show_nat.simps) (simp add: digits_val_def)
  next
    case False
    with "1.IH" show ?thesis by (subst show_nat.simps) (simp add: digits_val_snoc)
  qed
qed

lemma parse_uint64_show_nat:
  "n < 2 ^ 64 \<Longrightarrow> parse_uint64 (show_nat n) = Inr (word_of_nat n)"
  by (simp add: parse_uint64_def show_nat_digits)

lemma digit_not_char: "is_digit c \<Longrightarrow> c \<noteq> CHR ''/'' \<and> c \<noteq> CHR '':'' \<and> c \<noteq> CHR ''-'' \<and> c \<noteq> CHR ''+''"
  by (auto simp: is_digit_def)

lemma show_nat_no_special:
  "CHR ''/'' \<notin> set (show_nat n)" "CHR '':'' \<notin> set (show_nat n)"
  using show_nat_digits [of n] by (auto simp: list_all_iff dest: digit_not_char)

lemma atoi_show_nat: "n < 2 ^ 63 \<Longrightarrow> atoi (show_nat n) = Inr (int n)"
proof -
  assume n: "n < 2 ^ 63"
  have hd: "is_digit (hd (show_nat n))"
    using show_nat_digits [of n] by (cases "show_nat n") auto
  then have sgn: "hd (show_nat n) \<noteq> CHR ''-''" "hd (show_nat n) \<noteq> CHR ''+''"
    by (auto dest: digit_not_char)
  have "int n < 2 ^ 63"
    using n by (metis of_nat_less_numeral_power_cancel_iff)
  then show ?thesis
    using sgn show_nat_digits [of n] by (simp add: atoi_def Let_def)
qed


section \<open>Strings\<close>

text \<open>
  \<open>strings.SplitN(s, sep, n)\<close> and \<open>strings.Split(s, sep)\<close> for a separator of one byte, which is
  what the sources use; \<open>strings.Index\<close>, \<open>strings.LastIndex\<close> (no match is \<open>None\<close>, Go's -1),
  \<open>strings.Contains\<close>, \<open>strings.TrimPrefix\<close>, \<open>strings.TrimRight\<close>, \<open>strings.Trim\<close>,
  \<open>strings.TrimSpace\<close> and \<open>strings.Join\<close>. \<open>strings.HasPrefix(s, p)\<close> is \<open>prefix p s\<close> and
  \<open>strings.HasSuffix(s, p)\<close> is \<open>suffix p s\<close>.
\<close>

fun splitN :: "nat \<Rightarrow> char \<Rightarrow> string \<Rightarrow> string list" where
  "splitN 0 c s = []"
| "splitN (Suc 0) c s = [s]"
| "splitN (Suc (Suc n)) c s =
     (if c \<in> set s
      then takeWhile (\<lambda>x. x \<noteq> c) s # splitN (Suc n) c (tl (dropWhile (\<lambda>x. x \<noteq> c) s))
      else [s])"

fun split_on :: "char \<Rightarrow> string \<Rightarrow> string list" where
  "split_on c [] = [[]]"
| "split_on c (x # xs) =
     (if x = c then [] # split_on c xs
      else (case split_on c xs of [] \<Rightarrow> [[x]] | w # ws \<Rightarrow> (x # w) # ws))"

fun str_index :: "string \<Rightarrow> string \<Rightarrow> nat option" where
  "str_index [] sub = (if sub = [] then Some 0 else None)"
| "str_index (x # xs) sub =
     (if prefix sub (x # xs) then Some 0 else map_option Suc (str_index xs sub))"

fun str_last_index :: "string \<Rightarrow> string \<Rightarrow> nat option" where
  "str_last_index [] sub = (if sub = [] then Some 0 else None)"
| "str_last_index (x # xs) sub =
     (case str_last_index xs sub of
        Some i \<Rightarrow> Some (Suc i)
      | None \<Rightarrow> if prefix sub (x # xs) then Some 0 else None)"

definition str_contains :: "string \<Rightarrow> string \<Rightarrow> bool" where
  "str_contains s sub \<longleftrightarrow> str_index s sub \<noteq> None"

definition trim_prefix :: "string \<Rightarrow> string \<Rightarrow> string" where
  "trim_prefix s p = (if prefix p s then drop (length p) s else s)"

definition trim_right :: "string \<Rightarrow> string \<Rightarrow> string" where
  "trim_right s cutset = rev (dropWhile (\<lambda>c. c \<in> set cutset) (rev s))"

definition trim_cut :: "string \<Rightarrow> string \<Rightarrow> string" where
  "trim_cut s cutset = trim_right (dropWhile (\<lambda>c. c \<in> set cutset) s) cutset"

definition whitespace :: string where
  "whitespace = [CHR 0x09, CHR 0x0A, CHR 0x0B, CHR 0x0C, CHR 0x0D, CHR '' '']"

definition trim_space :: "string \<Rightarrow> string" where
  "trim_space s = trim_cut s whitespace"

fun str_join :: "string list \<Rightarrow> string \<Rightarrow> string" where
  "str_join [] sep = []"
| "str_join [x] sep = x"
| "str_join (x # y # ys) sep = x @ sep @ str_join (y # ys) sep"

text \<open>The one split the address grammars use: at the first separator, if there is one.\<close>

lemma splitN_two: "splitN 2 c s =
    (if c \<in> set s then [takeWhile (\<lambda>x. x \<noteq> c) s, tl (dropWhile (\<lambda>x. x \<noteq> c) s)] else [s])"
  by (simp add: numeral_2_eq_2)

lemma splitN_two_sep [go_string]:
  assumes "c \<notin> set a"
  shows "splitN 2 c (a @ c # b) = [a, b]"
proof -
  have tw: "takeWhile (\<lambda>x. x \<noteq> c) (a @ c # b) = a"
    using assms by (induction a) auto
  have dw: "dropWhile (\<lambda>x. x \<noteq> c) (a @ c # b) = c # b"
    using assms by (induction a) auto
  show ?thesis by (simp add: splitN_two tw dw)
qed

lemma splitN_two_nosep [go_string]: "c \<notin> set s \<Longrightarrow> splitN 2 c s = [s]"
  by (simp add: splitN_two)

lemma splitN_two_cases:
  obtains (nosep) "c \<notin> set s" "splitN 2 c s = [s]"
    | (sep) a b where "s = a @ c # b" "c \<notin> set a" "splitN 2 c s = [a, b]"
proof (cases "c \<in> set s")
  case True
  then obtain a b where s: "s = a @ c # b" "c \<notin> set a"
    by (meson split_list_first)
  show ?thesis using sep [OF s] splitN_two_sep [OF s(2)] s by simp
qed (auto intro: nosep simp: splitN_two)

lemma splitN_two_length: "length (splitN 2 c s) = (if c \<in> set s then 2 else 1)"
  by (simp add: splitN_two)

lemma split_on_nonempty [simp]: "split_on c s \<noteq> []"
  by (cases s) (auto split: list.splits)

lemma split_on_nosep [go_string]: "c \<notin> set s \<Longrightarrow> split_on c s = [s]"
  by (induction s) auto

lemma split_on_sep [go_string]: "c \<notin> set a \<Longrightarrow> split_on c (a @ c # b) = a # split_on c b"
  by (induction a) auto

lemma length_split_on: "length (split_on c s) = Suc (count_list s c)"
  by (induction s) (auto split: list.splits)

lemma split_on_two: "split_on c s = [a, b] \<longleftrightarrow> s = a @ c # b \<and> c \<notin> set a \<and> c \<notin> set b"
proof
  assume sp: "split_on c s = [a, b]"
  then have "count_list s c \<noteq> 0" using length_split_on [of c s] by simp
  then have "c \<in> set s" by (metis count_notin)
  then obtain u v where s: "s = u @ c # v" "c \<notin> set u" by (metis split_list_first)
  then have v: "u = a" "split_on c v = [b]" using sp by (simp_all add: split_on_sep)
  then have "count_list v c = 0" using length_split_on [of c v] by simp
  then have "c \<notin> set v" by (simp add: count_list_0_iff)
  with v s show "s = a @ c # b \<and> c \<notin> set a \<and> c \<notin> set b" by (simp add: split_on_nosep)
qed (simp add: split_on_sep split_on_nosep)

lemma str_index_Some_prefix: "str_index s sub = Some i \<Longrightarrow> i \<le> length s \<and> prefix sub (drop i s)"
  by (induction s arbitrary: i) (auto split: if_splits)

lemma str_last_index_Some_prefix:
  "str_last_index s sub = Some i \<Longrightarrow> i \<le> length s \<and> prefix sub (drop i s)"
  by (induction s arbitrary: i) (auto split: if_splits option.splits)

lemma str_contains_iff: "str_contains s sub \<longleftrightarrow> sublist sub s"
proof (induction s)
  case Nil
  show ?case by (simp add: str_contains_def)
next
  case (Cons x xs)
  have "str_contains (x # xs) sub \<longleftrightarrow> prefix sub (x # xs) \<or> str_contains xs sub"
    by (auto simp: str_contains_def)
  with Cons.IH show ?case by (simp add: sublist_Cons_right)
qed

lemma str_last_index_append:
  assumes "\<not> str_contains (tl (sub @ b)) sub" and "sub \<noteq> []"
  shows "str_last_index (a @ sub @ b) sub = Some (length a)"
proof -
  have none: "str_last_index t sub = None \<longleftrightarrow> \<not> str_contains t sub" for t
    by (induction t) (auto simp: str_contains_def split: option.splits if_splits)
  obtain x xs where sub: "sub = x # xs" using assms(2) by (cases sub) auto
  have base: "str_last_index (sub @ b) sub = Some 0"
    using assms(1) none [of "xs @ b"] sub by (auto split: option.splits)
  show ?thesis
    by (induction a) (auto simp: base)
qed

lemma str_join_singleton_sep: "str_join (x # ys) sep = x @ concat (map (\<lambda>y. sep @ y) ys)"
  by (induction ys arbitrary: x) auto


section \<open>Lists\<close>

lemma concat_eq_Nil_nonempty: "concat xss = [] \<Longrightarrow> \<forall>xs \<in> set xss. xs \<noteq> [] \<Longrightarrow> xss = []"
  by (induction xss) auto

lemma take_length_append [simp]: "length a = n \<Longrightarrow> take n (a @ b) = a"
  by simp

lemma drop_length_append [simp]: "length a = n \<Longrightarrow> drop n (a @ b) = b"
  by simp

end
