(* ===== verification/GoIO.thy ===== *)
theory GoIO
  imports Prelude
begin

unbundle bit_operations_syntax

text \<open>
  The part of Go's \<open>io\<close>, \<open>bufio\<close> and \<open>encoding/binary\<close> packages under the connections of
  Waterfall: a byte source with \<open>io.ReadFull\<close>, a sink that may fail, the buffered writer
  \<open>bufio.Writer\<close> with its sticky error, little-endian 32-bit words, and \<open>io.Copy\<close>. The contracts
  of \<open>io.Reader\<close> and \<open>io.Writer\<close> are the locales \<open>io_reader\<close> and \<open>io_writer\<close>; what
  \<open>io.Copy\<close> does between two such ends is proved once, in the locale \<open>io_pipe\<close>, and used by
  every component that copies.
\<close>


section \<open>Sources and io.ReadFull\<close>

text \<open>
  The incoming side of a connection: the bytes that are still to arrive and the error the read
  after the last of them reports. A \<open>bufio.Reader\<close> over the connection holds a prefix of these
  bytes in memory, which no caller can observe.
\<close>

record source =
  src_bytes :: bytes
  src_err :: go_error

text \<open>
  \<open>io.ReadFull(r, buf)\<close> with \<open>n = len(buf)\<close>: the bytes copied into the buffer (their number is
  the first result) and the error.
\<close>

definition readFull :: "source \<Rightarrow> nat \<Rightarrow> (bytes \<times> go_error option) \<times> source" where
  "readFull s n =
     (let d = take n (src_bytes s); s' = s\<lparr>src_bytes := drop n (src_bytes s)\<rparr>
      in if length d = n then ((d, None), s')
         else ((d, Some (if d \<noteq> [] \<and> src_err s = EOF then ErrUnexpectedEOF else src_err s)), s'))"

lemma readFull_enough [go_io]:
  "n \<le> length (src_bytes s) \<Longrightarrow>
   readFull s n = ((take n (src_bytes s), None), s\<lparr>src_bytes := drop n (src_bytes s)\<rparr>)"
  by (simp add: readFull_def Let_def min_def)

lemma readFull_exhausted [go_io]:
  "src_bytes s = [] \<Longrightarrow> 0 < n \<Longrightarrow> readFull s n = (([], Some (src_err s)), s)"
  by (simp add: readFull_def Let_def)

lemma readFull_short:
  "length (src_bytes s) < n \<Longrightarrow> src_bytes s \<noteq> [] \<Longrightarrow> src_err s = EOF \<Longrightarrow>
   readFull s n = ((src_bytes s, Some ErrUnexpectedEOF), s\<lparr>src_bytes := []\<rparr>)"
  by (simp add: readFull_def Let_def)


section \<open>Little-endian 32-bit words\<close>

text \<open>The bytes \<open>binary.Write(w, binary.LittleEndian, uint32)\<close> emits, and their reading.\<close>

definition le32 :: "32 word \<Rightarrow> bytes" where
  "le32 w = [ucast w, ucast (drop_bit 8 w), ucast (drop_bit 16 w), ucast (drop_bit 24 w)]"

definition un_le32 :: "bytes \<Rightarrow> 32 word" where
  "un_le32 bs =
     ucast (bs ! 0) OR push_bit 8 (ucast (bs ! 1)) OR
     push_bit 16 (ucast (bs ! 2)) OR push_bit 24 (ucast (bs ! 3))"

lemma length_le32 [simp]: "length (le32 w) = 4"
  by (simp add: le32_def)

lemma un_le32_le32 [simp]: "un_le32 (le32 w) = w"
proof (rule bit_word_eqI)
  fix n :: nat
  assume n: "n < LENGTH(32)"
  consider "n < 8" | "8 \<le> n" "n < 16" | "16 \<le> n" "n < 24" | "24 \<le> n" by linarith
  then show "bit (un_le32 (le32 w)) n \<longleftrightarrow> bit w n"
    using n by cases (auto simp: un_le32_def le32_def bit_simps)
qed

lemma le32_zero: "le32 0 = [0, 0, 0, 0]"
  by (simp add: le32_def)

lemma un_le32_zero: "un_le32 [0, 0, 0, 0] = 0"
  by (simp add: un_le32_def)

lemma unat_word_of_nat32 [simp]: "n < 2 ^ 32 \<Longrightarrow> unat (word_of_nat n :: 32 word) = n"
  by (simp only: unsigned_of_nat of_nat_id len_bit0 len_num1 take_bit_nat_eq_self_iff) simp

lemma word32_of_nat_zero:
  "n < 2 ^ 32 \<Longrightarrow> (word_of_nat n :: 32 word) = 0 \<longleftrightarrow> n = 0"
  by (simp only: unat_eq_zero [symmetric] unat_word_of_nat32)


section \<open>Sinks and bufio.Writer\<close>

text \<open>
  The outgoing side of a connection: the bytes it accepted so far, and how many more it accepts
  before a write fails (\<open>None\<close>: it never fails). As \<open>io.Writer\<close> requires, a write that takes
  fewer bytes than it was given reports an error.
\<close>

record sink =
  snk_bytes :: bytes
  snk_room :: "nat option"
  snk_err :: go_error

definition sink_write :: "sink \<Rightarrow> bytes \<Rightarrow> (nat \<times> go_error option) \<times> sink" where
  "sink_write s b =
     (case snk_room s of
        None \<Rightarrow> ((length b, None), s\<lparr>snk_bytes := snk_bytes s @ b\<rparr>)
      | Some k \<Rightarrow>
          if length b \<le> k
          then ((length b, None), s\<lparr>snk_bytes := snk_bytes s @ b, snk_room := Some (k - length b)\<rparr>)
          else ((k, Some (snk_err s)), s\<lparr>snk_bytes := snk_bytes s @ take k b, snk_room := Some 0\<rparr>))"

lemma sink_write_bytes: "sink_write s b = ((n, e), s') \<Longrightarrow>
    snk_bytes s' = snk_bytes s @ take n b \<and> n \<le> length b \<and> (e = None \<longleftrightarrow> n = length b)"
  by (auto simp: sink_write_def split: option.splits if_splits)

lemma sink_write_open: "snk_room s = None \<Longrightarrow>
    sink_write s b = ((length b, None), s\<lparr>snk_bytes := snk_bytes s @ b\<rparr>)"
  by (simp add: sink_write_def)

text \<open>\<open>bufio.Writer\<close>: the buffer's size, the bytes held in it, the sticky error, the writer under it.\<close>

record bufw =
  bw_size :: nat
  bw_buf :: bytes
  bw_err :: "go_error option"
  bw_wr :: sink

definition newWriterSize :: "sink \<Rightarrow> nat \<Rightarrow> bufw" where
  "newWriterSize s n = \<lparr>bw_size = n, bw_buf = [], bw_err = None, bw_wr = s\<rparr>"

definition bw_flush :: "bufw \<Rightarrow> go_error option \<times> bufw" where
  "bw_flush w =
     (case bw_err w of
        Some e \<Rightarrow> (Some e, w)
      | None \<Rightarrow>
          if bw_buf w = [] then (None, w)
          else (case sink_write (bw_wr w) (bw_buf w) of ((n, e), s') \<Rightarrow>
                  (case e of
                     None \<Rightarrow> (None, w\<lparr>bw_buf := [], bw_wr := s'\<rparr>)
                   | Some e' \<Rightarrow>
                       (Some e', w\<lparr>bw_buf := drop n (bw_buf w), bw_err := Some e', bw_wr := s'\<rparr>))))"

text \<open>
  \<open>(*Writer).Write(p)\<close>: while \<open>p\<close> does not fit, write it directly if the buffer is empty, and
  otherwise fill the buffer and flush it; then buffer the rest.
\<close>

function bw_loop :: "bufw \<Rightarrow> bytes \<Rightarrow> nat \<Rightarrow> (nat \<times> bytes) \<times> bufw" where
  "bw_loop w p nn =
     (if bw_size w - length (bw_buf w) < length p \<and> bw_err w = None
      then if bw_buf w = []
           then (case sink_write (bw_wr w) p of ((n, e), s') \<Rightarrow>
                   bw_loop (w\<lparr>bw_err := e, bw_wr := s'\<rparr>) (drop n p) (nn + n))
           else let n = min (bw_size w - length (bw_buf w)) (length p);
                    w' = snd (bw_flush (w\<lparr>bw_buf := bw_buf w @ take n p\<rparr>))
                in bw_loop w' (drop n p) (nn + n)
      else ((nn, p), w))"
  by pat_completeness auto
termination
proof (relation "measures [\<lambda>(w, p, nn). if bw_err w = None then Suc (length p) else 0,
    \<lambda>(w, p, nn). length (bw_buf w)]", goal_cases)
  case 1
  show ?case by simp
next
  case (2 w p nn x1 s' n e)
  then show ?case
    using sink_write_bytes [of "bw_wr w" p n e s'] by (cases e) auto
next
  case (3 w p nn n w')
  then show ?case
    by (auto simp: bw_flush_def Let_def split: option.splits prod.splits)
qed

declare bw_loop.simps [simp del]

definition bw_write :: "bufw \<Rightarrow> bytes \<Rightarrow> (nat \<times> go_error option) \<times> bufw" where
  "bw_write w p =
     (case bw_loop w p 0 of ((nn, q), w') \<Rightarrow>
        (case bw_err w' of
           Some e \<Rightarrow> ((nn, Some e), w')
         | None \<Rightarrow> ((nn + length q, None), w'\<lparr>bw_buf := bw_buf w' @ q\<rparr>)))"

text \<open>A writer is healthy when it has seen no error and its sink never fails.\<close>

definition bw_ok :: "bufw \<Rightarrow> bool" where
  "bw_ok w \<longleftrightarrow> bw_err w = None \<and> snk_room (bw_wr w) = None"

text \<open>All bytes handed to the writer: those in the sink, then those in the buffer.\<close>

definition bw_all :: "bufw \<Rightarrow> bytes" where
  "bw_all w = snk_bytes (bw_wr w) @ bw_buf w"

lemma bw_flush_ok [go_io]:
  "bw_ok w \<Longrightarrow> fst (bw_flush w) = None \<and> bw_ok (snd (bw_flush w)) \<and> bw_buf (snd (bw_flush w)) = [] \<and>
     bw_all (snd (bw_flush w)) = bw_all w \<and> bw_size (snd (bw_flush w)) = bw_size w"
  by (auto simp: bw_flush_def bw_ok_def bw_all_def sink_write_open)

lemma bw_loop_ok:
  "bw_ok w \<Longrightarrow> bw_loop w p nn = ((m, q), w') \<Longrightarrow>
     bw_ok w' \<and> bw_all w' @ q = bw_all w @ p \<and> m + length q = nn + length p \<and> bw_size w' = bw_size w"
proof (induction w p nn arbitrary: m q w' rule: bw_loop.induct)
  case (1 w p nn)
  let ?go = "bw_size w - length (bw_buf w) < length p \<and> bw_err w = None"
  consider "\<not> ?go" | "?go" "bw_buf w = []" | "?go" "bw_buf w \<noteq> []" by blast
  then show ?case
  proof cases
    case 1
    with "1.prems" show ?thesis by (subst (asm) bw_loop.simps) auto
  next
    case 2
    let ?s = "(bw_wr w)\<lparr>snk_bytes := snk_bytes (bw_wr w) @ p\<rparr>"
    have sw: "sink_write (bw_wr w) p = ((length p, None), ?s)"
      using "1.prems"(1) by (simp add: bw_ok_def sink_write_open)
    have "bw_loop (w\<lparr>bw_err := None, bw_wr := ?s\<rparr>) [] (nn + length p) = ((m, q), w')"
      using "1.prems"(2) 2 sw by (subst (asm) bw_loop.simps) simp
    moreover have "bw_ok (w\<lparr>bw_err := None, bw_wr := ?s\<rparr>)"
      using "1.prems"(1) by (simp add: bw_ok_def)
    ultimately show ?thesis
      using "1.IH"(1) [OF 2, of "(length p, None)" ?s "length p" None m q w'] sw 2(2)
      by (simp add: bw_all_def)
  next
    case 3
    let ?n = "min (bw_size w - length (bw_buf w)) (length p)"
    let ?v = "w\<lparr>bw_buf := bw_buf w @ take ?n p\<rparr>"
    have ok: "bw_ok ?v" using "1.prems"(1) by (simp add: bw_ok_def)
    have "bw_loop (snd (bw_flush ?v)) (drop ?n p) (nn + ?n) = ((m, q), w')"
      using "1.prems"(2) 3 by (subst (asm) bw_loop.simps) (simp add: Let_def)
    from "1.IH"(2) [OF 3 refl refl _ this] bw_flush_ok [OF ok]
    show ?thesis
      by (auto simp: bw_all_def)
  qed
qed

lemma bw_write_ok [go_io]:
  assumes "bw_ok w"
  shows "\<exists>w'. bw_write w p = ((length p, None), w') \<and> bw_ok w' \<and> bw_all w' = bw_all w @ p \<and>
           bw_size w' = bw_size w"
proof -
  obtain m q v where v: "bw_loop w p 0 = ((m, q), v)" by (metis prod.exhaust)
  from bw_loop_ok [OF assms v]
  have "bw_ok v" "bw_all v @ q = bw_all w @ p" "m + length q = length p" "bw_size v = bw_size w"
    by auto
  with v show ?thesis
    by (auto simp: bw_write_def bw_ok_def bw_all_def)
qed


section \<open>io.Copy and the contracts of io.Reader and io.Writer\<close>

text \<open>
  A reader is a function from its state and the buffer's length to the bytes read, the error and
  the next state; \<open>None\<close> is a call that never returns. A writer is a function from its state and
  the bytes to the number of bytes taken, the error and the next state.
\<close>

type_synonym 'r reader = "'r \<Rightarrow> nat \<Rightarrow> ((bytes \<times> go_error option) \<times> 'r) option"
type_synonym 'w writer = "'w \<Rightarrow> bytes \<Rightarrow> (nat \<times> go_error option) \<times> 'w"

text \<open>
  \<open>io.Copy(dst, src)\<close> with its 32 KiB buffer: read, write what was read, stop at the first error,
  where \<open>EOF\<close> from the source is success. The first argument bounds the number of rounds;
  \<open>io_copy_all\<close> below says how many are enough.
\<close>

definition copy_buf :: nat where
  "copy_buf = 32 * 1024"

fun io_copy :: "nat \<Rightarrow> 'r reader \<Rightarrow> 'w writer \<Rightarrow> 'r \<Rightarrow> 'w \<Rightarrow> (go_error option \<times> 'r \<times> 'w) option" where
  "io_copy 0 rd wr r w = None"
| "io_copy (Suc fuel) rd wr r w =
     (case rd r copy_buf of
        None \<Rightarrow> None
      | Some ((d, er), r') \<Rightarrow>
          (case (if d = [] then ((0, None), w) else wr w d) of ((nw, ew), w') \<Rightarrow>
             (case ew of
                Some e \<Rightarrow> Some (Some e, r', w')
              | None \<Rightarrow>
                  if nw \<noteq> length d then Some (Some ErrShortWrite, r', w')
                  else (case er of
                          Some e \<Rightarrow> Some (if e = EOF then None else Some e, r', w')
                        | None \<Rightarrow> io_copy fuel rd wr r' w'))))"

text \<open>
  A reader or writer that is one half of a larger object: the copy moves that half, and the rest of the object stays.
\<close>

lemma io_copy_lift_reader:
  assumes "\<And>v n. rd (put v) n = map_option (\<lambda>(x, v'). (x, put v')) (rd0 v n)"
  shows "io_copy fuel rd wr (put v) w = map_option (\<lambda>(e, v', w'). (e, put v', w')) (io_copy fuel rd0 wr v w)"
proof (induction fuel arbitrary: v w)
  case (Suc fuel)
  then show ?case by (auto simp: assms split: option.split prod.split)
qed simp

lemma io_copy_lift_writer:
  assumes "\<And>v b. wr (put v) b = (case wr0 v b of (x, v') \<Rightarrow> (x, put v'))"
  shows "io_copy fuel rd wr r (put v) = map_option (\<lambda>(e, r', v'). (e, r', put v')) (io_copy fuel rd wr0 r v)"
proof (induction fuel arbitrary: r v)
  case (Suc fuel)
  then show ?case by (auto simp: assms split: option.split prod.split)
qed simp

text \<open>Successive reads with the given buffer lengths, up to the first error.\<close>

fun reads :: "'r reader \<Rightarrow> 'r \<Rightarrow> nat list \<Rightarrow> (bytes \<times> go_error option \<times> 'r) option" where
  "reads rd r [] = Some ([], None, r)"
| "reads rd r (n # ns) =
     (case rd r n of
        None \<Rightarrow> None
      | Some ((d, Some e), r') \<Rightarrow> Some (d, Some e, r')
      | Some ((d, None), r') \<Rightarrow>
          (case reads rd r' ns of
             None \<Rightarrow> None
           | Some (ds, e, r'') \<Rightarrow> Some (d @ ds, e, r'')))"

text \<open>
  The reader's side of the contract: \<open>delivers r bs\<close> says that the reader will hand out exactly
  \<open>bs\<close> and then report the end of the stream; \<open>work r\<close> bounds the number of reads that takes.
\<close>

locale io_reader =
  fixes rd :: "'r reader"
    and delivers :: "'r \<Rightarrow> bytes \<Rightarrow> bool"
    and work :: "'r \<Rightarrow> nat"
  assumes rd_contract: "delivers r bs \<Longrightarrow> 0 < n \<Longrightarrow>
      (\<exists>d r' bs'. rd r n = Some ((d, None), r') \<and> length d \<le> n \<and> bs = d @ bs' \<and>
         delivers r' bs' \<and> work r' < work r) \<or>
      (bs = [] \<and> (\<exists>r'. rd r n = Some (([], Some EOF), r')))"
begin

lemma rd_returns: "delivers r bs \<Longrightarrow> 0 < n \<Longrightarrow> \<exists>d e r'. rd r n = Some ((d, e), r')"
  using rd_contract by blast

lemma rd_bound: "delivers r bs \<Longrightarrow> 0 < n \<Longrightarrow> rd r n = Some ((d, e), r') \<Longrightarrow> length d \<le> n"
  using rd_contract [of r bs n] by auto

lemma rd_eof_only_at_end:
  "delivers r bs \<Longrightarrow> 0 < n \<Longrightarrow> rd r n = Some ((d, Some e), r') \<Longrightarrow> e = EOF \<and> d = [] \<and> bs = []"
  using rd_contract [of r bs n] by auto

text \<open>Whatever the buffer lengths, successive reads hand out the stream in order.\<close>

lemma reads_prefix:
  "delivers r bs \<Longrightarrow> \<forall>n \<in> set ns. 0 < n \<Longrightarrow> \<exists>ds e r'. reads rd r ns = Some (ds, e, r') \<and>
     (\<exists>rest. bs = ds @ rest \<and> (e = None \<longrightarrow> delivers r' rest) \<and> (e \<noteq> None \<longrightarrow> e = Some EOF \<and> rest = []))"
proof (induction ns arbitrary: r bs)
  case Nil
  then show ?case by auto
next
  case (Cons n ns)
  from Cons.prems have n: "0 < n" by simp
  from rd_contract [OF Cons.prems(1) n] show ?case
  proof (elim disjE exE conjE)
    fix d r' bs'
    assume rd: "rd r n = Some ((d, None), r')" and bs: "bs = d @ bs'" and del: "delivers r' bs'"
    from Cons.IH [OF del] Cons.prems(2) rd bs show ?thesis by fastforce
  next
    fix r'
    assume "bs = []" "rd r n = Some (([], Some EOF), r')"
    then show ?thesis by auto
  qed
qed

text \<open>Enough reads reach the end of the stream.\<close>

lemma reads_all:
  "delivers r bs \<Longrightarrow> \<forall>n \<in> set ns. 0 < n \<Longrightarrow> work r < length ns \<Longrightarrow>
   \<exists>r'. reads rd r ns = Some (bs, Some EOF, r')"
proof (induction ns arbitrary: r bs)
  case Nil
  then show ?case by simp
next
  case (Cons n ns)
  from Cons.prems have n: "0 < n" by simp
  from rd_contract [OF Cons.prems(1) n] show ?case
  proof (elim disjE exE conjE)
    fix d r' bs'
    assume rd: "rd r n = Some ((d, None), r')" and bs: "bs = d @ bs'" and del: "delivers r' bs'"
      and less: "work r' < work r"
    have "work r' < length ns" using less Cons.prems(3) by simp
    from Cons.IH [OF del _ this] Cons.prems(2) rd bs show ?thesis by auto
  next
    fix r'
    assume "bs = []" "rd r n = Some (([], Some EOF), r')"
    then show ?thesis by auto
  qed
qed

end

text \<open>The writer's side: a ready writer takes all it is given, in order, and stays ready.\<close>

locale io_writer =
  fixes wr :: "'w writer"
    and ready :: "'w \<Rightarrow> bool"
    and written :: "'w \<Rightarrow> bytes"
  assumes wr_contract: "ready w \<Longrightarrow> b \<noteq> [] \<Longrightarrow> length b \<le> copy_buf \<Longrightarrow>
      \<exists>w'. wr w b = ((length b, None), w') \<and> ready w' \<and> written w' = written w @ b"

locale io_pipe = io_reader rd delivers work + io_writer wr ready written
  for rd :: "'r reader" and delivers work and wr :: "'w writer" and ready written
begin

text \<open>Between a reader and a writer that keep their contracts, \<open>io.Copy\<close> moves the whole stream.\<close>

lemma io_copy_all:
  "delivers r bs \<Longrightarrow> ready w \<Longrightarrow> work r < fuel \<Longrightarrow>
   \<exists>r' w'. io_copy fuel rd wr r w = Some (None, r', w') \<and> ready w' \<and> written w' = written w @ bs"
proof (induction fuel arbitrary: r w bs)
  case 0
  then show ?case by simp
next
  case (Suc fuel)
  have cb: "0 < copy_buf" by (simp add: copy_buf_def)
  from rd_contract [OF Suc.prems(1) cb] show ?case
  proof (elim disjE exE conjE)
    fix d r' bs'
    assume rd: "rd r copy_buf = Some ((d, None), r')" and len: "length d \<le> copy_buf"
      and bs: "bs = d @ bs'" and del: "delivers r' bs'" and less: "work r' < work r"
    have fuel: "work r' < fuel" using less Suc.prems(3) by simp
    show ?thesis
    proof (cases "d = []")
      case True
      with Suc.IH [OF del Suc.prems(2) fuel] rd bs show ?thesis by simp
    next
      case False
      from wr_contract [OF Suc.prems(2) False len] obtain w1
        where w1: "wr w d = ((length d, None), w1)" "ready w1" "written w1 = written w @ d"
        by blast
      from Suc.IH [OF del w1(2) fuel] rd bs w1 False show ?thesis by simp
    qed
  next
    fix r'
    assume "bs = []" "rd r copy_buf = Some (([], Some EOF), r')"
    then show ?thesis using Suc.prems(2) by simp
  qed
qed

end

text \<open>
  Two ends that the components share. An input is a file or pipe that hands out its data in the given
  portions and then reports an error, \<open>EOF\<close> at the end of the data; a portion that does not fit the
  buffer is handed out in parts.
\<close>

record input =
  in_chunks :: "bytes list"
  in_err :: go_error

definition input_read :: "input reader" where
  "input_read r n =
     (case in_chunks r of
        [] \<Rightarrow> Some (([], Some (in_err r)), r)
      | c # cs \<Rightarrow>
          Some ((take n c, None), r\<lparr>in_chunks := (if length c \<le> n then cs else drop n c # cs)\<rparr>))"

definition in_delivers :: "input \<Rightarrow> bytes \<Rightarrow> bool" where
  "in_delivers r bs \<longleftrightarrow> concat (in_chunks r) = bs \<and> in_err r = EOF"

definition in_work :: "input \<Rightarrow> nat" where
  "in_work r = length (in_chunks r) + length (concat (in_chunks r))"

interpretation input_reader: io_reader input_read in_delivers in_work
proof
  fix r bs and n :: nat
  assume del: "in_delivers r bs" and n: "0 < n"
  show "(\<exists>d r' bs'. input_read r n = Some ((d, None), r') \<and> length d \<le> n \<and> bs = d @ bs' \<and>
      in_delivers r' bs' \<and> in_work r' < in_work r) \<or> (bs = [] \<and> (\<exists>r'. input_read r n = Some (([], Some EOF), r')))"
  proof (cases "in_chunks r")
    case Nil
    with del show ?thesis by (simp add: input_read_def in_delivers_def)
  next
    case (Cons c cs)
    with del n show ?thesis
      by (cases "length c \<le> n") (auto simp: input_read_def in_delivers_def in_work_def)
  qed
qed

interpretation sink_writer: io_writer sink_write "\<lambda>s. snk_room s = None" snk_bytes
  by unfold_locales (simp add: sink_write_open)

interpretation input_sink: io_pipe input_read in_delivers in_work sink_write "\<lambda>s. snk_room s = None" snk_bytes
  ..

end
