(* ===== verification/QemuConn.thy ===== *)
theory QemuConn
  imports GoIO
begin

text \<open>
  The connection of \<open>net/qemu/qemu.go\<close>: the type \<open>Conn\<close> and its methods. A message is sent as a
  little-endian 32-bit length followed by its bytes, and a length of zero tells the peer that the
  write side is closed. The reader keeps in \<open>left\<close> how much of the current message it has not
  handed out yet. Each method runs under its mutex and is one atomic function of the connection;
  \<open>Close\<close>, which holds only the close lock while it runs the two half-closes, is split into its
  atomic parts in the step relation at the end.

  Shown here: a connection implements \<open>io.Reader\<close> and \<open>io.Writer\<close> over the stream of the messages'
  bytes (\<open>qemu_reader\<close>, \<open>qemu_writer\<close>), the framing round trip, that the half-close protocol
  never closes a channel twice under any interleaving, and the two inputs on which the framing
  breaks, a read into an empty buffer and a write of no bytes.
\<close>


section \<open>The connection\<close>

definition ioErrMsg :: string where
  "ioErrMsg = ''input/output error''"

definition buffSize :: nat where
  "buffSize = 2 ^ 16"

text \<open>
  The fields of \<open>Conn\<close>: the two channels are the flags that say whether they are closed, and the
  embedded \<open>net.Conn\<close> is the number of times it was closed.
\<close>

record qconn =
  qc_wb :: bufw
  qc_rb :: source
  qc_addr :: string
  qc_left :: nat
  qc_closedReads :: bool
  qc_closedWrites :: bool
  qc_closed :: bool
  qc_readsCloseChan :: bool
  qc_writesCloseChan :: bool
  qc_connCloses :: nat

definition makeConn :: "source \<Rightarrow> sink \<Rightarrow> qconn" where
  "makeConn rd wr =
     \<lparr>qc_wb = newWriterSize wr buffSize, qc_rb = rd, qc_addr = [], qc_left = 0,
      qc_closedReads = False, qc_closedWrites = False, qc_closed = False,
      qc_readsCloseChan = False, qc_writesCloseChan = False, qc_connCloses = 0\<rparr>"

text \<open>The method \<open>read\<close>, with \<open>n = len(b)\<close>.\<close>

definition Conn_read :: "qconn \<Rightarrow> nat \<Rightarrow> (bytes \<times> go_error option) \<times> qconn" where
  "Conn_read q n =
     (if qc_closedReads q then (([], Some ErrClosed), q)
      else
        let toRead = (if qc_left q > n then n else qc_left q)
        in if toRead > 0
           then (case readFull (qc_rb q) toRead of ((d, e), s) \<Rightarrow>
                   (case e of
                      Some e' \<Rightarrow> ((d, Some e'), q\<lparr>qc_rb := s\<rparr>)
                    | None \<Rightarrow> ((d, None), q\<lparr>qc_rb := s, qc_left := qc_left q - length d\<rparr>)))
           else (case readFull (qc_rb q) 4 of ((h, e), s) \<Rightarrow>
                   (case e of
                      Some e' \<Rightarrow> (([], Some e'), q\<lparr>qc_rb := s\<rparr>)
                    | None \<Rightarrow>
                        let recd = un_le32 h
                        in if recd = 0 then (([], Some EOF), q\<lparr>qc_rb := s\<rparr>)
                           else
                             let toRead' = (if unat recd > n then n else unat recd)
                             in (case readFull s toRead' of ((d, e2), s2) \<Rightarrow>
                                   (case e2 of
                                      Some e' \<Rightarrow> ((d, Some e'), q\<lparr>qc_rb := s2\<rparr>)
                                    | None \<Rightarrow>
                                        ((d, None),
                                         q\<lparr>qc_rb := s2, qc_left := unat recd - toRead'\<rparr>))))))"

definition Conn_Read :: "qconn \<Rightarrow> nat \<Rightarrow> (bytes \<times> go_error option) \<times> qconn" where
  "Conn_Read q n =
     (case Conn_read q n of ((d, e), q') \<Rightarrow>
        (case e of
           None \<Rightarrow> ((d, None), q')
         | Some e' \<Rightarrow>
             if str_contains (error_text e') ioErrMsg then ((d, Some EOF), q')
             else ((d, Some e'), q')))"

definition Conn_Write :: "qconn \<Rightarrow> bytes \<Rightarrow> (nat \<times> go_error option) \<times> qconn" where
  "Conn_Write q b =
     (if qc_closedWrites q then ((0, Some ErrClosed), q)
      else (case bw_write (qc_wb q) (le32 (word_of_nat (length b))) of ((_, e), w1) \<Rightarrow>
              (case e of
                 Some e' \<Rightarrow> ((0, Some e'), q\<lparr>qc_wb := w1\<rparr>)
               | None \<Rightarrow>
                   (case bw_write w1 b of ((n, e2), w2) \<Rightarrow>
                      (case e2 of
                         Some e' \<Rightarrow> ((n, Some e'), q\<lparr>qc_wb := w2\<rparr>)
                       | None \<Rightarrow>
                           (case bw_flush w2 of (e3, w3) \<Rightarrow> ((n, e3), q\<lparr>qc_wb := w3\<rparr>)))))))"

definition sendClose :: "qconn \<Rightarrow> go_error option \<times> qconn" where
  "sendClose q =
     (case bw_write (qc_wb q) (le32 0) of ((_, e), w1) \<Rightarrow>
        (case e of
           Some e' \<Rightarrow> (Some e', q\<lparr>qc_wb := w1\<rparr>)
         | None \<Rightarrow>
             (case bw_write w1 [] of ((_, e2), w2) \<Rightarrow>
                (case e2 of
                   Some e' \<Rightarrow> (Some e', q\<lparr>qc_wb := w2\<rparr>)
                 | None \<Rightarrow> (case bw_flush w2 of (e3, w3) \<Rightarrow> (e3, q\<lparr>qc_wb := w3\<rparr>))))))"

definition Conn_CloseWrite :: "qconn \<Rightarrow> (go_error option \<times> qconn) outcome" where
  "Conn_CloseWrite q =
     (if qc_closedWrites q then Return (Some ErrClosed, q)
      else (case sendClose (q\<lparr>qc_closedWrites := True\<rparr>) of (e, q') \<Rightarrow>
              obind (close_chan (qc_writesCloseChan q'))
                (\<lambda>c. Return (e, q'\<lparr>qc_writesCloseChan := c\<rparr>))))"

definition Conn_CloseRead :: "qconn \<Rightarrow> (go_error option \<times> qconn) outcome" where
  "Conn_CloseRead q =
     (if qc_closedReads q then Return (Some ErrClosed, q)
      else obind (close_chan (qc_readsCloseChan q))
             (\<lambda>c. Return (None, q\<lparr>qc_closedReads := True, qc_readsCloseChan := c\<rparr>)))"

text \<open>\<open>Close\<close> drops the errors of the two half-closes and of the underlying connection.\<close>

definition Conn_Close :: "qconn \<Rightarrow> (go_error option \<times> qconn) outcome" where
  "Conn_Close q =
     (if qc_closed q then Return (Some ErrClosed, q)
      else obind (Conn_CloseWrite (q\<lparr>qc_closed := True\<rparr>))
             (\<lambda>(_, q1). obind (Conn_CloseRead q1)
               (\<lambda>(_, q2). Return (None, q2\<lparr>qc_connCloses := Suc (qc_connCloses q2)\<rparr>))))"

definition Conn_LocalAddr :: "qconn \<Rightarrow> string" where
  "Conn_LocalAddr q = qc_addr q"

definition Conn_RemoteAddr :: "qconn \<Rightarrow> string" where
  "Conn_RemoteAddr q = qc_addr q"

text \<open>The goroutine \<open>closeConn\<close>: \<open>None\<close> while it is blocked on one of the two channels.\<close>

definition closeConn :: "qconn \<Rightarrow> qconn option" where
  "closeConn q =
     (if qc_readsCloseChan q \<and> qc_writesCloseChan q
      then Some (q\<lparr>qc_connCloses := Suc (qc_connCloses q)\<rparr>) else None)"


section \<open>Frames\<close>

definition frame :: "bytes \<Rightarrow> bytes" where
  "frame b = le32 (word_of_nat (length b)) @ b"

text \<open>A message that the framing carries: not empty, and shorter than \<open>2^32\<close>.\<close>

definition msg_ok :: "bytes \<Rightarrow> bool" where
  "msg_ok b \<longleftrightarrow> b \<noteq> [] \<and> length b < 2 ^ 32"

text \<open>The reference decoder of a byte stream: the messages' bytes up to the closing frame.\<close>

function deframe :: "bytes \<Rightarrow> bytes" where
  "deframe bs =
     (if length bs < 4 \<or> un_le32 (take 4 bs) = 0 then []
      else let n = unat (un_le32 (take 4 bs))
           in take n (drop 4 bs) @ deframe (drop (4 + n) bs))"
  by pat_completeness auto
termination
  by (relation "measure length") (auto simp: Let_def)

declare deframe.simps [simp del]

abbreviation stop_frame :: bytes where
  "stop_frame \<equiv> le32 0"

lemma length_frame [simp]: "length (frame b) = 4 + length b"
  by (simp add: frame_def)

lemma frame_header [simp]: "take 4 (frame b) = le32 (word_of_nat (length b))"
  by (simp add: frame_def)

lemma frame_body [simp]: "drop 4 (frame b) = b"
  by (simp add: frame_def)

lemma msg_ok_header: "msg_ok b \<Longrightarrow>
    un_le32 (le32 (word_of_nat (length b))) \<noteq> 0 \<and> unat (un_le32 (le32 (word_of_nat (length b)))) = length b"
  by (simp add: msg_ok_def word32_of_nat_zero del: unat_eq_zero)

lemma deframe_frame: "msg_ok b \<Longrightarrow> deframe (frame b @ r) = b @ deframe r"
  using msg_ok_header [of b] by (subst deframe.simps) (simp add: frame_def Let_def)

lemma deframe_stop: "deframe (stop_frame @ r) = []"
  by (subst deframe.simps) simp

lemma deframe_Nil: "deframe [] = []"
  by (subst deframe.simps) simp

lemma deframe_frames: "list_all msg_ok ms \<Longrightarrow> deframe (concat (map frame ms) @ r) = concat ms @ deframe r"
  by (induction ms) (simp_all add: deframe_frame)


section \<open>Writing\<close>

definition q_sent :: "qconn \<Rightarrow> bytes" where
  "q_sent q = snk_bytes (bw_wr (qc_wb q))"

text \<open>A connection open for writing over a link that works, with nothing left in its buffer.\<close>

definition q_open_w :: "qconn \<Rightarrow> bool" where
  "q_open_w q \<longleftrightarrow> \<not> qc_closedWrites q \<and> bw_ok (qc_wb q) \<and> bw_buf (qc_wb q) = []"

lemma q_open_w_all: "q_open_w q \<Longrightarrow> bw_all (qc_wb q) = q_sent q"
  by (simp add: q_open_w_def bw_all_def q_sent_def)

lemma Write_ok:
  assumes "q_open_w q"
  shows "\<exists>w. Conn_Write q b = ((length b, None), q\<lparr>qc_wb := w\<rparr>) \<and> q_open_w (q\<lparr>qc_wb := w\<rparr>) \<and>
           q_sent (q\<lparr>qc_wb := w\<rparr>) = q_sent q @ frame b"
proof -
  from assms have ok: "bw_ok (qc_wb q)" and nc: "\<not> qc_closedWrites q" by (auto simp: q_open_w_def)
  obtain w1 where w1: "bw_write (qc_wb q) (le32 (word_of_nat (length b))) = ((4, None), w1)"
      "bw_ok w1" "bw_all w1 = q_sent q @ le32 (word_of_nat (length b))"
    using bw_write_ok [OF ok, of "le32 (word_of_nat (length b))"] q_open_w_all [OF assms] by auto
  obtain w2 where w2: "bw_write w1 b = ((length b, None), w2)" "bw_ok w2" "bw_all w2 = bw_all w1 @ b"
    using bw_write_ok [OF w1(2), of b] by blast
  obtain w3 where w3: "bw_flush w2 = (None, w3)" "bw_ok w3" "bw_buf w3 = []" "bw_all w3 = bw_all w2"
    using bw_flush_ok [OF w2(2)] by (metis prod.collapse)
  from w1 w2 w3 nc show ?thesis
    by (intro exI [of _ w3]) (simp add: Conn_Write_def q_open_w_def q_sent_def frame_def bw_all_def)
qed

lemma sendClose_ok:
  assumes "bw_ok (qc_wb q)"
  shows "\<exists>w. sendClose q = (None, q\<lparr>qc_wb := w\<rparr>) \<and> bw_ok w \<and> bw_buf w = [] \<and>
           snk_bytes (bw_wr w) = bw_all (qc_wb q) @ stop_frame"
proof -
  obtain w1 where w1: "bw_write (qc_wb q) stop_frame = ((4, None), w1)" "bw_ok w1"
      "bw_all w1 = bw_all (qc_wb q) @ stop_frame"
    using bw_write_ok [OF assms, of stop_frame] by auto
  obtain w2 where w2: "bw_write w1 [] = ((0, None), w2)" "bw_ok w2" "bw_all w2 = bw_all w1"
    using bw_write_ok [OF w1(2), of "[]"] by auto
  obtain w3 where w3: "bw_flush w2 = (None, w3)" "bw_ok w3" "bw_buf w3 = []" "bw_all w3 = bw_all w2"
    using bw_flush_ok [OF w2(2)] by (metis prod.collapse)
  from w1 w2 w3 show ?thesis
    by (intro exI [of _ w3]) (simp add: sendClose_def bw_all_def)
qed

text \<open>A sequence of writes, and the close of the write side at its end.\<close>

fun writes :: "qconn \<Rightarrow> bytes list \<Rightarrow> qconn" where
  "writes q [] = q"
| "writes q (m # ms) = writes (snd (Conn_Write q m)) ms"

lemma writes_ok:
  "q_open_w q \<Longrightarrow> q_open_w (writes q ms) \<and> q_sent (writes q ms) = q_sent q @ concat (map frame ms) \<and>
     qc_writesCloseChan (writes q ms) = qc_writesCloseChan q"
proof (induction ms arbitrary: q)
  case Nil
  then show ?case by simp
next
  case (Cons m ms)
  from Write_ok [OF Cons.prems, of m] obtain w
    where w: "Conn_Write q m = ((length m, None), q\<lparr>qc_wb := w\<rparr>)" "q_open_w (q\<lparr>qc_wb := w\<rparr>)"
      "q_sent (q\<lparr>qc_wb := w\<rparr>) = q_sent q @ frame m"
    by blast
  from Cons.IH [OF w(2)] w show ?case by simp
qed

lemma makeConn_open_w: "snk_room wr = None \<Longrightarrow> q_open_w (makeConn rd wr)"
  by (simp add: makeConn_def q_open_w_def newWriterSize_def bw_ok_def)

text \<open>\<open>q_written\<close> reads the payload back out of what was sent, with the reference decoder.\<close>

definition q_ready :: "qconn \<Rightarrow> bool" where
  "q_ready q \<longleftrightarrow> q_open_w q \<and> (\<exists>ms. list_all msg_ok ms \<and> q_sent q = concat (map frame ms))"

definition q_written :: "qconn \<Rightarrow> bytes" where
  "q_written q = deframe (q_sent q)"

interpretation qemu_writer: io_writer Conn_Write q_ready q_written
proof
  fix w and b :: bytes
  assume rdy: "q_ready w" and b: "b \<noteq> []" "length b \<le> copy_buf"
  then obtain ms where ms: "list_all msg_ok ms" "q_sent w = concat (map frame ms)" and ow: "q_open_w w"
    by (auto simp: q_ready_def)
  have mb: "msg_ok b" using b by (simp add: msg_ok_def copy_buf_def)
  obtain v where v: "Conn_Write w b = ((length b, None), w\<lparr>qc_wb := v\<rparr>)" "q_open_w (w\<lparr>qc_wb := v\<rparr>)"
      "q_sent (w\<lparr>qc_wb := v\<rparr>) = concat (map frame (ms @ [b]))"
    using Write_ok [OF ow, of b] ms by auto
  moreover have "list_all msg_ok (ms @ [b])" using ms mb by simp
  ultimately have "q_ready (w\<lparr>qc_wb := v\<rparr>)" unfolding q_ready_def by blast
  moreover have "q_written (w\<lparr>qc_wb := v\<rparr>) = q_written w @ b"
    using deframe_frames [of ms "[]"] deframe_frames [of ms "frame b"] deframe_frame [OF mb, of "[]"] ms v(3)
    by (simp add: q_written_def deframe_Nil)
  ultimately show "\<exists>w'. Conn_Write w b = ((length b, None), w') \<and> q_ready w' \<and> q_written w' = q_written w @ b"
    using v(1) by blast
qed


section \<open>Reading\<close>

text \<open>
  A connection delivers \<open>bs\<close> when it is open for reading and its incoming bytes are the rest
  \<open>pre\<close> of the current message, whole messages, and then the closing frame or the end of the
  underlying connection, which the driver may report as an input/output error.
\<close>

definition ends :: "bytes \<Rightarrow> go_error \<Rightarrow> bool" where
  "ends t e \<longleftrightarrow> prefix stop_frame t \<or> (t = [] \<and> (e = EOF \<or> str_contains (error_text e) ioErrMsg))"

definition q_delivers :: "qconn \<Rightarrow> bytes \<Rightarrow> bool" where
  "q_delivers q bs \<longleftrightarrow> \<not> qc_closedReads q \<and>
     (\<exists>pre ms t. qc_left q = length pre \<and> src_bytes (qc_rb q) = pre @ concat (map frame ms) @ t \<and>
        list_all msg_ok ms \<and> bs = pre @ concat ms \<and> ends t (src_err (qc_rb q)))"

abbreviation q_work :: "qconn \<Rightarrow> nat" where
  "q_work q \<equiv> length (src_bytes (qc_rb q))"

lemma Read_leftover:
  assumes "\<not> qc_closedReads q" "0 < qc_left q" "0 < n" "qc_left q \<le> q_work q"
  shows "Conn_Read q n = ((take (min n (qc_left q)) (src_bytes (qc_rb q)), None),
     q\<lparr>qc_rb := (qc_rb q)\<lparr>src_bytes := drop (min n (qc_left q)) (src_bytes (qc_rb q))\<rparr>,
       qc_left := qc_left q - min n (qc_left q)\<rparr>)"
  using assms by (auto simp: Conn_Read_def Conn_read_def Let_def min_def readFull_enough)

lemma Read_frame:
  assumes "\<not> qc_closedReads q" "qc_left q = 0" "msg_ok m" "src_bytes (qc_rb q) = frame m @ r"
  shows "Conn_Read q n = ((take n m, None),
     q\<lparr>qc_rb := (qc_rb q)\<lparr>src_bytes := drop n m @ r\<rparr>, qc_left := length m - n\<rparr>)"
proof -
  from assms(3) have h: "(word_of_nat (length m) :: 32 word) \<noteq> 0"
    and l: "unat (word_of_nat (length m) :: 32 word) = length m"
    using msg_ok_header by auto
  have hd: "readFull (qc_rb q) 4 =
      ((le32 (word_of_nat (length m)), None), (qc_rb q)\<lparr>src_bytes := m @ r\<rparr>)"
    using assms(4) by (simp add: readFull_enough)
  show ?thesis
    using assms(1,2) by (auto simp: Conn_Read_def Conn_read_def Let_def hd h l readFull_enough)
qed

lemma Read_stop:
  assumes "\<not> qc_closedReads q" "qc_left q = 0" "ends (src_bytes (qc_rb q)) (src_err (qc_rb q))"
  shows "\<exists>q'. Conn_Read q n = (([], Some EOF), q')"
proof (cases "prefix stop_frame (src_bytes (qc_rb q))")
  case True
  then obtain r where "src_bytes (qc_rb q) = stop_frame @ r" by (auto simp: prefix_def)
  then have "readFull (qc_rb q) 4 = ((stop_frame, None), (qc_rb q)\<lparr>src_bytes := r\<rparr>)"
    by (simp add: readFull_enough)
  with assms(1,2) show ?thesis
    by (simp add: Conn_Read_def Conn_read_def Let_def str_contains_def ioErrMsg_def)
next
  case False
  with assms(3) have e: "src_bytes (qc_rb q) = []"
      "src_err (qc_rb q) = EOF \<or> str_contains (error_text (src_err (qc_rb q))) ioErrMsg"
    by (auto simp: ends_def)
  then show ?thesis
    using assms(1,2) by (auto simp: Conn_Read_def Conn_read_def Let_def readFull_exhausted)
qed

interpretation qemu_reader: io_reader "\<lambda>q n. Some (Conn_Read q n)" q_delivers q_work
proof
  fix q bs and n :: nat
  assume del: "q_delivers q bs" and n: "0 < n"
  then obtain pre ms t where st: "\<not> qc_closedReads q" "qc_left q = length pre"
      "src_bytes (qc_rb q) = pre @ concat (map frame ms) @ t" "list_all msg_ok ms"
      "bs = pre @ concat ms" "ends t (src_err (qc_rb q))"
    by (auto simp: q_delivers_def)
  let ?more = "\<exists>d r' bs'. Some (Conn_Read q n) = Some ((d, None), r') \<and> length d \<le> n \<and> bs = d @ bs' \<and>
      q_delivers r' bs' \<and> q_work r' < q_work q"
  let ?eof = "bs = [] \<and> (\<exists>r'. Some (Conn_Read q n) = Some (([], Some EOF), r'))"
  consider "pre \<noteq> []" | "pre = []" "ms = []" | m ms' where "pre = []" "ms = m # ms'"
    by (cases ms) auto
  then show "?more \<or> ?eof"
  proof cases
    case 1
    let ?k = "min n (length pre)"
    let ?q' = "q\<lparr>qc_rb := (qc_rb q)\<lparr>src_bytes := drop ?k (src_bytes (qc_rb q))\<rparr>,
       qc_left := qc_left q - ?k\<rparr>"
    have "Conn_Read q n = ((take ?k pre, None), ?q')"
      using Read_leftover [of q n] st 1 n by simp
    moreover have "q_delivers ?q' (drop ?k pre @ concat ms)"
      using st unfolding q_delivers_def
      by (intro conjI exI [of _ "drop ?k pre"] exI [of _ ms] exI [of _ t]) auto
    moreover have "bs = take ?k pre @ drop ?k pre @ concat ms" using st by simp
    ultimately show ?thesis using 1 n st
      by (intro disjI1 exI [of _ "take ?k pre"] exI [of _ ?q'] exI [of _ "drop ?k pre @ concat ms"]) auto
  next
    case 2
    then show ?thesis using Read_stop [of q n] st by simp
  next
    case (3 m ms')
    let ?q' = "q\<lparr>qc_rb := (qc_rb q)\<lparr>src_bytes := drop n m @ concat (map frame ms') @ t\<rparr>,
       qc_left := length m - n\<rparr>"
    have mok: "msg_ok m" using st 3 by simp
    have "Conn_Read q n = ((take n m, None), ?q')"
      using Read_frame [of q m "concat (map frame ms') @ t" n] st 3 by simp
    moreover have "q_delivers ?q' (drop n m @ concat ms')"
      using st 3 unfolding q_delivers_def
      by (intro conjI exI [of _ "drop n m"] exI [of _ ms'] exI [of _ t]) auto
    moreover have "bs = take n m @ drop n m @ concat ms'" using st 3 by simp
    ultimately show ?thesis using 3 st
      by (intro disjI1 exI [of _ "take n m"] exI [of _ ?q'] exI [of _ "drop n m @ concat ms'"]) auto
  qed
qed


interpretation qemu_pipe: io_pipe "\<lambda>q n. Some (Conn_Read q n)" q_delivers q_work Conn_Write q_ready q_written
  by unfold_locales


section \<open>The framing round trip\<close>

text \<open>Everything a connection sends: the messages of \<open>ms\<close>, and the closing frame.\<close>

lemma CloseWrite_ok:
  assumes "q_open_w q" "\<not> qc_writesCloseChan q"
  shows "\<exists>q'. Conn_CloseWrite q = Return (None, q') \<and> q_sent q' = q_sent q @ stop_frame \<and>
           qc_closedWrites q' \<and> qc_writesCloseChan q'"
proof -
  from assms have ok: "bw_ok (qc_wb (q\<lparr>qc_closedWrites := True\<rparr>))" and nc: "\<not> qc_closedWrites q"
    by (auto simp: q_open_w_def)
  from sendClose_ok [OF ok] obtain w
    where w: "sendClose (q\<lparr>qc_closedWrites := True\<rparr>) = (None, q\<lparr>qc_closedWrites := True, qc_wb := w\<rparr>)"
      "snk_bytes (bw_wr w) = bw_all (qc_wb q) @ stop_frame"
    by auto
  with nc assms q_open_w_all [OF assms(1)] show ?thesis
    by (simp add: Conn_CloseWrite_def q_sent_def)
qed

lemma sent_delivered:
  assumes "list_all msg_ok ms" "src_bytes src = concat (map frame ms) @ stop_frame"
  shows "q_delivers (makeConn src wr) (concat ms)"
  unfolding q_delivers_def using assms
  by (intro conjI exI [of _ "[]"] exI [of _ ms] exI [of _ stop_frame])
    (auto simp: makeConn_def ends_def)

text \<open>
  (C1) The framing round trip: messages that are not empty and shorter than \<open>2^32\<close> bytes, written one
  by one to a fresh connection over a working link and followed by \<open>CloseWrite\<close>, are read back by
  the peer as exactly their concatenation and then \<open>EOF\<close>, whatever the (positive) buffer sizes
  of the reads, as soon as there are more reads than bytes on the wire.
\<close>

theorem qemu_roundtrip:
  assumes ms: "list_all msg_ok ms" and link: "snk_room wr = None" "snk_bytes wr = []"
    and ns: "\<forall>n \<in> set ns. 0 < n" "length (concat (map frame ms)) + 4 < length ns"
  shows "\<exists>q. Conn_CloseWrite (writes (makeConn src wr) ms) = Return (None, q) \<and>
    (\<exists>r. reads (\<lambda>q n. Some (Conn_Read q n)) (makeConn \<lparr>src_bytes = q_sent q, src_err = e\<rparr> wr') ns
       = Some (concat ms, Some EOF, r))"
proof -
  let ?w = "writes (makeConn src wr) ms"
  from writes_ok [OF makeConn_open_w [OF link(1)], of src ms] link(2)
  have w: "q_open_w ?w" "q_sent ?w = concat (map frame ms)" "\<not> qc_writesCloseChan ?w"
    by (auto simp: makeConn_def q_sent_def newWriterSize_def)
  obtain q where q: "Conn_CloseWrite ?w = Return (None, q)" "q_sent q = concat (map frame ms) @ stop_frame"
    using CloseWrite_ok [OF w(1,3)] w(2) by auto
  have "q_delivers (makeConn \<lparr>src_bytes = q_sent q, src_err = e\<rparr> wr') (concat ms)"
    using ms q(2) by (intro sent_delivered) simp_all
  from qemu_reader.reads_all [OF this ns(1)] ns(2) q
  show ?thesis by (simp add: makeConn_def)
qed

theorem qemu_roundtrip_witness:
  "\<exists>q. Conn_CloseWrite (writes (makeConn \<lparr>src_bytes = [], src_err = EOF\<rparr>
        \<lparr>snk_bytes = [], snk_room = None, snk_err = EOF\<rparr>) [[1, 2, 3], [4]]) = Return (None, q) \<and>
    (\<exists>r. reads (\<lambda>q n. Some (Conn_Read q n))
       (makeConn \<lparr>src_bytes = q_sent q, src_err = EOF\<rparr> \<lparr>snk_bytes = [], snk_room = None, snk_err = EOF\<rparr>)
       (replicate 17 2) = Some ([1, 2, 3, 4], Some EOF, r))"
  using qemu_roundtrip [of "[[1, 2, 3], [4]]" "\<lparr>snk_bytes = [], snk_room = None, snk_err = EOF\<rparr>"
      "replicate 17 2" "\<lparr>src_bytes = [], src_err = EOF\<rparr>" EOF "\<lparr>snk_bytes = [], snk_room = None, snk_err = EOF\<rparr>"]
  by (simp add: msg_ok_def)

text \<open>
  (C2) Reading agrees with the reference decoder: on any incoming bytes that are whole messages and a
  proper end, a fresh connection delivers what \<open>deframe\<close> computes from the bytes, so the
  incremental reader with its \<open>left\<close> counter is equivalent to decoding the whole stream at once.
\<close>

theorem qemu_read_equals_deframe:
  assumes "list_all msg_ok ms" "ends t e" "\<forall>n \<in> set ns. 0 < n"
    and "length (concat (map frame ms) @ t) < length ns"
  shows "\<exists>r. reads (\<lambda>q n. Some (Conn_Read q n))
       (makeConn \<lparr>src_bytes = concat (map frame ms) @ t, src_err = e\<rparr> wr) ns
     = Some (deframe (concat (map frame ms) @ t), Some EOF, r)"
proof -
  let ?q = "makeConn \<lparr>src_bytes = concat (map frame ms) @ t, src_err = e\<rparr> wr"
  have t: "deframe t = []"
    using assms(2) by (auto simp: ends_def prefix_def deframe_stop deframe_Nil)
  have "q_delivers ?q (concat ms)"
    unfolding q_delivers_def using assms
    by (intro conjI exI [of _ "[]"] exI [of _ ms] exI [of _ t]) (auto simp: makeConn_def)
  from qemu_reader.reads_all [OF this assms(3)] assms(1,4) t
  show ?thesis by (simp add: makeConn_def deframe_frames)
qed

theorem qemu_read_equals_deframe_witness:
  "\<exists>r. reads (\<lambda>q n. Some (Conn_Read q n))
       (makeConn \<lparr>src_bytes = concat (map frame [[7, 8, 9]]) @ [],
          src_err = SysErr ''read: input/output error''\<rparr>
          \<lparr>snk_bytes = [], snk_room = None, snk_err = EOF\<rparr>) (replicate 8 1)
     = Some (deframe (concat (map frame [[7, 8, 9]]) @ []), Some EOF, r)"
  using qemu_read_equals_deframe [of "[[7, 8, 9]]" "[]" "SysErr ''read: input/output error''"
      "replicate 8 1" "\<lparr>snk_bytes = [], snk_room = None, snk_err = EOF\<rparr>"]
  by (simp add: msg_ok_def ends_def ioErrMsg_def str_contains_def)

text \<open>
  A read into an empty buffer loses the framing: when a message has been read in part, \<open>Read\<close>
  with \<open>len(b) = 0\<close> takes the next four bytes of the message for the length of a new message, and
  forgets how much of the message was left. (\<open>io.Reader\<close> allows such a read and asks that it
  have no effect.)
\<close>

theorem qemu_zero_read_loses_framing:
  assumes "\<not> qc_closedReads q" "0 < qc_left q" "4 \<le> q_work q"
    and "un_le32 (take 4 (src_bytes (qc_rb q))) \<noteq> 0"
  shows "Conn_Read q 0 = (([], None),
    q\<lparr>qc_rb := (qc_rb q)\<lparr>src_bytes := drop 4 (src_bytes (qc_rb q))\<rparr>,
      qc_left := unat (un_le32 (take 4 (src_bytes (qc_rb q))))\<rparr>)"
  using assms by (simp add: Conn_Read_def Conn_read_def Let_def readFull_enough)

theorem qemu_zero_read_loses_framing_witness:
  "let q = (makeConn \<lparr>src_bytes = [1, 0, 0, 0, 5, 6], src_err = EOF\<rparr>
        \<lparr>snk_bytes = [], snk_room = None, snk_err = EOF\<rparr>)\<lparr>qc_left := 6\<rparr>
   in src_bytes (qc_rb (snd (Conn_Read q 0))) = [5, 6] \<and> qc_left (snd (Conn_Read q 0)) = 1"
  using qemu_zero_read_loses_framing [of "(makeConn \<lparr>src_bytes = [1, 0, 0, 0, 5, 6], src_err = EOF\<rparr>
        \<lparr>snk_bytes = [], snk_room = None, snk_err = EOF\<rparr>)\<lparr>qc_left := 6\<rparr>"]
  by (simp add: makeConn_def un_le32_def)

text \<open>
  A write of no bytes, or of a multiple of \<open>2^32\<close> bytes, is the closing frame: the length that
  precedes the message is taken modulo \<open>2^32\<close>, and the peer reads a zero length as the end of the
  stream although the connection stays open.
\<close>

theorem qemu_write_of_zero_length_is_close:
  assumes "q_open_w q" "2 ^ 32 dvd length b" "\<not> qc_closedReads r" "qc_left r = 0"
    and "src_bytes (qc_rb r) = frame b @ rest"
  shows "q_sent (snd (Conn_Write q b)) = q_sent q @ stop_frame @ b \<and> q_open_w (snd (Conn_Write q b)) \<and>
    (\<forall>n. \<exists>r'. Conn_Read r n = (([], Some EOF), r'))"
proof -
  have z: "word_of_nat (length b) = (0 :: 32 word)"
    using assms(2) by (simp add: word_of_nat_eq_0_iff)
  then have f: "frame b = stop_frame @ b" by (simp add: frame_def)
  have "ends (src_bytes (qc_rb r)) (src_err (qc_rb r))"
    using assms(5) f by (simp add: ends_def)
  from Read_stop [OF assms(3,4) this] Write_ok [OF assms(1), of b] f show ?thesis by auto
qed

theorem qemu_write_of_zero_length_is_close_witness:
  "let q = makeConn \<lparr>src_bytes = frame [], src_err = EOF\<rparr> \<lparr>snk_bytes = [], snk_room = None, snk_err = EOF\<rparr>
   in q_sent (snd (Conn_Write q [])) = stop_frame \<and> q_open_w (snd (Conn_Write q [])) \<and>
     (\<exists>r'. Conn_Read q 10 = (([], Some EOF), r'))"
  using qemu_write_of_zero_length_is_close [of
      "makeConn \<lparr>src_bytes = frame [], src_err = EOF\<rparr> \<lparr>snk_bytes = [], snk_room = None, snk_err = EOF\<rparr>" "[]"
      "makeConn \<lparr>src_bytes = frame [], src_err = EOF\<rparr> \<lparr>snk_bytes = [], snk_room = None, snk_err = EOF\<rparr>" "[]"]
  by (simp add: makeConn_open_w) (simp add: makeConn_def q_sent_def newWriterSize_def Let_def)


section \<open>The close protocol under interleaving\<close>

text \<open>
  The lock-protected sections as atomic steps. \<open>Close\<close> keeps the close lock from its first test to
  its return, so at most one thread is inside it (\<open>qs_phase\<close>), but the half-closes it calls take
  their own locks and other threads' calls run in between. The goroutine \<open>closeConn\<close> started
  with the connection is the flag \<open>qs_waiter\<close>. A step to \<open>None\<close> is a panic of the process.
\<close>

datatype qphase = Outside | Marked | ClosedW | ClosedR

record qsys =
  qs_conn :: qconn
  qs_phase :: qphase
  qs_waiter :: bool

inductive conn_step :: "qsys \<Rightarrow> qsys option \<Rightarrow> bool" where
  st_read: "conn_step s (Some (s\<lparr>qs_conn := snd (Conn_Read (qs_conn s) n)\<rparr>))"
| st_write: "conn_step s (Some (s\<lparr>qs_conn := snd (Conn_Write (qs_conn s) b)\<rparr>))"
| st_closeRead: "Conn_CloseRead (qs_conn s) = Return (e, q) \<Longrightarrow> conn_step s (Some (s\<lparr>qs_conn := q\<rparr>))"
| st_closeRead_panic: "Conn_CloseRead (qs_conn s) = Panic \<Longrightarrow> conn_step s None"
| st_closeWrite: "Conn_CloseWrite (qs_conn s) = Return (e, q) \<Longrightarrow> conn_step s (Some (s\<lparr>qs_conn := q\<rparr>))"
| st_closeWrite_panic: "Conn_CloseWrite (qs_conn s) = Panic \<Longrightarrow> conn_step s None"
| st_close_again: "qs_phase s = Outside \<Longrightarrow> qc_closed (qs_conn s) \<Longrightarrow> conn_step s (Some s)"
| st_close_mark: "qs_phase s = Outside \<Longrightarrow> \<not> qc_closed (qs_conn s) \<Longrightarrow>
    conn_step s (Some (s\<lparr>qs_phase := Marked, qs_conn := (qs_conn s)\<lparr>qc_closed := True\<rparr>\<rparr>))"
| st_close_w: "qs_phase s = Marked \<Longrightarrow> Conn_CloseWrite (qs_conn s) = Return (e, q) \<Longrightarrow>
    conn_step s (Some (s\<lparr>qs_phase := ClosedW, qs_conn := q\<rparr>))"
| st_close_r: "qs_phase s = ClosedW \<Longrightarrow> Conn_CloseRead (qs_conn s) = Return (e, q) \<Longrightarrow>
    conn_step s (Some (s\<lparr>qs_phase := ClosedR, qs_conn := q\<rparr>))"
| st_close_conn: "qs_phase s = ClosedR \<Longrightarrow>
    conn_step s (Some (s\<lparr>qs_phase := Outside,
      qs_conn := (qs_conn s)\<lparr>qc_connCloses := Suc (qc_connCloses (qs_conn s))\<rparr>\<rparr>))"
| st_waiter: "qs_waiter s \<Longrightarrow> closeConn (qs_conn s) = Some q \<Longrightarrow>
    conn_step s (Some (s\<lparr>qs_waiter := False, qs_conn := q\<rparr>))"

inductive_cases conn_step_panicE: "conn_step s None"

inductive conn_reach :: "source \<Rightarrow> sink \<Rightarrow> qsys \<Rightarrow> bool" for rd wr where
  reach_init: "conn_reach rd wr \<lparr>qs_conn = makeConn rd wr, qs_phase = Outside, qs_waiter = True\<rparr>"
| reach_step: "conn_reach rd wr s \<Longrightarrow> conn_step s (Some t) \<Longrightarrow> conn_reach rd wr t"

text \<open>What the flags, the channels, the phase of \<open>Close\<close> and the goroutine have to do with each other.\<close>

definition chan_inv :: "qconn \<Rightarrow> bool" where
  "chan_inv q \<longleftrightarrow> qc_readsCloseChan q = qc_closedReads q \<and> qc_writesCloseChan q = qc_closedWrites q"

definition half_closed :: "qconn \<Rightarrow> bool" where
  "half_closed q \<longleftrightarrow> qc_closedReads q \<and> qc_closedWrites q"

definition conn_inv :: "qsys \<Rightarrow> bool" where
  "conn_inv s \<longleftrightarrow> chan_inv (qs_conn s) \<and>
     (qs_phase s \<noteq> Outside \<longrightarrow> qc_closed (qs_conn s)) \<and>
     (qs_phase s \<in> {ClosedW, ClosedR} \<longrightarrow> qc_closedWrites (qs_conn s)) \<and>
     (qs_phase s = ClosedR \<longrightarrow> qc_closedReads (qs_conn s)) \<and>
     (qs_phase s = Outside \<and> qc_closed (qs_conn s) \<longrightarrow> half_closed (qs_conn s)) \<and>
     (\<not> qs_waiter s \<longrightarrow> half_closed (qs_conn s)) \<and>
     qc_connCloses (qs_conn s) =
       (if qs_waiter s then 0 else 1) +
       (if qs_phase s = Outside \<and> qc_closed (qs_conn s) then 1 else 0)"

text \<open>What a method leaves alone: \<open>same_flags\<close> is all but the two byte streams.\<close>

definition same_flags :: "qconn \<Rightarrow> qconn \<Rightarrow> bool" where
  "same_flags q q' \<longleftrightarrow>
     qc_closedReads q' = qc_closedReads q \<and> qc_closedWrites q' = qc_closedWrites q \<and>
     qc_closed q' = qc_closed q \<and> qc_readsCloseChan q' = qc_readsCloseChan q \<and>
     qc_writesCloseChan q' = qc_writesCloseChan q \<and> qc_connCloses q' = qc_connCloses q"

lemma Read_flags [go_state]: "same_flags q (snd (Conn_Read q n))"
  by (auto simp: same_flags_def Conn_Read_def Conn_read_def Let_def split: prod.splits option.splits)

lemma Write_flags [go_state]: "same_flags q (snd (Conn_Write q b))"
  by (auto simp: same_flags_def Conn_Write_def split: prod.splits option.splits)

lemma sendClose_flags [go_state]: "same_flags q (snd (sendClose q))"
  by (auto simp: same_flags_def sendClose_def split: prod.splits option.splits)

lemma CloseRead_flags:
  assumes "chan_inv q"
  shows "\<exists>e q'. Conn_CloseRead q = Return (e, q') \<and> chan_inv q' \<and> qc_closedReads q' \<and>
           qc_closedWrites q' = qc_closedWrites q \<and> qc_closed q' = qc_closed q \<and>
           qc_connCloses q' = qc_connCloses q"
  using assms by (auto simp: Conn_CloseRead_def chan_inv_def)

lemma CloseWrite_flags:
  assumes "chan_inv q"
  shows "\<exists>e q'. Conn_CloseWrite q = Return (e, q') \<and> chan_inv q' \<and> qc_closedWrites q' \<and>
           qc_closedReads q' = qc_closedReads q \<and> qc_closed q' = qc_closed q \<and>
           qc_connCloses q' = qc_connCloses q"
proof (cases "qc_closedWrites q")
  case True
  with assms show ?thesis by (simp add: Conn_CloseWrite_def)
next
  case False
  obtain e q1 where q1: "sendClose (q\<lparr>qc_closedWrites := True\<rparr>) = (e, q1)"
    by (cases "sendClose (q\<lparr>qc_closedWrites := True\<rparr>)")
  with False assms sendClose_flags [of "q\<lparr>qc_closedWrites := True\<rparr>"] show ?thesis
    by (intro exI [of _ e] exI [of _ "q1\<lparr>qc_writesCloseChan := True\<rparr>"])
      (auto simp: Conn_CloseWrite_def chan_inv_def same_flags_def)
qed

lemma conn_inv_same_flags:
  "conn_inv s \<Longrightarrow> same_flags (qs_conn s) q \<Longrightarrow> conn_inv (s\<lparr>qs_conn := q\<rparr>)"
  by (simp add: conn_inv_def same_flags_def chan_inv_def half_closed_def)

lemma conn_inv_no_panic: "conn_inv s \<Longrightarrow> \<not> conn_step s None"
  using CloseRead_flags [of "qs_conn s"] CloseWrite_flags [of "qs_conn s"]
  by (auto simp: conn_inv_def elim!: conn_step_panicE)

lemma conn_step_inv:
  assumes "conn_step s (Some t)" "conn_inv s"
  shows "conn_inv t"
  using assms(1)
proof cases
  case (st_read n)
  with assms(2) show ?thesis by (simp add: conn_inv_same_flags Read_flags)
next
  case (st_write b)
  with assms(2) show ?thesis by (simp add: conn_inv_same_flags Write_flags)
next
  case (st_closeRead e q)
  with assms(2) CloseRead_flags [of "qs_conn s"] show ?thesis
    by (auto simp: conn_inv_def half_closed_def)
next
  case (st_closeWrite e q)
  with assms(2) CloseWrite_flags [of "qs_conn s"] show ?thesis
    by (auto simp: conn_inv_def half_closed_def)
next
  case st_close_again
  with assms(2) show ?thesis by simp
next
  case st_close_mark
  with assms(2) show ?thesis by (simp add: conn_inv_def chan_inv_def half_closed_def)
next
  case (st_close_w e q)
  with assms(2) CloseWrite_flags [of "qs_conn s"] show ?thesis
    by (auto simp: conn_inv_def half_closed_def)
next
  case (st_close_r e q)
  with assms(2) CloseRead_flags [of "qs_conn s"] show ?thesis
    by (auto simp: conn_inv_def half_closed_def)
next
  case st_close_conn
  with assms(2) show ?thesis by (auto simp: conn_inv_def chan_inv_def half_closed_def)
next
  case (st_waiter q)
  with assms(2) show ?thesis
    by (auto simp: conn_inv_def chan_inv_def half_closed_def closeConn_def split: if_splits)
qed

lemma conn_reach_inv: "conn_reach rd wr s \<Longrightarrow> conn_inv s"
proof (induction rule: conn_reach.induct)
  case reach_init
  show ?case by (simp add: conn_inv_def chan_inv_def makeConn_def)
next
  case (reach_step s t)
  then show ?case by (blast intro: conn_step_inv)
qed

text \<open>
  (C3) Under every interleaving of reads, writes, half-closes, closes and the \<open>closeConn\<close> goroutine, no
  channel is closed twice (which would panic the process), and the underlying connection is
  closed only after both halves are, at most twice.
\<close>

theorem qemu_close_protocol_safe:
  assumes "conn_reach rd wr s"
  shows "\<not> conn_step s None \<and> (0 < qc_connCloses (qs_conn s) \<longrightarrow> half_closed (qs_conn s)) \<and>
    qc_connCloses (qs_conn s) \<le> 2"
  using conn_inv_no_panic [OF conn_reach_inv [OF assms]] conn_reach_inv [OF assms]
  by (auto simp: conn_inv_def)

theorem qemu_close_protocol_safe_witness:
  "let s = \<lparr>qs_conn = makeConn \<lparr>src_bytes = [], src_err = EOF\<rparr> \<lparr>snk_bytes = [], snk_room = None, snk_err = EOF\<rparr>,
        qs_phase = Outside, qs_waiter = True\<rparr>
   in \<not> conn_step s None \<and> qc_connCloses (qs_conn s) \<le> 2"
  using qemu_close_protocol_safe [OF reach_init] by (simp add: Let_def)

text \<open>
  \<open>Close\<close> on a connection in a reachable quiet state succeeds once: it closes both halves and the
  underlying connection, reports no error, releases the \<open>closeConn\<close> goroutine, and every later
  read, write, half-close or close returns \<open>errClosed\<close> and changes nothing.
\<close>

theorem qemu_close_effect:
  assumes "chan_inv q" "\<not> qc_closed q"
  shows "\<exists>q'. Conn_Close q = Return (None, q') \<and> half_closed q' \<and> chan_inv q' \<and>
    qc_connCloses q' = Suc (qc_connCloses q) \<and> closeConn q' \<noteq> None \<and>
    Conn_Read q' n = (([], Some ErrClosed), q') \<and> Conn_Write q' b = ((0, Some ErrClosed), q') \<and>
    Conn_CloseRead q' = Return (Some ErrClosed, q') \<and> Conn_CloseWrite q' = Return (Some ErrClosed, q') \<and>
    Conn_Close q' = Return (Some ErrClosed, q')"
proof -
  have "chan_inv (q\<lparr>qc_closed := True\<rparr>)" using assms(1) by (simp add: chan_inv_def)
  from CloseWrite_flags [OF this] obtain e1 q1
    where q1: "Conn_CloseWrite (q\<lparr>qc_closed := True\<rparr>) = Return (e1, q1)" "chan_inv q1" "qc_closedWrites q1"
      "qc_closed q1" "qc_connCloses q1 = qc_connCloses q"
    by auto
  from CloseRead_flags [OF q1(2)] obtain e2 q2
    where q2: "Conn_CloseRead q1 = Return (e2, q2)" "chan_inv q2" "qc_closedReads q2" "qc_closedWrites q2"
      "qc_closed q2" "qc_connCloses q2 = qc_connCloses q"
    using q1 by auto
  have notio: "\<not> str_contains (error_text ErrClosed) ioErrMsg"
    by (simp add: str_contains_def ioErrMsg_def)
  let ?q' = "q2\<lparr>qc_connCloses := Suc (qc_connCloses q2)\<rparr>"
  have "Conn_Close q = Return (None, ?q')" using assms(2) q1(1) q2(1) by (simp add: Conn_Close_def)
  with q2 notio show ?thesis
    by (intro exI [of _ ?q'])
      (simp add: half_closed_def chan_inv_def closeConn_def Conn_Read_def Conn_read_def Conn_Write_def
        Conn_CloseRead_def Conn_CloseWrite_def Conn_Close_def)
qed

theorem qemu_close_effect_witness:
  "\<exists>q'. Conn_Close (makeConn \<lparr>src_bytes = [], src_err = EOF\<rparr> \<lparr>snk_bytes = [], snk_room = None, snk_err = EOF\<rparr>)
      = Return (None, q') \<and> half_closed q'"
  using qemu_close_effect [of "makeConn \<lparr>src_bytes = [], src_err = EOF\<rparr>
      \<lparr>snk_bytes = [], snk_room = None, snk_err = EOF\<rparr>"]
  by (auto simp: chan_inv_def makeConn_def)

end
