(* ===== verification/Proto.thy ===== *)
theory Proto
  imports Prelude
begin

text \<open>
  The messages of \<open>proto/waterfall.proto\<close> and \<open>proto/control_socket.proto\<close> that the services exchange, as
  records with the fields of the definitions, and the two translations between a network name and the
  message enumeration, \<open>networkKind\<close> of \<open>forward/ports/ports.go\<close> and \<open>networkDescription\<close> of
  \<open>server/server.go\<close>. A \<open>bytes\<close> field that is empty is not encoded and arrives as \<open>nil\<close>.
\<close>

datatype fkind = UNSET | TCP | UDP | UNIX

datatype fop = OPEN | FWD | CLOSE | ANNOUNCE

record ForwardMessage =
  fm_kind :: fkind
  fm_op :: fop
  fm_addr :: string
  fm_payload :: bytes
  fm_rebind :: bool

definition zeroForwardMessage :: ForwardMessage where
  "zeroForwardMessage =
     \<lparr>fm_kind = UNSET, fm_op = OPEN, fm_addr = [], fm_payload = [], fm_rebind = False\<rparr>"

record Message =
  m_payload :: bytes

record Transfer =
  t_path :: string
  t_payload :: bytes
  t_success :: bool
  t_err :: string

record Cmd =
  c_path :: string
  c_args :: "string list"
  c_dir :: string
  c_pipeIn :: bool
  c_env :: "(string \<times> string) list"

record CmdProgress =
  cp_cmd :: "Cmd option"
  cp_exit_code :: "32 word"
  cp_stdout :: bytes
  cp_stderr :: bytes
  cp_stdin :: bytes

definition zeroCmdProgress :: CmdProgress where
  "zeroCmdProgress = \<lparr>cp_cmd = None, cp_exit_code = 0, cp_stdout = [], cp_stderr = [], cp_stdin = []\<rparr>"

record InstallRequest =
  ir_args :: "string list"
  ir_payload :: bytes
  ir_apk_size :: "32 word"

record InstallResponse =
  is_exit_code :: "32 word"
  is_output :: string

record ForwardSession =
  fs_src :: string
  fs_dst :: string

record PortForwardRequest =
  pr_rebind :: bool
  pr_session :: ForwardSession

datatype sort = Identity | Open | Shut

record SocketControl =
  sc_sort :: sort
  sc_fd :: "32 word"

definition networkKind :: "string \<Rightarrow> fkind result" where
  "networkKind kind =
     (if kind = ''tcp'' then Inr TCP
      else if kind = ''udp'' then Inr UDP
      else if kind = ''unix'' then Inr UNIX
      else Inl (StatusErr InvalidArgument ''unknown network kind''))"

definition networkDescription :: "fkind \<Rightarrow> string result" where
  "networkDescription kind =
     (case kind of
        TCP \<Rightarrow> Inr ''tcp''
      | UDP \<Rightarrow> Inr ''udp''
      | UNIX \<Rightarrow> Inr ''unix''
      | UNSET \<Rightarrow> Inl (StatusErr InvalidArgument ''unsupported network type''))"

text \<open>The host's and the device's names of a network agree in both directions.\<close>

lemma networkKind_Description: "networkKind n = Inr k \<longleftrightarrow> networkDescription k = Inr n"
  by (auto simp: networkKind_def networkDescription_def split: fkind.splits if_splits)

lemma networkDescription_inj:
  "networkDescription k = Inr n \<Longrightarrow> networkDescription k' = Inr n \<Longrightarrow> k = k'"
  by (auto simp: networkDescription_def split: fkind.splits)

lemma networkDescription_no_colon: "networkDescription k = Inr n \<Longrightarrow> CHR '':'' \<notin> set n"
  by (auto simp: networkDescription_def split: fkind.splits)

end
