(* ===== verification/Stream.thy ===== *)
theory Stream
  imports GoIO Proto
begin

text \<open>
  \<open>stream/stream.go\<close>: a byte stream over a gRPC message stream. A goroutine (\<open>startReads\<close>) receives
  messages, takes their bytes and puts them on a channel of capacity 256; \<open>Read\<close> takes the first
  entry, blocking, and then drains the channel as long as entries are there and the buffer has
  room. The message formats are a parameter (the interfaces \<open>MessageReader\<close>, \<open>MessageWriter\<close>,
  \<open>MessageReadWriteCloser\<close>), the locale \<open>message_codec\<close> here; its implementations in
  \<open>forward/stream.go\<close>, \<open>mux/message.go\<close>, \<open>server/server.go\<close> and \<open>client/client.go\<close> are at the end.

  The interleaving of the goroutine with \<open>Read\<close> is a schedule: before each channel operation of
  \<open>Read\<close> the goroutine makes the number of steps the schedule says. The theorems hold for every
  schedule.
\<close>


section \<open>The gRPC stream\<close>

text \<open>
  gRPC is not part of the sources. Its receiving side is the list of messages that \<open>RecvMsg\<close> will
  return and the error after them; its sending side is the list of messages sent and the number of
  further sends before \<open>SendMsg\<close> fails (\<open>None\<close>: it never does).
\<close>

record 'm sender =
  sd_sent :: "'m list"
  sd_room :: "nat option"
  sd_err :: go_error

definition SendMsg :: "'m sender \<Rightarrow> 'm \<Rightarrow> go_error option \<times> 'm sender" where
  "SendMsg s m =
     (case sd_room s of
        None \<Rightarrow> (None, s\<lparr>sd_sent := sd_sent s @ [m]\<rparr>)
      | Some 0 \<Rightarrow> (Some (sd_err s), s)
      | Some (Suc k) \<Rightarrow> (None, s\<lparr>sd_sent := sd_sent s @ [m], sd_room := Some k\<rparr>))"


section \<open>Reader\<close>

text \<open>
  \<open>sr_hand\<close> is the entry the goroutine holds while the channel is full; \<open>sr_errChan\<close> is the error
  channel, of capacity one.
\<close>

record 'm sreader =
  sr_inbox :: "'m list"
  sr_rerr :: go_error
  sr_lastRead :: bytes
  sr_msgChan :: "bytes list"
  sr_msgClosed :: bool
  sr_errChan :: "go_error option"
  sr_hand :: "bytes option"
  sr_sched :: "nat list"

definition chanCap :: nat where
  "chanCap = 256"

definition NewReader :: "'m list \<Rightarrow> go_error \<Rightarrow> nat list \<Rightarrow> 'm sreader" where
  "NewReader ms e sched =
     \<lparr>sr_inbox = ms, sr_rerr = e, sr_lastRead = [], sr_msgChan = [], sr_msgClosed = False,
      sr_errChan = None, sr_hand = None, sr_sched = sched\<rparr>"

text \<open>One step of \<open>startReads\<close>: deliver the entry in hand if there is room, or receive.\<close>

definition startReads_step :: "('m \<Rightarrow> bytes result) \<Rightarrow> 'm sreader \<Rightarrow> 'm sreader" where
  "startReads_step GetBytes r =
     (case sr_hand r of
        Some b \<Rightarrow>
          if length (sr_msgChan r) < chanCap
          then r\<lparr>sr_msgChan := sr_msgChan r @ [b], sr_hand := None\<rparr> else r
      | None \<Rightarrow>
          if sr_msgClosed r then r
          else (case sr_inbox r of
                  [] \<Rightarrow> r\<lparr>sr_errChan := Some (sr_rerr r), sr_msgClosed := True\<rparr>
                | m # ms \<Rightarrow>
                    (case GetBytes m of
                       Inl e \<Rightarrow> r\<lparr>sr_inbox := ms, sr_errChan := Some e, sr_msgClosed := True\<rparr>
                     | Inr b \<Rightarrow> r\<lparr>sr_inbox := ms, sr_hand := Some b\<rparr>)))"

text \<open>The goroutine runs as long as the schedule says, or until a blocking receive can proceed.\<close>

definition sched_run :: "('m \<Rightarrow> bytes result) \<Rightarrow> 'm sreader \<Rightarrow> 'm sreader" where
  "sched_run GetBytes r =
     (case sr_sched r of
        [] \<Rightarrow> r
      | k # ks \<Rightarrow> (startReads_step GetBytes ^^ k) (r\<lparr>sr_sched := ks\<rparr>))"

definition receivable :: "'m sreader \<Rightarrow> bool" where
  "receivable r \<longleftrightarrow> sr_msgChan r \<noteq> [] \<or> sr_msgClosed r"

definition await :: "('m \<Rightarrow> bytes result) \<Rightarrow> 'm sreader \<Rightarrow> 'm sreader" where
  "await GetBytes r =
     (let r1 = (if receivable r then r else startReads_step GetBytes r)
      in if receivable r1 then r1 else startReads_step GetBytes r1)"

text \<open>
  The closure \<open>handleMsg\<close>: \<open>acc\<close> are the bytes already copied (\<open>nTotal\<close> is their number) and
  \<open>rb\<close> is what the channel gave, \<open>None\<close> when it is closed. The result is the new bytes, whether to
  return early, and the error; \<open>None\<close> is a receive from the error channel that never returns.
\<close>

definition handleMsg ::
    "'m sreader \<Rightarrow> nat \<Rightarrow> bytes \<Rightarrow> bytes option \<Rightarrow> ((bytes \<times> bool \<times> go_error option) \<times> 'm sreader) option"
where
  "handleMsg r n acc rb =
     (case rb of
        None \<Rightarrow>
          if acc = []
          then (case sr_errChan r of
                  None \<Rightarrow> None
                | Some e \<Rightarrow> Some (([], True, Some e), r\<lparr>sr_errChan := None\<rparr>))
          else Some (([], True, None), r)
      | Some b \<Rightarrow>
          let new = take (n - length acc) b
          in Some ((new, length acc + length new = n, None), r\<lparr>sr_lastRead := drop (length new) b\<rparr>))"

text \<open>Messages not yet handled; it bounds the draining loop.\<close>

definition pending :: "'m sreader \<Rightarrow> nat" where
  "pending r = length (sr_msgChan r) + (case sr_hand r of None \<Rightarrow> 0 | Some _ \<Rightarrow> 1) + length (sr_inbox r)"

lemma pending_step: "pending (startReads_step g r) \<le> pending r"
  by (auto simp: pending_def startReads_step_def split: option.splits list.splits sum.splits)

lemma pending_steps: "pending ((startReads_step g ^^ k) r) \<le> pending r"
  by (induction k) (auto intro: order_trans [OF pending_step])

lemma pending_sched_run: "pending (sched_run g r) \<le> pending r"
proof (cases "sr_sched r")
  case (Cons k ks)
  then show ?thesis
    using pending_steps [of k g "r\<lparr>sr_sched := ks\<rparr>"] by (simp add: sched_run_def pending_def)
qed (simp add: sched_run_def)

text \<open>The draining loop of \<open>Read\<close>: a \<open>select\<close> with a default case.\<close>

function drain ::
    "('m \<Rightarrow> bytes result) \<Rightarrow> 'm sreader \<Rightarrow> nat \<Rightarrow> bytes \<Rightarrow> ((bytes \<times> go_error option) \<times> 'm sreader) option"
where
  "drain GetBytes r n acc =
     (let r1 = sched_run GetBytes r
      in case sr_msgChan r1 of
           b # bs \<Rightarrow>
             (case handleMsg (r1\<lparr>sr_msgChan := bs\<rparr>) n acc (Some b) of
                None \<Rightarrow> None
              | Some ((new, early, err), r2) \<Rightarrow>
                  if early then Some ((acc @ new, err), r2) else drain GetBytes r2 n (acc @ new))
         | [] \<Rightarrow>
             if sr_msgClosed r1
             then (case handleMsg r1 n acc None of
                     None \<Rightarrow> None
                   | Some ((new, early, err), r2) \<Rightarrow> Some ((acc @ new, err), r2))
             else Some ((acc, None), r1))"
  by pat_completeness auto
termination
proof (relation "measure (\<lambda>(g, r, n, acc). pending r)", goal_cases)
  case 1
  show ?case by simp
next
  case (2 g r n acc r1 b bs p new r2 x early err)
  then show ?case
    using pending_sched_run [of g r]
    by (auto simp: handleMsg_def Let_def pending_def split: option.splits)
qed

declare drain.simps [simp del]

definition Reader_Read :: "('m \<Rightarrow> bytes result) \<Rightarrow> 'm sreader \<Rightarrow> nat \<Rightarrow> ((bytes \<times> go_error option) \<times> 'm sreader) option" where
  "Reader_Read GetBytes r n =
     (if sr_lastRead r \<noteq> []
      then Some ((take n (sr_lastRead r), None), r\<lparr>sr_lastRead := drop n (sr_lastRead r)\<rparr>)
      else
        let r1 = await GetBytes (sched_run GetBytes r)
        in case sr_msgChan r1 of
             b # bs \<Rightarrow>
               (case handleMsg (r1\<lparr>sr_msgChan := bs\<rparr>) n [] (Some b) of
                  None \<Rightarrow> None
                | Some ((new, early, err), r2) \<Rightarrow>
                    if early then Some ((new, err), r2) else drain GetBytes r2 n new)
           | [] \<Rightarrow>
               (case handleMsg r1 n [] None of
                  None \<Rightarrow> None
                | Some ((new, early, err), r2) \<Rightarrow> Some ((new, err), r2)))"


section \<open>Writer and ReadWriteCloser\<close>

definition swrite :: "'m \<Rightarrow> ('m \<Rightarrow> bytes \<Rightarrow> 'm) \<Rightarrow> 'm sender \<Rightarrow> bytes \<Rightarrow> (nat \<times> go_error option) \<times> 'm sender" where
  "swrite BuildMsg SetBytes s b =
     (case SendMsg s (SetBytes BuildMsg b) of (e, s') \<Rightarrow>
        (case e of Some e' \<Rightarrow> ((0, Some e'), s') | None \<Rightarrow> ((length b, None), s')))"

record 'm rwc =
  rw_r :: "'m sreader"
  rw_w :: "'m sender"
  rw_cr :: bool
  rw_cw :: bool

definition NewReadWriteCloser :: "'m list \<Rightarrow> go_error \<Rightarrow> nat list \<Rightarrow> 'm sender \<Rightarrow> 'm rwc" where
  "NewReadWriteCloser ms e sched sd =
     \<lparr>rw_r = NewReader ms e sched, rw_w = sd, rw_cr = False, rw_cw = False\<rparr>"

definition rwc_Read :: "('m \<Rightarrow> bytes result) \<Rightarrow> 'm rwc \<Rightarrow> nat \<Rightarrow> ((bytes \<times> go_error option) \<times> 'm rwc) option" where
  "rwc_Read GetBytes s n =
     (if rw_cr s then Some (([], Some ErrClosedRead), s)
      else map_option (\<lambda>(v, r). (v, s\<lparr>rw_r := r\<rparr>)) (Reader_Read GetBytes (rw_r s) n))"

definition rwc_Write :: "'m \<Rightarrow> ('m \<Rightarrow> bytes \<Rightarrow> 'm) \<Rightarrow> 'm rwc \<Rightarrow> bytes \<Rightarrow> (nat \<times> go_error option) \<times> 'm rwc" where
  "rwc_Write BuildMsg SetBytes s b =
     (if rw_cw s then ((0, Some ErrClosedWrite), s)
      else (case swrite BuildMsg SetBytes (rw_w s) b of (v, w) \<Rightarrow> (v, s\<lparr>rw_w := w\<rparr>)))"

definition rwc_CloseRead :: "'m rwc \<Rightarrow> go_error option \<times> 'm rwc" where
  "rwc_CloseRead s = (None, s\<lparr>rw_cr := True\<rparr>)"

definition rwc_CloseWrite :: "'m \<Rightarrow> 'm rwc \<Rightarrow> go_error option \<times> 'm rwc" where
  "rwc_CloseWrite CloseMsg s =
     (case SendMsg (rw_w s) CloseMsg of (e, w) \<Rightarrow> (e, s\<lparr>rw_cw := True, rw_w := w\<rparr>))"

definition rwc_Close :: "'m \<Rightarrow> 'm rwc \<Rightarrow> go_error option \<times> 'm rwc" where
  "rwc_Close CloseMsg s =
     rwc_CloseWrite CloseMsg (snd (rwc_CloseRead (s\<lparr>rw_cr := True, rw_cw := True\<rparr>)))"



section \<open>The reader's invariant and its abstraction\<close>

text \<open>The bytes of the messages up to the first one that ends the stream, and the error it ends with.\<close>

fun payloads :: "('m \<Rightarrow> bytes result) \<Rightarrow> 'm list \<Rightarrow> bytes" where
  "payloads g [] = []"
| "payloads g (m # ms) = (case g m of Inl e \<Rightarrow> [] | Inr b \<Rightarrow> b @ payloads g ms)"

fun final_err :: "('m \<Rightarrow> bytes result) \<Rightarrow> 'm list \<Rightarrow> go_error \<Rightarrow> go_error" where
  "final_err g [] e = e"
| "final_err g (m # ms) e = (case g m of Inl e' \<Rightarrow> e' | Inr b \<Rightarrow> final_err g ms e)"

definition content :: "('m \<Rightarrow> bytes result) \<Rightarrow> 'm sreader \<Rightarrow> bytes" where
  "content g r =
     sr_lastRead r @ concat (sr_msgChan r) @ (case sr_hand r of None \<Rightarrow> [] | Some b \<Rightarrow> b) @
     (if sr_msgClosed r then [] else payloads g (sr_inbox r))"

text \<open>The error still to be reported; \<open>None\<close> once it was.\<close>

definition outcome_err :: "('m \<Rightarrow> bytes result) \<Rightarrow> 'm sreader \<Rightarrow> go_error option" where
  "outcome_err g r =
     (if sr_msgClosed r then sr_errChan r else Some (final_err g (sr_inbox r) (sr_rerr r)))"

definition reader_inv :: "'m sreader \<Rightarrow> bool" where
  "reader_inv r \<longleftrightarrow>
     (sr_msgClosed r \<longrightarrow> sr_hand r = None) \<and> (\<not> sr_msgClosed r \<longrightarrow> sr_errChan r = None) \<and>
     length (sr_msgChan r) \<le> chanCap"

lemmas reader_defs = content_def outcome_err_def reader_inv_def

lemma NewReader_inv: "reader_inv (NewReader ms e sched)"
  by (simp add: reader_inv_def NewReader_def)

text \<open>What a step of the goroutine keeps: everything \<open>Read\<close> will ever see.\<close>

definition same_stream :: "('m \<Rightarrow> bytes result) \<Rightarrow> 'm sreader \<Rightarrow> 'm sreader \<Rightarrow> bool" where
  "same_stream g r r' \<longleftrightarrow> reader_inv r' \<and> content g r' = content g r \<and>
     outcome_err g r' = outcome_err g r \<and> sr_lastRead r' = sr_lastRead r \<and> pending r' \<le> pending r"

lemma sched_irrelevant [simp]:
  "content g (r\<lparr>sr_sched := ks\<rparr>) = content g r" "outcome_err g (r\<lparr>sr_sched := ks\<rparr>) = outcome_err g r"
  "pending (r\<lparr>sr_sched := ks\<rparr>) = pending r" "reader_inv (r\<lparr>sr_sched := ks\<rparr>) = reader_inv r"
  by (simp_all add: content_def outcome_err_def pending_def reader_inv_def)

lemma same_stream_refl: "reader_inv r \<Longrightarrow> same_stream g r r"
  by (simp add: same_stream_def)

lemma same_stream_trans: "same_stream g r r' \<Longrightarrow> same_stream g r' r'' \<Longrightarrow> same_stream g r r''"
  by (auto simp: same_stream_def)

lemma step_same_stream:
  assumes "reader_inv r"
  shows "same_stream g r (startReads_step g r)"
proof -
  have "reader_inv (startReads_step g r) \<and> content g (startReads_step g r) = content g r \<and>
      outcome_err g (startReads_step g r) = outcome_err g r \<and> sr_lastRead (startReads_step g r) = sr_lastRead r"
    using assms
    by (auto simp: startReads_step_def reader_defs split: option.splits list.splits sum.splits)
  with pending_step [of g r] show ?thesis by (simp add: same_stream_def)
qed

lemma steps_same_stream: "reader_inv r \<Longrightarrow> same_stream g r ((startReads_step g ^^ k) r)"
proof (induction k)
  case (Suc k)
  then have k: "same_stream g r ((startReads_step g ^^ k) r)" by simp
  then have "reader_inv ((startReads_step g ^^ k) r)" by (simp add: same_stream_def)
  from same_stream_trans [OF k step_same_stream [OF this]] show ?case by simp
qed (simp add: same_stream_refl)

lemma sched_run_same_stream:
  assumes "reader_inv r"
  shows "same_stream g r (sched_run g r)"
proof (cases "sr_sched r")
  case Nil
  with assms show ?thesis by (simp add: sched_run_def same_stream_refl)
next
  case (Cons k ks)
  have "reader_inv (r\<lparr>sr_sched := ks\<rparr>)" using assms by simp
  from steps_same_stream [OF this, of g k] Cons show ?thesis
    by (simp add: sched_run_def same_stream_def)
qed

lemma await_same_stream: "reader_inv r \<Longrightarrow> same_stream g r (await g r)"
  using step_same_stream [of r g] step_same_stream [of "startReads_step g r" g]
  by (auto simp: await_def Let_def same_stream_refl intro: same_stream_trans simp: same_stream_def)

text \<open>The blocking receive always ends: two steps of the goroutine are enough.\<close>

lemma await_receivable: "reader_inv r \<Longrightarrow> receivable (await g r)"
  by (auto simp: await_def Let_def receivable_def startReads_step_def chanCap_def
      split: option.splits list.splits sum.splits)


section \<open>Reads deliver the stream\<close>

definition rd_work :: "('m \<Rightarrow> bytes result) \<Rightarrow> 'm sreader \<Rightarrow> nat" where
  "rd_work g r = pending r + length (content g r)"

text \<open>A read that returned bytes and no error: what it consumed, and that it made progress.\<close>

definition got :: "('m \<Rightarrow> bytes result) \<Rightarrow> 'm sreader \<Rightarrow> bytes \<Rightarrow> 'm sreader \<Rightarrow> bool" where
  "got g r d r' \<longleftrightarrow> reader_inv r' \<and> content g r = d @ content g r' \<and>
     outcome_err g r' = outcome_err g r \<and> rd_work g r' \<le> rd_work g r"

text \<open>The state after the stream's error was reported.\<close>

definition spent :: "'m sreader \<Rightarrow> bool" where
  "spent r \<longleftrightarrow> reader_inv r \<and> sr_msgClosed r \<and> sr_errChan r = None \<and> sr_lastRead r = [] \<and> sr_msgChan r = []"

lemma handle_entry:
  assumes "reader_inv r" "sr_msgChan r = b # bs" "sr_lastRead r = []"
    and "handleMsg (r\<lparr>sr_msgChan := bs\<rparr>) n acc (Some b) = Some ((new, early, err), r2)"
  shows "got g r new r2 \<and> err = None \<and> rd_work g r2 < rd_work g r \<and> new = take (n - length acc) b \<and>
    early = (length acc + length new = n) \<and> (length acc < n \<and> \<not> early \<longrightarrow> sr_lastRead r2 = [])"
proof -
  have new: "new = take (n - length acc) b" "early = (length acc + length new = n)" "err = None"
      "r2 = r\<lparr>sr_msgChan := bs, sr_lastRead := drop (length new) b\<rparr>"
    using assms(4) by (auto simp: handleMsg_def Let_def)
  have b: "b = new @ drop (length new) b" by (simp add: new(1) min_def)
  have c: "content g r = new @ content g r2"
    using assms(2,3) new(4) b by (simp add: content_def)
  then have "length (content g r2) \<le> length (content g r)" by simp
  moreover have "pending r2 < pending r" using assms(2) new(4) by (simp add: pending_def)
  ultimately have w: "rd_work g r2 < rd_work g r" by (simp add: rd_work_def)
  have "length acc < n \<and> \<not> early \<longrightarrow> length b \<le> length new"
    using new(1,2) by auto
  with assms(1,2) new c w show ?thesis
    by (auto simp: got_def reader_inv_def outcome_err_def)
qed

lemma handle_closed:
  assumes "reader_inv r" "sr_msgChan r = []" "sr_lastRead r = []" "sr_msgClosed r" "outcome_err g r = Some e"
  shows "content g r = [] \<and> handleMsg r n [] None = Some (([], True, Some e), r\<lparr>sr_errChan := None\<rparr>) \<and>
    spent (r\<lparr>sr_errChan := None\<rparr>)"
  using assms by (auto simp: handleMsg_def content_def outcome_err_def reader_inv_def spent_def)

lemma drain_spec:
  assumes "reader_inv r" "sr_lastRead r = []" "length acc < n" "outcome_err g r = Some e"
  shows "(\<exists>d r'. drain g r n acc = Some ((acc @ d, None), r') \<and> length (acc @ d) \<le> n \<and> got g r d r') \<or>
    (acc = [] \<and> content g r = [] \<and> (\<exists>r'. drain g r n acc = Some (([], Some e), r') \<and> spent r'))"
  using assms
proof (induction g r n acc rule: drain.induct)
  case (1 g r n acc)
  let ?r1 = "sched_run g r"
  have same: "same_stream g r ?r1" using "1.prems"(1) by (rule sched_run_same_stream)
  then have inv1: "reader_inv ?r1" and lr1: "sr_lastRead ?r1 = []" and e1: "outcome_err g ?r1 = Some e"
    and c1: "content g ?r1 = content g r" and w1: "rd_work g ?r1 \<le> rd_work g r"
    using "1.prems" by (auto simp: same_stream_def rd_work_def)
  have got1: "got g r d r'" if "got g ?r1 d r'" for d r'
    using that c1 w1 e1 "1.prems"(4) by (auto simp: got_def)
  show ?case
  proof (cases "sr_msgChan ?r1")
    case Nil
    show ?thesis
    proof (cases "sr_msgClosed ?r1")
      case False
      then have "drain g r n acc = Some ((acc @ [], None), ?r1)"
        using Nil by (subst drain.simps) (simp add: Let_def)
      moreover have "got g r [] ?r1" using inv1 c1 w1 e1 "1.prems"(4) by (simp add: got_def)
      ultimately show ?thesis using "1.prems"(3) by auto
    next
      case True
      note hc = handle_closed [OF inv1 Nil lr1 True e1, of n]
      show ?thesis
      proof (cases "acc = []")
        case True
        with hc Nil \<open>sr_msgClosed ?r1\<close> c1 show ?thesis
          by (subst drain.simps, subst (2) drain.simps) (simp add: Let_def)
      next
        case False
        then have "drain g r n acc = Some ((acc @ [], None), ?r1)"
          using Nil \<open>sr_msgClosed ?r1\<close> by (subst drain.simps) (simp add: Let_def handleMsg_def)
        moreover have "got g r [] ?r1" using inv1 c1 w1 e1 "1.prems"(4) by (simp add: got_def)
        ultimately show ?thesis using "1.prems"(3) by auto
      qed
    qed
  next
    case (Cons b bs)
    obtain new early err r2
      where h: "handleMsg (?r1\<lparr>sr_msgChan := bs\<rparr>) n acc (Some b) = Some ((new, early, err), r2)"
      by (auto simp: handleMsg_def Let_def)
    note he = handle_entry [OF inv1 Cons lr1 h, of g]
    show ?thesis
    proof (cases early)
      case True
      then have "drain g r n acc = Some ((acc @ new, None), r2)"
        using Cons h he by (subst drain.simps) (simp add: Let_def)
      with he True got1 show ?thesis by auto
    next
      case False
      then have eq: "drain g r n acc = drain g r2 n (acc @ new)"
        using Cons h he by (subst drain.simps) (simp add: Let_def)
      from he False "1.prems"(3) have lt: "length (acc @ new) < n" by auto
      from he have g2: "reader_inv r2" "outcome_err g r2 = Some e" and cc: "content g r = new @ content g r2"
        using e1 c1 by (auto simp: got_def)
      from "1.IH" [OF refl Cons h refl refl _ False g2(1) _ lt g2(2)] he False "1.prems"(3)
      consider d r' where "drain g r2 n (acc @ new) = Some ((acc @ new @ d, None), r')"
            "length (acc @ new @ d) \<le> n" "got g r2 d r'"
        | r' where "acc @ new = []" "content g r2 = []" "drain g r2 n (acc @ new) = Some (([], Some e), r')"
            "spent r'"
        by auto
      then show ?thesis
      proof cases
        case (1 d r')
        have "got g r (new @ d) r'"
          using 1(3) he got1 [of new r2] cc unfolding got_def by simp
        with 1 eq show ?thesis by (intro disjI1 exI [of _ "new @ d"] exI [of _ r']) simp
      next
        case (2 r')
        with eq cc show ?thesis by simp
      qed
    qed
  qed
qed

lemma Reader_Read_spec:
  assumes "reader_inv r" "0 < n" "outcome_err g r = Some e"
  shows "(\<exists>d r'. Reader_Read g r n = Some ((d, None), r') \<and> length d \<le> n \<and> got g r d r' \<and> rd_work g r' < rd_work g r) \<or>
    (content g r = [] \<and> (\<exists>r'. Reader_Read g r n = Some (([], Some e), r') \<and> spent r'))"
proof (cases "sr_lastRead r = []")
  case False
  let ?r' = "r\<lparr>sr_lastRead := drop n (sr_lastRead r)\<rparr>"
  have "content g r = take n (sr_lastRead r) @ content g ?r'" by (simp add: content_def)
  moreover have "length (content g ?r') < length (content g r)"
    using False assms(2) by (simp add: content_def)
  ultimately show ?thesis
    using False assms(1) by (simp add: Reader_Read_def got_def rd_work_def pending_def reader_inv_def outcome_err_def)
next
  case True
  let ?r1 = "await g (sched_run g r)"
  note s1 = sched_run_same_stream [OF assms(1), of g]
  then have i: "reader_inv (sched_run g r)" by (simp add: same_stream_def)
  note same = same_stream_trans [OF s1 await_same_stream [OF i, of g]]
  then have inv1: "reader_inv ?r1" and lr1: "sr_lastRead ?r1 = []" and e1: "outcome_err g ?r1 = Some e"
    and c1: "content g ?r1 = content g r" and w1: "rd_work g ?r1 \<le> rd_work g r"
    using True assms(3) by (auto simp: same_stream_def rd_work_def)
  show ?thesis
  proof (cases "sr_msgChan ?r1")
    case Nil
    then have "sr_msgClosed ?r1" using await_receivable [OF i, of g] by (simp add: receivable_def)
    from handle_closed [OF inv1 Nil lr1 this e1, of n] Nil True c1 show ?thesis
      by (simp add: Reader_Read_def Let_def)
  next
    case (Cons b bs)
    obtain new early err r2
      where h: "handleMsg (?r1\<lparr>sr_msgChan := bs\<rparr>) n [] (Some b) = Some ((new, early, err), r2)"
      by (auto simp: handleMsg_def Let_def)
    note he = handle_entry [OF inv1 Cons lr1 h, of g]
    then have g2: "reader_inv r2" "outcome_err g r2 = Some e" and cc: "content g r = new @ content g r2"
      and w2: "rd_work g r2 < rd_work g r"
      using e1 c1 w1 by (auto simp: got_def)
    show ?thesis
    proof (cases early)
      case early: True
      then have "Reader_Read g r n = Some ((new, None), r2)"
        using True Cons h he by (simp add: Reader_Read_def Let_def)
      moreover have "got g r new r2" using g2 cc w2 assms(3) by (simp add: got_def)
      ultimately show ?thesis using he early w2 by auto
    next
      case early: False
      then have eq: "Reader_Read g r n = drain g r2 n new"
        using True Cons h by (simp add: Reader_Read_def Let_def)
      from he early assms(2) have "length new < n" "sr_lastRead r2 = []" by auto
      from drain_spec [OF g2(1) this(2,1) g2(2)]
      consider d r' where "drain g r2 n new = Some ((new @ d, None), r')" "length (new @ d) \<le> n" "got g r2 d r'"
        | r' where "new = []" "content g r2 = []" "drain g r2 n new = Some (([], Some e), r')" "spent r'"
        by auto
      then show ?thesis
      proof cases
        case (1 d r')
        have "got g r (new @ d) r'" "rd_work g r' < rd_work g r"
          using 1(3) cc w2 g2(2) assms(3) unfolding got_def by simp_all
        with 1 eq show ?thesis by (intro disjI1 exI [of _ "new @ d"] exI [of _ r']) simp
      next
        case (2 r')
        with eq cc show ?thesis by simp
      qed
    qed
  qed
qed

lemma Reader_Read_spent_blocks: "spent r \<Longrightarrow> Reader_Read g r n = None"
proof -
  assume sp: "spent r"
  have step: "startReads_step g r' = r'" if "spent r'" for r'
    using that by (simp add: spent_def reader_inv_def startReads_step_def)
  have steps: "(startReads_step g ^^ k) r' = r'" if "spent r'" for k r'
    using that by (induction k) (simp_all add: step)
  have run: "\<exists>ks. sched_run g r = r\<lparr>sr_sched := ks\<rparr>"
    using sp steps by (auto simp: sched_run_def spent_def reader_inv_def split: list.splits intro: exI [of _ "sr_sched r"])
  then show ?thesis
    using sp by (auto simp: Reader_Read_def Let_def await_def receivable_def spent_def handleMsg_def)
qed



section \<open>The reader and the ReadWriteCloser as io.Reader\<close>

definition s_delivers :: "('m \<Rightarrow> bytes result) \<Rightarrow> 'm sreader \<Rightarrow> bytes \<Rightarrow> bool" where
  "s_delivers g r bs \<longleftrightarrow> reader_inv r \<and> outcome_err g r = Some EOF \<and> content g r = bs"

definition rwc_delivers :: "('m \<Rightarrow> bytes result) \<Rightarrow> 'm rwc \<Rightarrow> bytes \<Rightarrow> bool" where
  "rwc_delivers g s bs \<longleftrightarrow> \<not> rw_cr s \<and> s_delivers g (rw_r s) bs"

definition rwc_work :: "('m \<Rightarrow> bytes result) \<Rightarrow> 'm rwc \<Rightarrow> nat" where
  "rwc_work g s = rd_work g (rw_r s)"

interpretation stream_reader: io_reader "Reader_Read g" "s_delivers g" "rd_work g" for g :: "'m \<Rightarrow> bytes result"
proof
  fix r :: "'m sreader" and bs and n :: nat
  assume del: "s_delivers g r bs" and n: "0 < n"
  from del have "reader_inv r" "outcome_err g r = Some EOF" by (auto simp: s_delivers_def)
  from Reader_Read_spec [OF this(1) n this(2)] del
  show "(\<exists>d r' bs'. Reader_Read g r n = Some ((d, None), r') \<and> length d \<le> n \<and> bs = d @ bs' \<and>
          s_delivers g r' bs' \<and> rd_work g r' < rd_work g r) \<or>
        (bs = [] \<and> (\<exists>r'. Reader_Read g r n = Some (([], Some EOF), r')))"
    by (auto simp: s_delivers_def got_def)
qed

interpretation rwc_reader: io_reader "rwc_Read g" "rwc_delivers g" "rwc_work g" for g :: "'m \<Rightarrow> bytes result"
proof
  fix s :: "'m rwc" and bs and n :: nat
  assume del: "rwc_delivers g s bs" and n: "0 < n"
  from del have "s_delivers g (rw_r s) bs" and cr: "\<not> rw_cr s" by (auto simp: rwc_delivers_def)
  from stream_reader.rd_contract [OF this(1) n]
  show "(\<exists>d r' bs'. rwc_Read g s n = Some ((d, None), r') \<and> length d \<le> n \<and> bs = d @ bs' \<and>
          rwc_delivers g r' bs' \<and> rwc_work g r' < rwc_work g s) \<or>
        (bs = [] \<and> (\<exists>r'. rwc_Read g s n = Some (([], Some EOF), r')))"
  proof (elim disjE exE conjE)
    fix d r' bs'
    assume "Reader_Read g (rw_r s) n = Some ((d, None), r')" "length d \<le> n" "bs = d @ bs'"
      "s_delivers g r' bs'" "rd_work g r' < rd_work g (rw_r s)"
    then show ?thesis
      using cr by (intro disjI1 exI [of _ d] exI [of _ "s\<lparr>rw_r := r'\<rparr>"] exI [of _ bs'])
        (simp add: rwc_Read_def rwc_delivers_def rwc_work_def)
  qed (simp add: rwc_Read_def cr)
qed

text \<open>Reads of a fresh reader, whatever the format and the stream's last error.\<close>

lemma reads_from_reader:
  "reader_inv r \<Longrightarrow> outcome_err g r = Some e \<Longrightarrow> \<forall>n \<in> set ns. 0 < n \<Longrightarrow>
   \<exists>ds err r'. reads (Reader_Read g) r ns = Some (ds, err, r') \<and>
     (case err of
        None \<Rightarrow> (\<exists>rest. content g r = ds @ rest \<and> content g r' = rest) \<and> reader_inv r'
      | Some e' \<Rightarrow> e' = e \<and> ds = content g r \<and> spent r')"
proof (induction ns arbitrary: r)
  case Nil
  then show ?case by simp
next
  case (Cons n ns)
  from Cons.prems have n: "0 < n" by simp
  from Reader_Read_spec [OF Cons.prems(1) n Cons.prems(2)] show ?case
  proof (elim disjE exE conjE)
    fix d r'
    assume rd: "Reader_Read g r n = Some ((d, None), r')" and got: "got g r d r'"
    then have "reader_inv r'" "outcome_err g r' = Some e" "content g r = d @ content g r'"
      using Cons.prems by (auto simp: got_def)
    with Cons.IH [OF this(1,2)] Cons.prems(3) rd show ?thesis
      by (fastforce split: option.splits)
  qed auto
qed

text \<open>
  (C4) Whatever the message format, the messages, the schedule of the receiving goroutine and the buffer
  sizes: reads never block, hand out the messages' bytes in order and without loss, and report the
  stream's error only when every byte has been handed out. (Cases: no error yet, and then the rest
  is still in the reader; or the error, and then everything was read.)
\<close>

theorem Reader_reads_in_order:
  assumes "\<forall>n \<in> set ns. 0 < n"
  shows "\<exists>ds err r. reads (Reader_Read g) (NewReader ms e sched) ns = Some (ds, err, r) \<and>
    (case err of
       None \<Rightarrow> payloads g ms = ds @ content g r
     | Some e' \<Rightarrow> e' = final_err g ms e \<and> ds = payloads g ms)"
proof -
  let ?r = "NewReader ms e sched"
  have "outcome_err g ?r = Some (final_err g ms e)" "content g ?r = payloads g ms"
    by (simp_all add: outcome_err_def content_def NewReader_def)
  with reads_from_reader [OF NewReader_inv this(1) assms] show ?thesis
    by (fastforce split: option.splits)
qed

theorem Reader_reads_in_order_witness:
  "\<exists>ds err r. reads (Reader_Read Inr) (NewReader [[1, 2, 3], [4, 5]] EOF [2, 0, 7]) [2, 2, 9] = Some (ds, err, r) \<and>
    (case err of
       None \<Rightarrow> [1, 2, 3, 4, 5] = ds @ content Inr r
     | Some e' \<Rightarrow> e' = EOF \<and> ds = [1, 2, 3, 4, 5])"
proof -
  have "\<forall>n \<in> set [2, 2, 9 :: nat]. 0 < n" by simp
  moreover have "payloads Inr [[1, 2, 3], [4, 5]] = [1, 2, 3, 4, 5]" "final_err Inr [[1, 2, 3 :: byte], [4, 5]] EOF = EOF"
    by simp_all
  ultimately show ?thesis
    using Reader_reads_in_order [of "[2, 2, 9]" Inr "[[1, 2, 3], [4, 5]]" EOF "[2, 0, 7]"] by (simp only:)
qed

text \<open>
  A reader reports its error once: after a read has returned the stream's error, every further read
  blocks forever, whatever the buffer size and the schedule, because the error channel is empty and
  nobody sends on it again. (\<open>io.Reader\<close> asks that such reads return the error again.)
\<close>

theorem Reader_blocks_after_error:
  assumes "reader_inv r" "outcome_err g r = Some e" "0 < n"
    and "Reader_Read g r n = Some ((d, Some e'), r')"
  shows "e' = e \<and> d = [] \<and> content g r = [] \<and> (\<forall>k sched. Reader_Read g (r'\<lparr>sr_sched := sched\<rparr>) k = None)"
proof -
  from Reader_Read_spec [OF assms(1,3,2)] assms(4)
  have sp: "e' = e" "d = []" "content g r = []" "spent r'" by auto
  then have "spent (r'\<lparr>sr_sched := sched\<rparr>)" for sched by (simp add: spent_def)
  with sp show ?thesis by (simp add: Reader_Read_spent_blocks)
qed

theorem Reader_blocks_after_error_witness:
  "\<exists>r'. Reader_Read Inr (NewReader [] EOF []) 4 = Some (([], Some EOF), r') \<and>
     (\<forall>k sched. Reader_Read Inr (r'\<lparr>sr_sched := sched\<rparr>) k = None)"
proof -
  let ?r = "NewReader [] EOF [] :: bytes sreader"
  obtain r' where r': "Reader_Read Inr ?r 4 = Some (([], Some EOF), r')"
    by (simp add: Reader_Read_def NewReader_def sched_run_def await_def receivable_def
        startReads_step_def handleMsg_def Let_def)
  have "outcome_err Inr ?r = Some EOF" by (simp add: outcome_err_def NewReader_def)
  from Reader_blocks_after_error [OF NewReader_inv this _ r'] r' show ?thesis by simp
qed


section \<open>Message formats\<close>

text \<open>
  The interface of a message format. \<open>message_channel\<close> is what a reader and a writer of the same
  message type need of each other; \<open>message_codec\<close> adds the message that ends the stream.
\<close>

locale message_channel =
  fixes BuildMsg :: "'m"
    and GetBytes :: "'m \<Rightarrow> bytes result"
    and SetBytes :: "'m \<Rightarrow> bytes \<Rightarrow> 'm"
  assumes get_set: "b \<noteq> [] \<Longrightarrow> GetBytes (SetBytes BuildMsg b) = Inr b"
begin

lemma payloads_sent:
  "\<forall>b \<in> set bs. b \<noteq> [] \<Longrightarrow>
   payloads GetBytes (map (SetBytes BuildMsg) bs @ ms) = concat bs @ payloads GetBytes ms \<and>
   final_err GetBytes (map (SetBytes BuildMsg) bs @ ms) e = final_err GetBytes ms e"
  by (induction bs) (auto simp: get_set)

end

definition rwc_ready :: "'m \<Rightarrow> ('m \<Rightarrow> bytes \<Rightarrow> 'm) \<Rightarrow> 'm rwc \<Rightarrow> bool" where
  "rwc_ready BuildMsg SetBytes s \<longleftrightarrow> \<not> rw_cw s \<and> sd_room (rw_w s) = None \<and>
     (\<exists>bs. (\<forall>b \<in> set bs. b \<noteq> []) \<and> sd_sent (rw_w s) = map (SetBytes BuildMsg) bs)"

definition rwc_written :: "('m \<Rightarrow> bytes result) \<Rightarrow> 'm rwc \<Rightarrow> bytes" where
  "rwc_written GetBytes s = payloads GetBytes (sd_sent (rw_w s))"

lemma rwc_Write_ok:
  "\<not> rw_cw s \<Longrightarrow> sd_room (rw_w s) = None \<Longrightarrow>
   rwc_Write B S s b = ((length b, None), s\<lparr>rw_w := (rw_w s)\<lparr>sd_sent := sd_sent (rw_w s) @ [S B b]\<rparr>\<rparr>)"
  by (simp add: rwc_Write_def swrite_def SendMsg_def)

sublocale message_channel \<subseteq> rwc_writer:
  io_writer "rwc_Write BuildMsg SetBytes" "rwc_ready BuildMsg SetBytes" "rwc_written GetBytes"
proof
  fix w and b :: bytes
  assume rdy: "rwc_ready BuildMsg SetBytes w" and b: "b \<noteq> []"
  then obtain bs where bs: "\<forall>b \<in> set bs. b \<noteq> []" "sd_sent (rw_w w) = map (SetBytes BuildMsg) bs"
      "\<not> rw_cw w" "sd_room (rw_w w) = None"
    by (auto simp: rwc_ready_def)
  let ?w' = "w\<lparr>rw_w := (rw_w w)\<lparr>sd_sent := sd_sent (rw_w w) @ [SetBytes BuildMsg b]\<rparr>\<rparr>"
  have sent: "sd_sent (rw_w ?w') = map (SetBytes BuildMsg) (bs @ [b])" using bs(2) by simp
  have ne: "\<forall>x \<in> set (bs @ [b]). x \<noteq> []" using bs(1) b by auto
  have "rwc_ready BuildMsg SetBytes ?w'"
    unfolding rwc_ready_def using bs(3,4) sent ne by (intro conjI exI [of _ "bs @ [b]"]) auto
  moreover have "rwc_written GetBytes ?w' = rwc_written GetBytes w @ b"
    using payloads_sent [OF ne, of "[]"] payloads_sent [OF bs(1), of "[]"] sent bs(2)
    by (simp add: rwc_written_def)
  ultimately show "\<exists>w'. rwc_Write BuildMsg SetBytes w b = ((length b, None), w') \<and>
      rwc_ready BuildMsg SetBytes w' \<and> rwc_written GetBytes w' = rwc_written GetBytes w @ b"
    using rwc_Write_ok [OF bs(3,4)] by blast
qed

text \<open>
  The plain \<open>Writer\<close>, which has no closing message: the messages \<open>pre\<close> were sent before it was made, and
  every later message carries bytes.
\<close>

definition sd_ready :: "('m \<Rightarrow> bytes result) \<Rightarrow> 'm list \<Rightarrow> 'm sender \<Rightarrow> bool" where
  "sd_ready GetBytes pre s \<longleftrightarrow> sd_room s = None \<and>
     (\<exists>ms. sd_sent s = pre @ ms \<and> (\<forall>m \<in> set ms. \<exists>b. GetBytes m = Inr b \<and> b \<noteq> []))"

definition sd_written :: "('m \<Rightarrow> bytes result) \<Rightarrow> 'm list \<Rightarrow> 'm sender \<Rightarrow> bytes" where
  "sd_written GetBytes pre s = payloads GetBytes (drop (length pre) (sd_sent s))"

lemma payloads_append:
  "\<forall>m \<in> set ms. \<exists>b. g m = Inr b \<and> b \<noteq> [] \<Longrightarrow>
   payloads g (ms @ ns) = payloads g ms @ payloads g ns \<and> final_err g (ms @ ns) e = final_err g ns e \<and>
   length ms \<le> length (payloads g ms)"
proof (induction ms)
  case (Cons m ms)
  then obtain x xs where "g m = Inr (x # xs)" by (metis list.exhaust list.set_intros(1))
  with Cons show ?case by auto
qed simp

sublocale message_channel \<subseteq> msg_writer:
  io_writer "swrite BuildMsg SetBytes" "sd_ready GetBytes pre" "sd_written GetBytes pre" for pre
proof
  fix w and b :: bytes
  assume rdy: "sd_ready GetBytes pre w" and b: "b \<noteq> []"
  then obtain ms where ms: "sd_sent w = pre @ ms" "\<forall>m \<in> set ms. \<exists>b. GetBytes m = Inr b \<and> b \<noteq> []" "sd_room w = None"
    by (auto simp: sd_ready_def)
  let ?w' = "w\<lparr>sd_sent := pre @ ms @ [SetBytes BuildMsg b]\<rparr>"
  have "swrite BuildMsg SetBytes w b = ((length b, None), ?w')" using ms by (simp add: swrite_def SendMsg_def)
  moreover have "sd_ready GetBytes pre ?w'"
    using ms(2,3) b by (auto simp: sd_ready_def get_set)
  moreover have "sd_written GetBytes pre ?w' = sd_written GetBytes pre w @ b"
    using payloads_append [OF ms(2)] ms(1) b by (simp add: sd_written_def get_set)
  ultimately show "\<exists>w'. swrite BuildMsg SetBytes w b = ((length b, None), w') \<and>
      sd_ready GetBytes pre w' \<and> sd_written GetBytes pre w' = sd_written GetBytes pre w @ b" by blast
qed

text \<open>
  An input copied into messages behind \<open>pre\<close>, and those messages copied to a sink at the other end: both copies end
  without an error and the sink receives the input.
\<close>

definition carries :: "('m \<Rightarrow> bytes result) \<Rightarrow> 'm list \<Rightarrow> bytes \<Rightarrow> bool" where
  "carries GetBytes ms bs \<longleftrightarrow> payloads GetBytes ms = bs \<and> final_err GetBytes ms EOF = EOF \<and> length ms \<le> length bs"

context message_channel
begin

lemma copied_up:
  assumes "sd_room s = None" "sd_sent s = pre" "in_delivers i bs" "in_work i < fuel"
  shows "\<exists>i' s' ms. io_copy fuel input_read (swrite BuildMsg SetBytes) i s = Some (None, i', s') \<and>
    sd_sent s' = pre @ ms \<and> sd_room s' = None \<and> carries GetBytes ms bs"
proof -
  have up: "io_pipe input_read in_delivers in_work (swrite BuildMsg SetBytes) (sd_ready GetBytes pre) (sd_written GetBytes pre)"
    by (intro io_pipe.intro input_reader.io_reader_axioms msg_writer.io_writer_axioms)
  have "sd_ready GetBytes pre s" "sd_written GetBytes pre s = []"
    using assms(1,2) by (simp_all add: sd_ready_def sd_written_def)
  then obtain i' s' where cp: "io_copy fuel input_read (swrite BuildMsg SetBytes) i s = Some (None, i', s')"
      "sd_ready GetBytes pre s'" "sd_written GetBytes pre s' = bs"
    using io_pipe.io_copy_all [OF up assms(3) _ assms(4), of s] by auto
  then obtain ms where ms: "sd_sent s' = pre @ ms" "\<forall>m \<in> set ms. \<exists>b. GetBytes m = Inr b \<and> b \<noteq> []"
    by (auto simp: sd_ready_def)
  have "carries GetBytes ms bs"
    using payloads_append [OF ms(2), of "[]" EOF] cp(3) ms(1) by (auto simp: sd_written_def carries_def)
  with cp(1,2) ms(1) show ?thesis unfolding sd_ready_def by blast
qed

end

interpretation stream_sink: io_pipe "Reader_Read g" "s_delivers g" "rd_work g" sink_write "\<lambda>s. snk_room s = None" snk_bytes
  for g :: "'m \<Rightarrow> bytes result"
  ..

lemma copied_down:
  assumes "carries g ms bs" "snk_room w = None" "2 * length bs < fuel"
  shows "\<exists>r w'. io_copy fuel (Reader_Read g) sink_write (NewReader ms EOF sched) w = Some (None, r, w') \<and>
    snk_bytes w' = snk_bytes w @ bs"
proof -
  have "s_delivers g (NewReader ms EOF sched) bs"
    using assms(1) by (simp add: carries_def s_delivers_def NewReader_inv) (simp add: outcome_err_def content_def NewReader_def)
  moreover have "rd_work g (NewReader ms EOF sched) < fuel"
    using assms(1,3) by (simp add: carries_def rd_work_def pending_def content_def NewReader_def)
  ultimately show ?thesis using stream_sink.io_copy_all [of g _ bs w fuel] assms(2) by blast
qed

text \<open>A sequence of writes to a \<open>ReadWriteCloser\<close>.\<close>

fun rwc_writes :: "'m \<Rightarrow> ('m \<Rightarrow> bytes \<Rightarrow> 'm) \<Rightarrow> 'm rwc \<Rightarrow> bytes list \<Rightarrow> 'm rwc" where
  "rwc_writes B S s [] = s"
| "rwc_writes B S s (b # bs) = rwc_writes B S (snd (rwc_Write B S s b)) bs"

lemma rwc_writes_sent:
  "\<not> rw_cw s \<Longrightarrow> sd_room (rw_w s) = None \<Longrightarrow>
   sd_sent (rw_w (rwc_writes B S s bs)) = sd_sent (rw_w s) @ map (S B) bs \<and>
   \<not> rw_cw (rwc_writes B S s bs) \<and> sd_room (rw_w (rwc_writes B S s bs)) = None"
  by (induction bs arbitrary: s) (simp_all add: rwc_Write_ok)

locale message_codec = message_channel BuildMsg GetBytes SetBytes
  for BuildMsg :: "'m" and GetBytes and SetBytes +
  fixes CloseMsg :: "'m"
  assumes get_close: "GetBytes CloseMsg = Inl EOF"
begin

text \<open>
  What one side writes and then closes, the other side reads and then sees the end of the stream,
  whatever was still in flight behind the closing message.
\<close>

lemma codec_roundtrip:
  assumes "\<forall>b \<in> set bs. b \<noteq> []" "\<not> rw_cw s" "sd_room (rw_w s) = None" "sd_sent (rw_w s) = []"
    and "\<forall>n \<in> set ns. 0 < n" "length bs + length (concat bs) + 1 + length tail_msgs < length ns"
  shows "\<exists>s' r. rwc_CloseWrite CloseMsg (rwc_writes BuildMsg SetBytes s bs) = (None, s') \<and>
    reads (rwc_Read GetBytes) (NewReadWriteCloser (sd_sent (rw_w s') @ tail_msgs) e sched sd) ns
      = Some (concat bs, Some EOF, r)"
proof -
  let ?t = "rwc_writes BuildMsg SetBytes s bs"
  from rwc_writes_sent [OF assms(2,3), of BuildMsg SetBytes bs] assms(4)
  have t: "sd_sent (rw_w ?t) = map (SetBytes BuildMsg) bs" "sd_room (rw_w ?t) = None" by auto
  let ?s' = "?t\<lparr>rw_cw := True, rw_w := (rw_w ?t)\<lparr>sd_sent := map (SetBytes BuildMsg) bs @ [CloseMsg]\<rparr>\<rparr>"
  have cw: "rwc_CloseWrite CloseMsg ?t = (None, ?s')"
    using t by (simp add: rwc_CloseWrite_def SendMsg_def)
  let ?ms = "map (SetBytes BuildMsg) bs @ CloseMsg # tail_msgs"
  let ?r = "NewReadWriteCloser ?ms e sched sd"
  have p: "payloads GetBytes ?ms = concat bs" "final_err GetBytes ?ms e = EOF"
    using payloads_sent [OF assms(1), of "CloseMsg # tail_msgs"] by (simp_all add: get_close)
  have "rwc_delivers GetBytes ?r (concat bs)"
    using p by (simp add: rwc_delivers_def s_delivers_def NewReadWriteCloser_def NewReader_inv)
      (simp add: outcome_err_def content_def NewReader_def)
  moreover have "rwc_work GetBytes ?r < length ns"
    using assms(6) p by (simp add: rwc_work_def rd_work_def NewReadWriteCloser_def)
      (simp add: pending_def content_def NewReader_def)
  ultimately show ?thesis
    using rwc_reader.reads_all [OF _ assms(5)] cw by fastforce
qed

end

subsection \<open>The formats of the sources\<close>

text \<open>
  \<open>forwardMsg\<close> of \<open>forward/stream.go\<close>: the payload of a \<open>ForwardMessage\<close>, closed by the operation
  \<open>CLOSE\<close>. The type assertions of these functions cannot fail here.
\<close>

definition fwd_BuildMsg :: ForwardMessage where
  "fwd_BuildMsg = zeroForwardMessage"

definition fwd_GetBytes :: "ForwardMessage \<Rightarrow> bytes result" where
  "fwd_GetBytes msg = (if fm_op msg = CLOSE then Inl EOF else Inr (fm_payload msg))"

definition fwd_SetBytes :: "ForwardMessage \<Rightarrow> bytes \<Rightarrow> ForwardMessage" where
  "fwd_SetBytes msg b = msg\<lparr>fm_payload := b\<rparr>"

definition fwd_CloseMsg :: ForwardMessage where
  "fwd_CloseMsg = zeroForwardMessage\<lparr>fm_op := CLOSE\<rparr>"

interpretation fwd: message_codec fwd_BuildMsg fwd_GetBytes fwd_SetBytes fwd_CloseMsg
  by unfold_locales
    (simp_all add: fwd_BuildMsg_def fwd_GetBytes_def fwd_SetBytes_def fwd_CloseMsg_def zeroForwardMessage_def)

text \<open>\<open>Message\<close> of \<open>mux/message.go\<close>: a message without a payload ends the stream.\<close>

definition mux_BuildMsg :: Message where
  "mux_BuildMsg = \<lparr>m_payload = []\<rparr>"

definition mux_GetBytes :: "Message \<Rightarrow> bytes result" where
  "mux_GetBytes msg = (if length (m_payload msg) = 0 then Inl EOF else Inr (m_payload msg))"

definition mux_SetBytes :: "Message \<Rightarrow> bytes \<Rightarrow> Message" where
  "mux_SetBytes msg b = msg\<lparr>m_payload := b\<rparr>"

definition mux_CloseMsg :: Message where
  "mux_CloseMsg = \<lparr>m_payload = []\<rparr>"

interpretation mux: message_codec mux_BuildMsg mux_GetBytes mux_SetBytes mux_CloseMsg
  by unfold_locales
    (simp_all add: mux_BuildMsg_def mux_GetBytes_def mux_SetBytes_def mux_CloseMsg_def)

text \<open>
  Standard input of \<open>Exec\<close>: the client's \<open>execMessageWriter\<close> and the server's \<open>execMessageReader\<close>.
  The end of the input is the end of the gRPC stream, so there is no closing message.
\<close>

definition exec_BuildMsg :: CmdProgress where
  "exec_BuildMsg = zeroCmdProgress"

definition exec_GetBytes :: "CmdProgress \<Rightarrow> bytes result" where
  "exec_GetBytes msg = Inr (cp_stdin msg)"

definition exec_SetBytes :: "CmdProgress \<Rightarrow> bytes \<Rightarrow> CmdProgress" where
  "exec_SetBytes msg b = msg\<lparr>cp_stdin := b\<rparr>"

interpretation exec: message_channel exec_BuildMsg exec_GetBytes exec_SetBytes
  by unfold_locales (simp add: exec_BuildMsg_def exec_GetBytes_def exec_SetBytes_def zeroCmdProgress_def)

text \<open>The package of \<open>Install\<close>: the client's \<open>installWriter\<close> and the server's \<open>installReader\<close>.\<close>

definition install_BuildMsg :: InstallRequest where
  "install_BuildMsg = \<lparr>ir_args = [], ir_payload = [], ir_apk_size = 0\<rparr>"

definition install_GetBytes :: "InstallRequest \<Rightarrow> bytes result" where
  "install_GetBytes msg = Inr (ir_payload msg)"

definition install_SetBytes :: "InstallRequest \<Rightarrow> bytes \<Rightarrow> InstallRequest" where
  "install_SetBytes msg b = msg\<lparr>ir_payload := b\<rparr>"

interpretation ins: message_channel install_BuildMsg install_GetBytes install_SetBytes
  by unfold_locales (simp add: install_BuildMsg_def install_GetBytes_def install_SetBytes_def)

text \<open>
  A forwarded stream: chunks written to one end of a forwarding stream and closed are read at the
  other end, in order and completely, and then \<open>EOF\<close>, under every schedule of the receiving
  goroutine, whatever the buffer sizes, and whatever messages follow the closing one.
\<close>

theorem forward_stream_roundtrip:
  assumes "\<forall>b \<in> set bs. b \<noteq> []" "sd_room snd0 = None" "sd_sent snd0 = []"
    and "\<forall>n \<in> set ns. 0 < n" "length bs + length (concat bs) + 1 + length tail_msgs < length ns"
  shows "\<exists>s r. rwc_CloseWrite fwd_CloseMsg
       (rwc_writes fwd_BuildMsg fwd_SetBytes (NewReadWriteCloser ms e0 sched0 snd0) bs) = (None, s) \<and>
    reads (rwc_Read fwd_GetBytes) (NewReadWriteCloser (sd_sent (rw_w s) @ tail_msgs) e sched sd) ns
      = Some (concat bs, Some EOF, r)"
  by (rule fwd.codec_roundtrip) (use assms in \<open>simp_all add: NewReadWriteCloser_def\<close>)

theorem forward_stream_roundtrip_witness:
  "\<exists>s r. rwc_CloseWrite fwd_CloseMsg
       (rwc_writes fwd_BuildMsg fwd_SetBytes
         (NewReadWriteCloser [] EOF [] \<lparr>sd_sent = [], sd_room = None, sd_err = EOF\<rparr>) [[1, 2], [3]]) = (None, s) \<and>
    reads (rwc_Read fwd_GetBytes)
      (NewReadWriteCloser (sd_sent (rw_w s) @ []) EOF [3, 1] \<lparr>sd_sent = [], sd_room = None, sd_err = EOF\<rparr>)
      (replicate 7 1) = Some ([1, 2, 3], Some EOF, r)"
  using forward_stream_roundtrip [of "[[1, 2], [3]]" "\<lparr>sd_sent = [], sd_room = None, sd_err = EOF\<rparr>"
      "replicate 7 1" "[]" "[]" EOF "[]" EOF "[3, 1]" "\<lparr>sd_sent = [], sd_room = None, sd_err = EOF\<rparr>"]
  by simp

text \<open>
  A multiplexed stream (\<open>mux\<close>) carries the chunks written to it in order too, but its format cannot
  tell an empty write from a close: after a write of no bytes the peer reports the end of the
  stream and never sees what is written after it, while the writing side stays open.
\<close>

theorem mux_empty_write_ends_stream:
  assumes "\<forall>b \<in> set bs. b \<noteq> []" "sd_room snd0 = None" "sd_sent snd0 = []"
    and "\<forall>n \<in> set ns. 0 < n" "length bs + length (concat bs) + 2 + length after < length ns"
  shows "\<exists>s r. rwc_writes mux_BuildMsg mux_SetBytes (NewReadWriteCloser ms e0 sched0 snd0) (bs @ [] # after) = s \<and>
    \<not> rw_cw s \<and>
    reads (rwc_Read mux_GetBytes) (NewReadWriteCloser (sd_sent (rw_w s)) e sched sd) ns
      = Some (concat bs, Some EOF, r)"
proof -
  let ?init = "NewReadWriteCloser ms e0 sched0 snd0"
  let ?s = "rwc_writes mux_BuildMsg mux_SetBytes ?init (bs @ [] # after)"
  have s0: "\<not> rw_cw ?init" "sd_room (rw_w ?init) = None" "sd_sent (rw_w ?init) = []"
    using assms(2,3) by (simp_all add: NewReadWriteCloser_def)
  have close: "mux_SetBytes mux_BuildMsg [] = mux_CloseMsg"
    by (simp add: mux_SetBytes_def mux_BuildMsg_def mux_CloseMsg_def)
  from mux.codec_roundtrip [OF assms(1) s0 assms(4), of "map (mux_SetBytes mux_BuildMsg) after" e sched sd]
    assms(5) rwc_writes_sent [OF s0(1,2), of mux_BuildMsg mux_SetBytes bs] s0(3)
  obtain r where "reads (rwc_Read mux_GetBytes) (NewReadWriteCloser
      (map (mux_SetBytes mux_BuildMsg) bs @ mux_CloseMsg # map (mux_SetBytes mux_BuildMsg) after) e sched sd) ns
      = Some (concat bs, Some EOF, r)"
    by (auto simp: rwc_CloseWrite_def SendMsg_def)
  with rwc_writes_sent [OF s0(1,2), of mux_BuildMsg mux_SetBytes "bs @ [] # after"] s0(3) close
  show ?thesis by simp
qed

theorem mux_empty_write_ends_stream_witness:
  "\<exists>s r. rwc_writes mux_BuildMsg mux_SetBytes
       (NewReadWriteCloser [] EOF [] \<lparr>sd_sent = [], sd_room = None, sd_err = EOF\<rparr>) ([[7]] @ [] # [[8, 9]]) = s \<and>
    \<not> rw_cw s \<and>
    reads (rwc_Read mux_GetBytes)
      (NewReadWriteCloser (sd_sent (rw_w s)) EOF [] \<lparr>sd_sent = [], sd_room = None, sd_err = EOF\<rparr>)
      (replicate 6 4) = Some ([7], Some EOF, r)"
  using mux_empty_write_ends_stream [of "[[7]]" "\<lparr>sd_sent = [], sd_room = None, sd_err = EOF\<rparr>" "replicate 6 4"
      "[[8, 9]]" "[]" EOF "[]" EOF "[]" "\<lparr>sd_sent = [], sd_room = None, sd_err = EOF\<rparr>"]
  by simp

end
