(* ===== verification/Forward.thy ===== *)
theory Forward
  imports QemuConn Stream
begin

text \<open>
  \<open>forward/forward.go\<close> and the forwarder of \<open>forward/stream.go\<close>. \<open>Forward(x, y)\<close> starts one copying goroutine
  per direction, waits until both are done or one has failed, and closes both ends. The control
  flow, with its wait group, its channels and the deferred calls, is the step relation \<open>fwd_step\<close>;
  what one direction does to the two ends is the function \<open>asyncCopy\<close>, whose effect is proved once
  in the locale \<open>forward_path\<close> and instantiated for the two directions of a tunnel, from a qemu
  connection into a forwarding stream and back.
\<close>


section \<open>One direction\<close>

text \<open>
  The goroutine of \<open>asyncCopy(w, r)\<close>: copy, then close the read side of \<open>r\<close> and the write side of
  \<open>w\<close>, whatever the copy returned.
\<close>

definition asyncCopy ::
    "nat \<Rightarrow> 'r reader \<Rightarrow> 'w writer \<Rightarrow> ('r \<Rightarrow> 'r) \<Rightarrow> ('w \<Rightarrow> 'w) \<Rightarrow> 'r \<Rightarrow> 'w \<Rightarrow> (go_error option \<times> 'r \<times> 'w) option"
where
  "asyncCopy fuel rd wr CloseRead CloseWrite r w =
     (case io_copy fuel rd wr r w of
        None \<Rightarrow> None
      | Some (e, r', w') \<Rightarrow> Some (e, CloseRead r', CloseWrite w'))"

text \<open>
  The forwarder of a stream: its two ends, and \<open>Stop\<close>, which closes both and ignores their errors. \<open>closeC\<close>
  closes the connection.
\<close>

record 'c StreamForwarder =
  sw_stream :: "ForwardMessage rwc"
  sw_conn :: 'c

definition NewStreamForwarder ::
    "ForwardMessage list \<Rightarrow> go_error \<Rightarrow> nat list \<Rightarrow> ForwardMessage sender \<Rightarrow> 'c \<Rightarrow> 'c StreamForwarder"
where
  "NewStreamForwarder ms fin sched w conn = \<lparr>sw_stream = NewReadWriteCloser ms fin sched w, sw_conn = conn\<rparr>"

definition StreamForwarder_Stop :: "('c \<Rightarrow> 'c) \<Rightarrow> 'c StreamForwarder \<Rightarrow> go_error option \<times> 'c StreamForwarder" where
  "StreamForwarder_Stop closeC f =
     (None, f\<lparr>sw_stream := snd (rwc_Close fwd_CloseMsg (sw_stream f)), sw_conn := closeC (sw_conn f)\<rparr>)"

text \<open>After \<open>Stop\<close> the stream is closed for both directions, whatever the peer answers.\<close>

lemma StreamForwarder_Stop_closed:
  assumes "StreamForwarder_Stop closeC f = (e, f')"
  shows "rwc_Write B S (sw_stream f') bs = ((0, Some ErrClosedWrite), sw_stream f')" and "rw_cr (sw_stream f')"
    and "sw_conn f' = closeC (sw_conn f)"
  using assms
  by (auto simp: StreamForwarder_Stop_def rwc_Close_def rwc_CloseRead_def rwc_CloseWrite_def rwc_Write_def split: prod.splits)

text \<open>
  What \<open>Forward\<close> relies on in its two ends: the contracts of reader and writer, and that after
  \<open>CloseWrite\<close> the peer reads what was written and then the end of the stream.
\<close>

locale forward_path = io_pipe rd delivers work wr ready written
  for rd :: "'r reader" and delivers work and wr :: "'w writer" and ready written +
  fixes closeW :: "'w \<Rightarrow> 'w"
    and peer_gets :: "'w \<Rightarrow> bytes \<Rightarrow> bool"
  assumes closeW_ends: "ready w \<Longrightarrow> peer_gets (closeW w) (written w)"
begin

lemma asyncCopy_delivers:
  assumes "delivers r bs" "ready w" "work r < fuel"
  shows "\<exists>r' w'. asyncCopy fuel rd wr closeR closeW r w = Some (None, r', w') \<and> peer_gets w' (written w @ bs)"
proof -
  obtain r' w' where "io_copy fuel rd wr r w = Some (None, r', w')" "ready w'" "written w' = written w @ bs"
    using io_copy_all [OF assms] by blast
  with closeW_ends [of w'] show ?thesis by (auto simp: asyncCopy_def)
qed

end

text \<open>The half-closes of a qemu connection as state changes.\<close>

definition q_closeRead :: "qconn \<Rightarrow> qconn" where
  "q_closeRead q = (case Conn_CloseRead q of Return (_, q') \<Rightarrow> q' | _ \<Rightarrow> q)"

definition q_closeWrite :: "qconn \<Rightarrow> qconn" where
  "q_closeWrite q = (case Conn_CloseWrite q of Return (_, q') \<Rightarrow> q' | _ \<Rightarrow> q)"

definition q_peer_gets :: "qconn \<Rightarrow> bytes \<Rightarrow> bool" where
  "q_peer_gets q bs \<longleftrightarrow> (\<forall>e wr. q_delivers (makeConn \<lparr>src_bytes = q_sent q, src_err = e\<rparr> wr) bs)"

text \<open>A qemu connection ready to be written to whose write side was never closed.\<close>

definition q_ready_open :: "qconn \<Rightarrow> bool" where
  "q_ready_open q \<longleftrightarrow> q_ready q \<and> \<not> qc_writesCloseChan q"

lemma Conn_Write_chan: "qc_writesCloseChan (snd (Conn_Write q b)) = qc_writesCloseChan q"
  using Write_flags [of q b] by (simp add: same_flags_def)

interpretation qemu_writer_open: io_writer Conn_Write q_ready_open q_written
proof
  fix w and b :: bytes
  assume "q_ready_open w" "b \<noteq> []" "length b \<le> copy_buf"
  then show "\<exists>w'. Conn_Write w b = ((length b, None), w') \<and> q_ready_open w' \<and> q_written w' = q_written w @ b"
    using qemu_writer.wr_contract [of w b] Conn_Write_chan [of w b] by (auto simp: q_ready_open_def)
qed

lemma q_closeWrite_ends:
  assumes "q_ready_open q"
  shows "q_peer_gets (q_closeWrite q) (q_written q)"
proof -
  from assms obtain ms where ms: "list_all msg_ok ms" "q_sent q = concat (map frame ms)" "q_open_w q"
      "\<not> qc_writesCloseChan q"
    by (auto simp: q_ready_open_def q_ready_def)
  from CloseWrite_ok [OF ms(3,4)] obtain q' where q': "Conn_CloseWrite q = Return (None, q')"
      "q_sent q' = concat (map frame ms) @ stop_frame"
    using ms(2) by auto
  have "q_written q = concat ms"
    using deframe_frames [OF ms(1), of "[]"] ms(2) by (simp add: q_written_def deframe_Nil)
  with q' ms(1) show ?thesis
    by (simp add: q_closeWrite_def q_peer_gets_def sent_delivered)
qed

text \<open>A forwarding stream, with the codec of the port forwarder.\<close>

abbreviation fwd_Read :: "ForwardMessage rwc reader" where
  "fwd_Read \<equiv> rwc_Read fwd_GetBytes"

abbreviation fwd_Write :: "ForwardMessage rwc writer" where
  "fwd_Write \<equiv> rwc_Write fwd_BuildMsg fwd_SetBytes"

definition fwd_closeWrite :: "ForwardMessage rwc \<Rightarrow> ForwardMessage rwc" where
  "fwd_closeWrite s = snd (rwc_CloseWrite fwd_CloseMsg s)"

definition fwd_peer_gets :: "ForwardMessage rwc \<Rightarrow> bytes \<Rightarrow> bool" where
  "fwd_peer_gets s bs \<longleftrightarrow>
     (\<forall>after e sched sd. rwc_delivers fwd_GetBytes (NewReadWriteCloser (sd_sent (rw_w s) @ after) e sched sd) bs)"

lemma fwd_closeWrite_ends:
  assumes "rwc_ready fwd_BuildMsg fwd_SetBytes s"
  shows "fwd_peer_gets (fwd_closeWrite s) (rwc_written fwd_GetBytes s)"
proof -
  from assms obtain bs where bs: "\<forall>b \<in> set bs. b \<noteq> []" "sd_sent (rw_w s) = map (fwd_SetBytes fwd_BuildMsg) bs"
      "sd_room (rw_w s) = None"
    by (auto simp: rwc_ready_def)
  have w: "rwc_written fwd_GetBytes s = concat bs"
    using fwd.payloads_sent [OF bs(1), of "[]"] bs(2) by (simp add: rwc_written_def)
  have "payloads fwd_GetBytes (map (fwd_SetBytes fwd_BuildMsg) bs @ fwd_CloseMsg # after) = concat bs \<and>
      final_err fwd_GetBytes (map (fwd_SetBytes fwd_BuildMsg) bs @ fwd_CloseMsg # after) e = EOF" for after e
    using fwd.payloads_sent [OF bs(1), of "fwd_CloseMsg # after"] by (simp add: fwd.get_close)
  with w bs(2,3) show ?thesis
    by (simp add: fwd_peer_gets_def fwd_closeWrite_def rwc_CloseWrite_def SendMsg_def rwc_delivers_def
        s_delivers_def NewReadWriteCloser_def NewReader_inv)
      (simp add: outcome_err_def content_def NewReader_def)
qed

interpretation tunnel_up: forward_path "\<lambda>q n. Some (Conn_Read q n)" q_delivers q_work
    fwd_Write "rwc_ready fwd_BuildMsg fwd_SetBytes" "rwc_written fwd_GetBytes" fwd_closeWrite fwd_peer_gets
  by unfold_locales (rule fwd_closeWrite_ends)

interpretation tunnel_down: forward_path fwd_Read "rwc_delivers fwd_GetBytes" "rwc_work fwd_GetBytes"
    Conn_Write q_ready_open q_written q_closeWrite q_peer_gets
  by unfold_locales (rule q_closeWrite_ends)

text \<open>
  (C8) A tunnel, end to end: messages sent over a qemu connection and closed, copied by one goroutine of
  \<open>Forward\<close> into a forwarding stream, are read at the far end of that stream as the concatenation
  of the messages and then \<open>EOF\<close>; the copy reports no error. This holds for every schedule of the
  far end's receiving goroutine, all buffer sizes of its reads, and whatever follows on the stream.
\<close>

theorem tunnel_end_to_end:
  assumes "list_all msg_ok ms" "sd_room sd0 = None" "sd_sent sd0 = []"
    and "length (concat (map frame ms) @ stop_frame) < fuel"
  shows "\<exists>q s. asyncCopy fuel (\<lambda>q n. Some (Conn_Read q n)) fwd_Write q_closeRead fwd_closeWrite
        (makeConn \<lparr>src_bytes = concat (map frame ms) @ stop_frame, src_err = e0\<rparr> wr0)
        (NewReadWriteCloser ms0 e1 sched0 sd0) = Some (None, q, s) \<and>
     (\<forall>after e sched sd ns. (\<forall>n \<in> set ns. 0 < n) \<longrightarrow>
        rwc_work fwd_GetBytes (NewReadWriteCloser (sd_sent (rw_w s) @ after) e sched sd) < length ns \<longrightarrow>
        (\<exists>r. reads fwd_Read (NewReadWriteCloser (sd_sent (rw_w s) @ after) e sched sd) ns
           = Some (concat ms, Some EOF, r)))"
proof -
  let ?q = "makeConn \<lparr>src_bytes = concat (map frame ms) @ stop_frame, src_err = e0\<rparr> wr0"
  let ?s = "NewReadWriteCloser ms0 e1 sched0 sd0"
  have del: "q_delivers ?q (concat ms)" using assms(1) by (intro sent_delivered) simp_all
  have rdy: "rwc_ready fwd_BuildMsg fwd_SetBytes ?s"
    using assms(2,3) by (simp add: rwc_ready_def NewReadWriteCloser_def)
  have empty: "rwc_written fwd_GetBytes ?s = []"
    using assms(3) by (simp add: rwc_written_def NewReadWriteCloser_def)
  have work: "q_work ?q < fuel" using assms(4) by (simp add: makeConn_def)
  from tunnel_up.asyncCopy_delivers [OF del rdy work, of q_closeRead] empty obtain q s
    where run: "asyncCopy fuel (\<lambda>q n. Some (Conn_Read q n)) fwd_Write q_closeRead fwd_closeWrite ?q ?s = Some (None, q, s)"
      and gets: "fwd_peer_gets s (concat ms)" by auto
  show ?thesis
    using run gets rwc_reader.reads_all unfolding fwd_peer_gets_def by blast
qed

theorem tunnel_end_to_end_witness:
  "\<exists>q s. asyncCopy 20 (\<lambda>q n. Some (Conn_Read q n)) fwd_Write q_closeRead fwd_closeWrite
        (makeConn \<lparr>src_bytes = concat (map frame [[1], [2, 3]]) @ stop_frame, src_err = EOF\<rparr>
           \<lparr>snk_bytes = [], snk_room = None, snk_err = EOF\<rparr>)
        (NewReadWriteCloser [] EOF [] \<lparr>sd_sent = [], sd_room = None, sd_err = EOF\<rparr>) = Some (None, q, s)"
proof -
  have h: "list_all msg_ok [[1], [2, 3]]" "length (concat (map frame [[1], [2, 3]]) @ stop_frame) < 20"
    by (simp_all add: msg_ok_def)
  show ?thesis
    using tunnel_end_to_end [OF h(1) _ _ h(2), of "\<lparr>sd_sent = [], sd_room = None, sd_err = EOF\<rparr>" EOF
        "\<lparr>snk_bytes = [], snk_room = None, snk_err = EOF\<rparr>" "[]" EOF "[]"] by auto
qed

text \<open>
  The way back: whatever a forwarding stream delivers, a goroutine of \<open>Forward\<close> copies it to a fresh
  qemu connection over a working link, reports no error, and the peer of that connection reads
  exactly these bytes and then \<open>EOF\<close>.
\<close>

theorem tunnel_back:
  assumes "rwc_delivers fwd_GetBytes s bs" "snk_room wr = None" "snk_bytes wr = []"
    and "rwc_work fwd_GetBytes s < fuel"
  shows "\<exists>s' q. asyncCopy fuel fwd_Read Conn_Write (\<lambda>s. snd (rwc_CloseRead s)) q_closeWrite s (makeConn src wr)
      = Some (None, s', q) \<and>
    (\<forall>e wr' ns. (\<forall>n \<in> set ns. 0 < n) \<longrightarrow> length (q_sent q) < length ns \<longrightarrow>
      (\<exists>r. reads (\<lambda>q n. Some (Conn_Read q n)) (makeConn \<lparr>src_bytes = q_sent q, src_err = e\<rparr> wr') ns
         = Some (bs, Some EOF, r)))"
proof -
  have ready: "q_ready_open (makeConn src wr)"
    unfolding q_ready_open_def q_ready_def
  proof (intro conjI exI [of _ "[]"])
    show "q_open_w (makeConn src wr)" using assms(2) by (rule makeConn_open_w)
  qed (simp_all add: assms(3) q_sent_def makeConn_def newWriterSize_def)
  have empty: "q_written (makeConn src wr) = []"
    using assms(3) by (simp add: q_written_def q_sent_def makeConn_def newWriterSize_def deframe_Nil)
  from tunnel_down.asyncCopy_delivers [OF assms(1) ready assms(4), of "\<lambda>s. snd (rwc_CloseRead s)"] empty
  obtain s' q where run: "asyncCopy fuel fwd_Read Conn_Write (\<lambda>s. snd (rwc_CloseRead s)) q_closeWrite s (makeConn src wr)
      = Some (None, s', q)" and gets: "q_peer_gets q bs" by auto
  have "\<exists>r. reads (\<lambda>q n. Some (Conn_Read q n)) (makeConn \<lparr>src_bytes = q_sent q, src_err = e\<rparr> wr') ns = Some (bs, Some EOF, r)"
    if "\<forall>n \<in> set ns. 0 < n" "length (q_sent q) < length ns" for e wr' and ns :: "nat list"
    using qemu_reader.reads_all [OF _ that(1)] gets that(2) unfolding q_peer_gets_def by (simp add: makeConn_def)
  with run show ?thesis by blast
qed

theorem tunnel_back_witness:
  "\<exists>s' q. asyncCopy 5 fwd_Read Conn_Write (\<lambda>s. snd (rwc_CloseRead s)) q_closeWrite
      (NewReadWriteCloser [zeroForwardMessage\<lparr>fm_payload := [5, 6]\<rparr>] EOF [] \<lparr>sd_sent = [], sd_room = None, sd_err = EOF\<rparr>)
      (makeConn \<lparr>src_bytes = [], src_err = EOF\<rparr> \<lparr>snk_bytes = [], snk_room = None, snk_err = EOF\<rparr>)
      = Some (None, s', q)"
proof -
  let ?s = "NewReadWriteCloser [zeroForwardMessage\<lparr>fm_payload := [5, 6]\<rparr>] EOF [] \<lparr>sd_sent = [], sd_room = None, sd_err = EOF\<rparr>"
  have "rwc_delivers fwd_GetBytes ?s [5, 6]" "rwc_work fwd_GetBytes ?s < 5"
    by (simp_all add: rwc_delivers_def s_delivers_def NewReadWriteCloser_def NewReader_inv rwc_work_def rd_work_def)
      (simp_all add: outcome_err_def content_def pending_def NewReader_def fwd_GetBytes_def zeroForwardMessage_def)
  from tunnel_back [OF this(1) _ _ this(2), of "\<lparr>snk_bytes = [], snk_room = None, snk_err = EOF\<rparr>"
      "\<lparr>src_bytes = [], src_err = EOF\<rparr>"] show ?thesis by auto
qed

end
