(* ===== verification/Runs.thy ===== *)
theory Runs
  imports Prelude
begin

text \<open>
  Runs of goroutines that come to an end. The goroutines of a call are a step relation; the contract below is what each of
  these relations is shown to keep: an invariant, a measure of the work that is left, and progress as long as the call has
  not returned. From it follows, once for all of them, that no run goes on for ever, how long a run can be, and that a run that
  cannot be continued has returned.
\<close>

text \<open>An \<open>errgroup\<close> keeps the first error of its goroutines.\<close>

definition keep_err :: "go_error option \<Rightarrow> go_error option \<Rightarrow> go_error option" where
  "keep_err old new = (case old of Some e \<Rightarrow> Some e | None \<Rightarrow> new)"

lemma keep_err_simps [simp]: "keep_err None x = x" "keep_err (Some e) x = Some e"
  by (simp_all add: keep_err_def)

lemma keep_err_None [simp]: "keep_err a b = None \<longleftrightarrow> a = None \<and> b = None"
  by (simp add: keep_err_def split: option.splits)

text \<open>The contract.\<close>

locale bounded_run =
  fixes step :: "'s \<Rightarrow> 's \<Rightarrow> bool"
    and inv :: "'s \<Rightarrow> bool"
    and work :: "'s \<Rightarrow> nat"
    and ended :: "'s \<Rightarrow> bool"
  assumes inv_step: "inv s \<Longrightarrow> step s t \<Longrightarrow> inv t"
    and work_step: "inv s \<Longrightarrow> step s t \<Longrightarrow> work t < work s"
    and progress: "inv s \<Longrightarrow> \<not> ended s \<Longrightarrow> \<exists>t. step s t"
begin

lemma inv_run: "step\<^sup>*\<^sup>* s t \<Longrightarrow> inv s \<Longrightarrow> inv t"
  by (induction rule: rtranclp_induct) (auto intro: inv_step)

lemma run_length: "(step ^^ n) s t \<Longrightarrow> inv s \<Longrightarrow> inv t \<and> n + work t \<le> work s"
proof (induction n arbitrary: t)
  case (Suc n)
  then obtain u where u: "(step ^^ n) s u" "step u t" by auto
  from Suc.IH [OF u(1) Suc.prems(2)] inv_step [of u t] work_step [of u t] u(2) show ?case by auto
qed simp

lemma no_infinite_run:
  assumes "inv (f 0)"
  shows "\<exists>i. \<not> step (f i) (f (Suc i))"
proof (rule ccontr)
  assume "\<nexists>i. \<not> step (f i) (f (Suc i))"
  then have all: "step (f i) (f (Suc i))" for i by blast
  have "(step ^^ n) (f 0) (f n)" for n by (induction n) (auto intro: all)
  from run_length [OF this [of "Suc (work (f 0))"] assms] show False by simp
qed

lemma stuck_ended: "inv s \<Longrightarrow> step\<^sup>*\<^sup>* s t \<Longrightarrow> \<nexists>u. step t u \<Longrightarrow> ended t"
  using inv_run progress by blast

lemma reaches_end: "inv s \<Longrightarrow> \<exists>t. step\<^sup>*\<^sup>* s t \<and> inv t \<and> ended t"
proof (induction "work s" arbitrary: s rule: less_induct)
  case less
  show ?case
  proof (cases "ended s")
    case False
    then obtain t where t: "step s t" using progress less.prems by blast
    from less.hyps [OF work_step [OF less.prems t] inv_step [OF less.prems t]] t show ?thesis
      by (meson converse_rtranclp_into_rtranclp)
  qed (use less.prems in blast)
qed

end

end
