(* ===== verification/ForwardCtl.thy ===== *)
theory ForwardCtl
  imports Runs
begin

text \<open>
  The control flow of \<open>Forward\<close> in \<open>forward/forward.go\<close>: two copying goroutines, the wait group, the error
  channel of capacity two, the goroutine that waits for the group and closes \<open>doneCh\<close>, and the
  \<open>select\<close> of the calling goroutine with the deferred closes of both ends. The result of each
  \<open>io.Copy\<close> is up to the environment. Shown for every interleaving: which results \<open>Forward\<close> can
  return, that no goroutine ever blocks on the error channel and the wait group never goes
  negative, that the call can always make progress, and that a failed direction leaves the waiting
  goroutine blocked for good.
\<close>

datatype side = FromY | FromX

datatype dstate = Copying | Finished | Failed go_error

text \<open>
  \<open>fw_main\<close> is \<open>None\<close> while \<open>Forward\<close> waits, then the error it returns (\<open>Some None\<close> is nil);
  \<open>fw_deferred d\<close> says that the goroutine of a direction ran its deferred half-closes.
\<close>

record fwd =
  fw_dir :: "side \<Rightarrow> dstate"
  fw_deferred :: "side \<Rightarrow> bool"
  fw_wg :: int
  fw_errCh :: "go_error list"
  fw_doneCh :: bool
  fw_main :: "go_error option option"
  fw_xCloses :: nat
  fw_yCloses :: nat

definition fwd_init :: fwd where
  "fwd_init =
     \<lparr>fw_dir = (\<lambda>_. Copying), fw_deferred = (\<lambda>_. False), fw_wg = 2, fw_errCh = [], fw_doneCh = False,
      fw_main = None, fw_xCloses = 0, fw_yCloses = 0\<rparr>"

definition errCap :: nat where
  "errCap = 2"

inductive fwd_step :: "fwd \<Rightarrow> fwd \<Rightarrow> bool" where
  copy_done: "fw_dir s d = Copying \<Longrightarrow>
    fwd_step s (s\<lparr>fw_dir := (fw_dir s)(d := Finished), fw_wg := fw_wg s - 1\<rparr>)"
| copy_err: "fw_dir s d = Copying \<Longrightarrow> length (fw_errCh s) < errCap \<Longrightarrow>
    fwd_step s (s\<lparr>fw_dir := (fw_dir s)(d := Failed e), fw_errCh := fw_errCh s @ [e]\<rparr>)"
| run_deferred: "fw_dir s d \<noteq> Copying \<Longrightarrow> \<not> fw_deferred s d \<Longrightarrow>
    fwd_step s (s\<lparr>fw_deferred := (fw_deferred s)(d := True)\<rparr>)"
| wait_done: "fw_wg s = 0 \<Longrightarrow> \<not> fw_doneCh s \<Longrightarrow> fwd_step s (s\<lparr>fw_doneCh := True\<rparr>)"
| main_done: "fw_main s = None \<Longrightarrow> fw_doneCh s \<Longrightarrow>
    fwd_step s (s\<lparr>fw_main := Some None, fw_yCloses := Suc (fw_yCloses s), fw_xCloses := Suc (fw_xCloses s)\<rparr>)"
| main_err: "fw_main s = None \<Longrightarrow> fw_errCh s = e # es \<Longrightarrow>
    fwd_step s (s\<lparr>fw_main := Some (Some e), fw_errCh := es,
      fw_yCloses := Suc (fw_yCloses s), fw_xCloses := Suc (fw_xCloses s)\<rparr>)"

inductive fwd_reach :: "fwd \<Rightarrow> bool" where
  init: "fwd_reach fwd_init"
| step: "fwd_reach s \<Longrightarrow> fwd_step s t \<Longrightarrow> fwd_reach t"

section \<open>The invariant\<close>

definition copying :: "fwd \<Rightarrow> nat" where
  "copying s = (if fw_dir s FromX = Copying then 1 else 0) + (if fw_dir s FromY = Copying then 1 else 0)"

definition finished :: "fwd \<Rightarrow> int" where
  "finished s = (if fw_dir s FromX = Finished then 1 else 0) + (if fw_dir s FromY = Finished then 1 else 0)"

lemma side_ex: "(\<exists>d. P d) \<longleftrightarrow> P FromX \<or> P FromY"
  by (metis side.exhaust)

definition counts_ok :: "fwd \<Rightarrow> bool" where
  "counts_ok s \<longleftrightarrow> fw_wg s = 2 - finished s \<and> length (fw_errCh s) + copying s \<le> errCap \<and>
     (fw_doneCh s \<longrightarrow> fw_wg s = 0)"

definition errors_ok :: "fwd \<Rightarrow> bool" where
  "errors_ok s \<longleftrightarrow> (\<forall>e \<in> set (fw_errCh s). \<exists>d. fw_dir s d = Failed e) \<and>
     (fw_main s = None \<longrightarrow> (\<forall>d e. fw_dir s d = Failed e \<longrightarrow> e \<in> set (fw_errCh s)))"

definition result_ok :: "fwd \<Rightarrow> bool" where
  "result_ok s \<longleftrightarrow> (fw_main s = Some None \<longrightarrow> fw_doneCh s) \<and>
     (\<forall>e. fw_main s = Some (Some e) \<longrightarrow> (\<exists>d. fw_dir s d = Failed e)) \<and>
     fw_xCloses s = (if fw_main s = None then 0 else 1) \<and> fw_yCloses s = fw_xCloses s"

definition fwd_inv :: "fwd \<Rightarrow> bool" where
  "fwd_inv s \<longleftrightarrow> counts_ok s \<and> errors_ok s \<and> result_ok s"

lemmas fwd_inv_defs = fwd_inv_def counts_ok_def errors_ok_def result_ok_def

text \<open>A direction that stops copying.\<close>

lemma copying_stop:
  "fw_dir s d = Copying \<Longrightarrow> v \<noteq> Copying \<Longrightarrow>
   copying s = Suc (copying (s\<lparr>fw_dir := (fw_dir s)(d := v)\<rparr>))"
  by (cases d) (auto simp: copying_def)

lemma finished_stop:
  "fw_dir s d = Copying \<Longrightarrow>
   finished (s\<lparr>fw_dir := (fw_dir s)(d := v)\<rparr>) = finished s + (if v = Finished then 1 else 0)"
  by (cases d) (auto simp: finished_def)

lemma counts_frame [simp]:
  "copying (s\<lparr>fw_wg := w\<rparr>) = copying s" "finished (s\<lparr>fw_wg := w\<rparr>) = finished s"
  "copying (s\<lparr>fw_errCh := es\<rparr>) = copying s" "finished (s\<lparr>fw_errCh := es\<rparr>) = finished s"
  "copying (s\<lparr>fw_deferred := f\<rparr>) = copying s" "finished (s\<lparr>fw_deferred := f\<rparr>) = finished s"
  "copying (s\<lparr>fw_doneCh := c\<rparr>) = copying s" "finished (s\<lparr>fw_doneCh := c\<rparr>) = finished s"
  "copying (s\<lparr>fw_main := m\<rparr>) = copying s" "finished (s\<lparr>fw_main := m\<rparr>) = finished s"
  "copying (s\<lparr>fw_xCloses := n\<rparr>) = copying s" "finished (s\<lparr>fw_xCloses := n\<rparr>) = finished s"
  "copying (s\<lparr>fw_yCloses := n\<rparr>) = copying s" "finished (s\<lparr>fw_yCloses := n\<rparr>) = finished s"
  by (simp_all add: copying_def finished_def)

lemma fwd_init_inv: "fwd_inv fwd_init"
  by (simp add: fwd_inv_defs fwd_init_def copying_def finished_def errCap_def)

lemma wg_copying: "counts_ok s \<Longrightarrow> fw_dir s d = Copying \<Longrightarrow> 0 < fw_wg s"
  by (cases d) (auto simp: counts_ok_def finished_def split: if_splits)

lemma fwd_step_counts: "fwd_step s t \<Longrightarrow> counts_ok s \<Longrightarrow> counts_ok t"
proof (induction rule: fwd_step.induct)
  case (copy_done s d)
  then show ?case
    using copying_stop [of s d Finished] finished_stop [of s d Finished] wg_copying [of s d]
    by (auto simp: counts_ok_def)
next
  case (copy_err s d e)
  then show ?case
    using copying_stop [of s d "Failed e"] finished_stop [of s d "Failed e"] wg_copying [of s d]
    by (auto simp: counts_ok_def)
qed (auto simp: counts_ok_def)

lemma fwd_step_errors: "fwd_step s t \<Longrightarrow> errors_ok s \<Longrightarrow> errors_ok t"
proof (induction rule: fwd_step.induct)
  case (copy_done s d)
  then show ?case by (simp add: errors_ok_def) (metis dstate.distinct(1,3,5))
next
  case (copy_err s d e)
  then show ?case by (simp add: errors_ok_def) (metis dstate.distinct(3) dstate.inject)
qed (auto simp: errors_ok_def)

lemma fwd_step_result: "fwd_step s t \<Longrightarrow> counts_ok s \<Longrightarrow> errors_ok s \<Longrightarrow> result_ok s \<Longrightarrow> result_ok t"
proof (induction rule: fwd_step.induct)
  case (copy_done s d)
  then show ?case by (simp add: result_ok_def) (metis dstate.distinct(3))
next
  case (copy_err s d e)
  then show ?case by (simp add: result_ok_def) (metis dstate.distinct(3))
qed (auto simp: result_ok_def errors_ok_def)

lemma fwd_step_inv: "fwd_step s t \<Longrightarrow> fwd_inv s \<Longrightarrow> fwd_inv t"
  using fwd_step_counts fwd_step_errors fwd_step_result unfolding fwd_inv_def by blast

lemma fwd_reach_inv: "fwd_reach s \<Longrightarrow> fwd_inv s"
  by (induction rule: fwd_reach.induct) (auto intro: fwd_init_inv fwd_step_inv)

lemma wg_zero: "fwd_inv s \<Longrightarrow> fw_wg s = 0 \<Longrightarrow> fw_dir s d = Finished"
  by (cases d) (auto simp: fwd_inv_def counts_ok_def finished_def split: if_splits)

lemma errCh_room:
  assumes "fwd_inv s" "fw_dir s d = Copying"
  shows "length (fw_errCh s) < errCap"
proof -
  have "0 < copying s" using assms(2) by (cases d) (simp_all add: copying_def)
  moreover have "length (fw_errCh s) + copying s \<le> errCap" using assms(1) unfolding fwd_inv_defs by blast
  ultimately show ?thesis by linarith
qed

lemma all_finished:
  assumes "fwd_inv s" "fw_main s = None" "copying s = 0" "fw_errCh s = []"
  shows "fw_dir s d = Finished"
proof -
  have "fw_dir s d \<noteq> Copying" using assms(3) by (cases d) (auto simp: copying_def split: if_splits)
  moreover have "fw_dir s d \<noteq> Failed e" for e
  proof
    assume "fw_dir s d = Failed e"
    with assms(1,2) have "e \<in> set (fw_errCh s)" unfolding fwd_inv_defs by blast
    with assms(4) show False by simp
  qed
  ultimately show ?thesis by (cases "fw_dir s d") auto
qed

text \<open>
  Once no goroutine copies any more, at most one step of the waiting goroutine and one of the caller are left; before that, a copy
  can end.
\<close>

lemma fwd_last_steps:
  assumes inv: "fwd_inv s" and main: "fw_main s = None" and none: "copying s = 0"
  shows "\<exists>t u. (t = s \<or> fwd_step s t) \<and> fwd_step t u \<and> fw_main u \<noteq> None"
proof (cases "fw_errCh s")
  case (Cons e es)
  then show ?thesis using main_err [OF main Cons] by fastforce
next
  case Nil
  note fin = all_finished [OF inv main none Nil]
  have "fw_wg s = 2 - finished s" using inv unfolding fwd_inv_defs by blast
  then have wg0: "fw_wg s = 0" by (simp add: fin finished_def)
  show ?thesis
  proof (cases "fw_doneCh s")
    case True
    then show ?thesis using main_done [OF main True] by fastforce
  next
    case False
    let ?t = "s\<lparr>fw_doneCh := True\<rparr>"
    have "fwd_step s ?t" by (rule wait_done [OF wg0 False])
    moreover have "fwd_step ?t (?t\<lparr>fw_main := Some None, fw_yCloses := Suc (fw_yCloses ?t), fw_xCloses := Suc (fw_xCloses ?t)\<rparr>)"
      using main by (intro main_done) simp_all
    ultimately show ?thesis by fastforce
  qed
qed

lemma fwd_can_step:
  assumes "fwd_inv s" "fw_main s = None"
  shows "\<exists>t. fwd_step s t"
proof (cases "copying s = 0")
  case True
  with fwd_last_steps [OF assms] show ?thesis by blast
next
  case False
  then obtain d where "fw_dir s d = Copying" by (auto simp: copying_def split: if_splits)
  then show ?thesis using copy_done by blast
qed

text \<open>The steps that are left: the copies, their deferred calls, the waiting goroutine and the caller.\<close>

definition fwd_work :: "fwd \<Rightarrow> nat" where
  "fwd_work s = copying s + (if fw_deferred s FromX then 0 else 1) + (if fw_deferred s FromY then 0 else 1) +
     (if fw_doneCh s then 0 else 1) + (if fw_main s = None then 1 else 0)"

lemma fwd_step_work: "fwd_step s t \<Longrightarrow> fwd_work t < fwd_work s"
proof (induction rule: fwd_step.induct)
  case (copy_done s d)
  then show ?case using copying_stop [of s d Finished] by (simp add: fwd_work_def)
next
  case (copy_err s d e)
  then show ?case using copying_stop [of s d "Failed e"] by (simp add: fwd_work_def)
next
  case (run_deferred s d)
  then show ?case by (cases d) (simp_all add: fwd_work_def)
qed (simp_all add: fwd_work_def)

interpretation forward_runs: bounded_run fwd_step fwd_inv fwd_work "\<lambda>s. fw_main s \<noteq> None"
  by unfold_locales (auto intro: fwd_step_inv fwd_step_work fwd_can_step)

section \<open>Properties\<close>

text \<open>
  (C9) In every interleaving: \<open>Forward\<close> returns nil only when both directions copied to the end of their
  streams, returns an error only if a direction failed with that error, and has closed each end
  exactly once when it returns and never before.
\<close>

theorem Forward_result:
  assumes "fwd_reach s"
  shows "(fw_main s = Some None \<longrightarrow> fw_dir s FromX = Finished \<and> fw_dir s FromY = Finished) \<and>
    (\<forall>e. fw_main s = Some (Some e) \<longrightarrow> fw_dir s FromX = Failed e \<or> fw_dir s FromY = Failed e) \<and>
    fw_xCloses s = (if fw_main s = None then 0 else 1) \<and> fw_yCloses s = (if fw_main s = None then 0 else 1)"
proof -
  have inv: "fwd_inv s" using assms by (rule fwd_reach_inv)
  moreover have "fw_main s = Some None \<Longrightarrow> fw_wg s = 0" using inv unfolding fwd_inv_defs by blast
  ultimately show ?thesis
    using wg_zero [OF inv] by (auto simp: fwd_inv_def result_ok_def side_ex)
qed

text \<open>A run in which both directions finish.\<close>

lemma example_run:
  "fwd_reach (fwd_init\<lparr>fw_dir := (\<lambda>_. Finished), fw_wg := 0, fw_doneCh := True, fw_main := Some None,
     fw_xCloses := 1, fw_yCloses := 1\<rparr>)"
proof -
  have 1: "fwd_reach (fwd_init\<lparr>fw_dir := (fw_dir fwd_init)(FromX := Finished), fw_wg := 1\<rparr>)" (is "fwd_reach ?a")
    using fwd_reach.step [OF fwd_reach.init copy_done [of fwd_init FromX]] by (simp add: fwd_init_def)
  have all: "(fw_dir ?a)(FromY := Finished) = (\<lambda>_. Finished)"
    by (auto simp: fun_eq_iff fwd_init_def) (metis side.exhaust)
  have 2: "fwd_reach (?a\<lparr>fw_dir := (\<lambda>_. Finished), fw_wg := 0\<rparr>)" (is "fwd_reach ?b")
    using fwd_reach.step [OF 1 copy_done [of ?a FromY]] all by (simp add: fwd_init_def)
  have 3: "fwd_reach (?b\<lparr>fw_doneCh := True\<rparr>)" (is "fwd_reach ?c")
    using fwd_reach.step [OF 2 wait_done [of ?b]] by (simp add: fwd_init_def)
  have "fwd_reach (?c\<lparr>fw_main := Some None, fw_yCloses := Suc (fw_yCloses ?c), fw_xCloses := Suc (fw_xCloses ?c)\<rparr>)"
    using fwd_reach.step [OF 3 main_done [of ?c]] by (simp add: fwd_init_def)
  then show ?thesis by (simp add: fwd_init_def)
qed

theorem Forward_result_witness:
  "fw_dir (fwd_init\<lparr>fw_dir := (\<lambda>_. Finished), fw_wg := 0, fw_doneCh := True, fw_main := Some None,
     fw_xCloses := 1, fw_yCloses := 1\<rparr>) FromX = Finished"
  using Forward_result [OF example_run] by simp

text \<open>
  (C10) \<open>Forward\<close> never hangs on its own bookkeeping: a copying goroutine always finds room on the error channel; the wait
  group's counter never goes below zero; as long as the call has not returned, some goroutine of it can take a step; once no
  goroutine is copying any more, the call returns after at most one step of the waiting goroutine and one of its own. So a
  run of the goroutines has at most six steps, and one that cannot be continued has returned.
\<close>

theorem Forward_progress:
  assumes "fwd_reach s"
  shows "0 \<le> fw_wg s \<and> (\<forall>d. fw_dir s d = Copying \<longrightarrow> length (fw_errCh s) < errCap) \<and>
    (fw_main s = None \<and> copying s = 0 \<longrightarrow>
      (\<exists>t u. (t = s \<or> fwd_step s t) \<and> fwd_step t u \<and> fw_main u \<noteq> None)) \<and>
    (\<forall>n t. (fwd_step ^^ n) s t \<longrightarrow> n \<le> 6) \<and>
    (\<forall>t. fwd_step\<^sup>*\<^sup>* s t \<and> (\<nexists>u. fwd_step t u) \<longrightarrow> fw_main t \<noteq> None)"
proof -
  have inv: "fwd_inv s" using assms by (rule fwd_reach_inv)
  have "fwd_work s \<le> 6" by (auto simp: fwd_work_def copying_def)
  with forward_runs.run_length [OF _ inv] have "\<forall>n t. (fwd_step ^^ n) s t \<longrightarrow> n \<le> 6" by fastforce
  moreover have "0 \<le> fw_wg s" using inv by (auto simp: fwd_inv_def counts_ok_def finished_def)
  ultimately show ?thesis
    using errCh_room [OF inv] fwd_last_steps [OF inv] forward_runs.stuck_ended [OF inv] by blast
qed

theorem Forward_progress_witness: "\<exists>t. fwd_step fwd_init t"
proof -
  have "fw_main fwd_init = None" by (simp add: fwd_init_def)
  with Forward_progress [OF fwd_reach.init] show ?thesis by blast
qed

lemma fwd_step_failed: "fwd_step s t \<Longrightarrow> fw_dir s d = Failed e \<Longrightarrow> fw_dir t d = Failed e"
  by (induction rule: fwd_step.induct) auto

text \<open>
  A failed direction leaks a goroutine: it never calls \<open>wg.Done\<close>, so from then on, in every
  continuation, the group's counter stays above zero, \<open>doneCh\<close> is never closed, and the goroutine
  that waits for the group never ends, even after \<open>Forward\<close> has returned.
\<close>

theorem Forward_error_leaks_waiter:
  assumes "fwd_reach s" "fw_dir s d = Failed e" "fwd_step\<^sup>*\<^sup>* s t"
  shows "0 < fw_wg t \<and> \<not> fw_doneCh t"
proof -
  from assms(3) have "fwd_reach t \<and> fw_dir t d = Failed e"
    by (induction rule: rtranclp_induct) (auto simp: assms intro: fwd_reach.step fwd_step_failed)
  then have inv: "fwd_inv t" and f: "fw_dir t d = Failed e" by (auto intro: fwd_reach_inv)
  then have "fw_wg t \<noteq> 0" using wg_zero [OF inv] by force
  moreover have "0 \<le> fw_wg t" using inv by (auto simp: fwd_inv_def counts_ok_def finished_def)
  ultimately show ?thesis using inv by (auto simp: fwd_inv_def counts_ok_def)
qed

theorem Forward_error_leaks_waiter_witness:
  "let s = fwd_init\<lparr>fw_dir := (fw_dir fwd_init)(FromX := Failed EOF), fw_errCh := [EOF]\<rparr>
   in fwd_reach s \<and> 0 < fw_wg s \<and> \<not> fw_doneCh s"
proof -
  let ?s = "fwd_init\<lparr>fw_dir := (fw_dir fwd_init)(FromX := Failed EOF), fw_errCh := [EOF]\<rparr>"
  have r: "fwd_reach ?s"
    using fwd_reach.step [OF fwd_reach.init copy_err [of fwd_init FromX EOF]] by (simp add: fwd_init_def errCap_def)
  have "0 < fw_wg ?s \<and> \<not> fw_doneCh ?s"
    by (rule Forward_error_leaks_waiter [OF r, of FromX EOF]) simp_all
  with r show ?thesis by (simp add: Let_def)
qed

end
