(* ===== verification/RemoteExec.thy ===== *)
theory RemoteExec
  imports Proto
begin

text \<open>
  Remote execution: \<open>Exec\<close> and \<open>exitCode\<close> of \<open>server/server.go\<close>, which runs a process on the device and
  merges its two output streams into one stream of messages, and \<open>Exec\<close> of \<open>client/client.go\<close>, which
  separates them again and reports the exit code.

  The process is outside the model: \<open>exec_env\<close> holds what it prints, in the chunks \<open>io.Copy\<close> reads, and how
  starting it and waiting for it end. The choices of \<open>select\<close> between the two channels are a schedule.
  A call that never returns is \<open>None\<close>. Standard input and the goroutines of the client are in the theory
  \<open>ExecInput\<close>.
\<close>

section \<open>The server\<close>

definition exitCode :: "go_error option \<Rightarrow> int \<times> go_error option" where
  "exitCode err =
     (case err of
        None \<Rightarrow> (0, None)
      | Some (ExitError n) \<Rightarrow> (n, None)
      | Some e \<Rightarrow> (0, Some e))"

record exec_env =
  xe_stdoutPipe :: "go_error option"
  xe_stderrPipe :: "go_error option"
  xe_stdinPipe :: "go_error option"
  xe_start :: "string \<Rightarrow> string list \<Rightarrow> string \<Rightarrow> go_error option"
  xe_out :: "bytes list"
  xe_err :: "bytes list"
  xe_outErr :: "go_error option"
  xe_errErr :: "go_error option"
  xe_wait :: "go_error option"

definition stdout_msg :: "bytes \<Rightarrow> CmdProgress" where
  "stdout_msg b = zeroCmdProgress\<lparr>cp_stdout := b\<rparr>"

definition stderr_msg :: "bytes \<Rightarrow> CmdProgress" where
  "stderr_msg b = zeroCmdProgress\<lparr>cp_stderr := b\<rparr>"

definition exit_msg :: "int \<Rightarrow> CmdProgress" where
  "exit_msg ec = zeroCmdProgress\<lparr>cp_exit_code := word_of_int ec\<rparr>"

text \<open>
  The merging loop. \<open>oo\<close> and \<open>eo\<close>: the channels are not known to be closed. A schedule entry picks the
  channel that \<open>select\<close> receives from, \<open>True\<close> for standard output; a channel whose chunks are all received
  is closed, and receiving from it sends no message. \<open>sendErr k\<close> is the outcome of the \<open>k\<close>-th send. The
  result: the error, the messages sent, and the chunks that were not received; \<open>None\<close> when the
  schedule ends before the loop does.
\<close>

fun exec_mux ::
    "bool list \<Rightarrow> (nat \<Rightarrow> go_error option) \<Rightarrow> nat \<Rightarrow> bool \<Rightarrow> bool \<Rightarrow> bytes list \<Rightarrow> bytes list \<Rightarrow>
     (go_error option \<times> CmdProgress list \<times> bytes list \<times> bytes list) option"
where
  "exec_mux sch sendErr k oo eo os es =
     (if \<not> oo \<and> \<not> eo then Some (None, [], os, es)
      else case sch of
        [] \<Rightarrow> None
      | pick # sch' \<Rightarrow>
          if pick then
            (case os of
               [] \<Rightarrow> exec_mux sch' sendErr k False eo [] es
             | b # os' \<Rightarrow>
                 (case sendErr k of
                    Some e \<Rightarrow> Some (Some e, [], os', es)
                  | None \<Rightarrow> map_option (\<lambda>(r, ms, rest). (r, stdout_msg b # ms, rest))
                              (exec_mux sch' sendErr (Suc k) True eo os' es)))
          else
            (case es of
               [] \<Rightarrow> exec_mux sch' sendErr k oo False os []
             | b # es' \<Rightarrow>
                 (case sendErr k of
                    Some e \<Rightarrow> Some (Some e, [], os, es')
                  | None \<Rightarrow> map_option (\<lambda>(r, ms, rest). (r, stderr_msg b # ms, rest))
                              (exec_mux sch' sendErr (Suc k) oo True os es'))))"

declare exec_mux.simps [simp del]

text \<open>
  The two copying goroutines end when the loop received all their chunks, or all but the one that
  fits the channel; otherwise they block for ever, and \<open>eg.Wait\<close> with them.
\<close>

definition copies_end :: "bytes list \<Rightarrow> bytes list \<Rightarrow> bool" where
  "copies_end os es \<longleftrightarrow> length os \<le> 1 \<and> length es \<le> 1"

text \<open>
  \<open>Exec\<close>: the messages sent and the error of the call. A first message without a command is a
  dereference of a nil pointer. Of several errors of the group the order of the goroutines decides
  which one is returned; here it is the order of the source.
\<close>

definition exec_dir :: "Cmd \<Rightarrow> string" where
  "exec_dir cmd = (if c_dir cmd = [] then ''/'' else c_dir cmd)"

definition server_Exec ::
    "exec_env \<Rightarrow> bool list \<Rightarrow> (nat \<Rightarrow> go_error option) \<Rightarrow> CmdProgress result \<Rightarrow> (CmdProgress list \<times> go_error option) outcome option"
where
  "server_Exec env sch sendErr recv =
     (case recv of
        Inl e \<Rightarrow> Some (Return ([], Some e))
      | Inr cmdMsg \<Rightarrow>
          (case cp_cmd cmdMsg of
             None \<Rightarrow> Some Panic
           | Some cmd \<Rightarrow>
               (case first_err [xe_stdoutPipe env, xe_stderrPipe env,
                                if c_pipeIn cmd then xe_stdinPipe env else None,
                                xe_start env (c_path cmd) (c_args cmd) (exec_dir cmd)] of
                  Some e \<Rightarrow> Some (Return ([], Some e))
                | None \<Rightarrow>
                    (case exec_mux sch sendErr 0 True True (xe_out env) (xe_err env) of
                       None \<Rightarrow> None
                     | Some (muxErr, ms, os, es) \<Rightarrow>
                         if \<not> copies_end os es then None
                         else case first_err [xe_outErr env, xe_errErr env, muxErr] of
                           Some e \<Rightarrow> Some (Return (ms, Some e))
                         | None \<Rightarrow>
                             (case exitCode (xe_wait env) of
                                (_, Some e) \<Rightarrow> Some (Return (ms, Some e))
                              | (ec, None) \<Rightarrow>
                                  (case sendErr (length ms) of
                                     Some e \<Rightarrow> Some (Return (ms, Some e))
                                   | None \<Rightarrow> Some (Return (ms @ [exit_msg ec], None)))))))) "


section \<open>The client\<close>

text \<open>
  The first message. \<open>stdin\<close>: whether the caller gave an input.
\<close>

definition exec_request :: "string \<Rightarrow> string list \<Rightarrow> bool \<Rightarrow> CmdProgress" where
  "exec_request cmd args stdin =
     zeroCmdProgress\<lparr>cp_cmd := Some \<lparr>c_path = cmd, c_args = args, c_dir = [], c_pipeIn = stdin, c_env = []\<rparr>\<rparr>"

text \<open>
  The receiving loop. A writer is absent (\<open>nil\<close>) or accepts or refuses a chunk given what it holds. An
  empty field arrives as \<open>nil\<close> and is not written. The state is what was written, and the last message.
\<close>

type_synonym client_writer = "(bytes \<Rightarrow> bytes \<Rightarrow> go_error option) option"

definition client_write :: "client_writer \<Rightarrow> bytes \<Rightarrow> bytes \<Rightarrow> bytes result" where
  "client_write w old b =
     (if b = [] then Inr old
      else case w of
        None \<Rightarrow> Inr old
      | Some f \<Rightarrow> (case f old b of Some e \<Rightarrow> Inl e | None \<Rightarrow> Inr (old @ b)))"

fun exec_recv ::
    "client_writer \<Rightarrow> client_writer \<Rightarrow> CmdProgress list \<Rightarrow> go_error \<Rightarrow> bytes \<Rightarrow> bytes \<Rightarrow> CmdProgress option \<Rightarrow>
     (bytes \<times> bytes \<times> CmdProgress option) result"
where
  "exec_recv wo we [] fin o1 e1 lst = (if fin = EOF then Inr (o1, e1, lst) else Inl fin)"
| "exec_recv wo we (m # ms) fin o1 e1 lst =
     (case client_write wo o1 (cp_stdout m) of
        Inl e \<Rightarrow> Inl e
      | Inr o2 \<Rightarrow>
          (case client_write we e1 (cp_stderr m) of
             Inl e \<Rightarrow> Inl e
           | Inr e2 \<Rightarrow> exec_recv wo we ms fin o2 e2 (Some m)))"

text \<open>
  \<open>Exec\<close> after the stream was opened and the request sent. \<open>stdinErr\<close>: the error of the group that copies
  the input. A stream that ends without a message leaves \<open>last\<close> nil.
\<close>

definition client_Exec ::
    "client_writer \<Rightarrow> client_writer \<Rightarrow> go_error option \<Rightarrow> CmdProgress list \<Rightarrow> go_error \<Rightarrow> (bytes \<times> bytes \<times> int) outcome"
where
  "client_Exec wo we stdinErr ms fin =
     (case exec_recv wo we ms fin [] [] None of
        Inl e \<Rightarrow> Fail e
      | Inr (o1, e1, lst) \<Rightarrow>
          (case stdinErr of
             Some e \<Rightarrow> Fail e
           | None \<Rightarrow>
               (case lst of
                  None \<Rightarrow> Panic
                | Some m \<Rightarrow> Return (o1, e1, uint (cp_exit_code m)))))"


section \<open>The merged stream\<close>

lemma exec_mux_done [simp]: "exec_mux sch se k False False os es = Some (None, [], os, es)"
  by (simp add: exec_mux.simps)

lemma exec_mux_steps [simp]:
  "oo \<or> eo \<Longrightarrow> exec_mux [] se k oo eo os es = None"
  "oo \<or> eo \<Longrightarrow> exec_mux (True # sch) se k oo eo [] es = exec_mux sch se k False eo [] es"
  "oo \<or> eo \<Longrightarrow> exec_mux (False # sch) se k oo eo os [] = exec_mux sch se k oo False os []"
  "oo \<or> eo \<Longrightarrow> exec_mux (True # sch) se k oo eo (b # os) es =
     (case se k of Some e \<Rightarrow> Some (Some e, [], os, es)
      | None \<Rightarrow> map_option (\<lambda>(r, ms, rest). (r, stdout_msg b # ms, rest)) (exec_mux sch se (Suc k) True eo os es))"
  "oo \<or> eo \<Longrightarrow> exec_mux (False # sch) se k oo eo os (b # es) =
     (case se k of Some e \<Rightarrow> Some (Some e, [], os, es)
      | None \<Rightarrow> map_option (\<lambda>(r, ms, rest). (r, stderr_msg b # ms, rest)) (exec_mux sch se (Suc k) oo True os es))"
  by (auto simp: exec_mux.simps [of "[]"] exec_mux.simps [of "True # sch"] exec_mux.simps [of "False # sch"])

definition outs :: "CmdProgress list \<Rightarrow> bytes" where
  "outs ms = concat (map cp_stdout ms)"

definition errs :: "CmdProgress list \<Rightarrow> bytes" where
  "errs ms = concat (map cp_stderr ms)"

lemma outs_simps [simp]:
  "outs [] = []" "errs [] = []" "outs (m # ms) = cp_stdout m @ outs ms" "errs (m # ms) = cp_stderr m @ errs ms"
  "outs (ms @ ns) = outs ms @ outs ns" "errs (ms @ ns) = errs ms @ errs ns"
  by (simp_all add: outs_def errs_def)

lemma msg_fields [simp]:
  "cp_stdout (stdout_msg b) = b" "cp_stderr (stdout_msg b) = []" "cp_exit_code (stdout_msg b) = 0"
  "cp_stdout (stderr_msg b) = []" "cp_stderr (stderr_msg b) = b" "cp_exit_code (stderr_msg b) = 0"
  "cp_stdout (exit_msg ec) = []" "cp_stderr (exit_msg ec) = []" "cp_exit_code (exit_msg ec) = word_of_int ec"
  by (simp_all add: stdout_msg_def stderr_msg_def exit_msg_def zeroCmdProgress_def)

text \<open>One turn of the loop, by cases on the picked channel.\<close>

lemma exec_mux_cases:
  assumes "exec_mux (p # sch) se k oo eo os es = Some x" and "oo \<or> eo"
  obtains (out_closed) "p" "os = []" "exec_mux sch se k False eo [] es = Some x"
    | (err_closed) "\<not> p" "es = []" "exec_mux sch se k oo False os [] = Some x"
    | (send_err) e os1 es1 where "se k = Some e" "x = (Some e, [], os1, es1)"
    | (out) b os1 r ms rest where "p" "os = b # os1" "se k = None" "x = (r, stdout_msg b # ms, rest)"
        "exec_mux sch se (Suc k) True eo os1 es = Some (r, ms, rest)"
    | (err) b es1 r ms rest where "\<not> p" "es = b # es1" "se k = None" "x = (r, stderr_msg b # ms, rest)"
        "exec_mux sch se (Suc k) oo True os es1 = Some (r, ms, rest)"
  using assms by (cases p; cases os; cases es) (auto split: option.splits)

text \<open>The messages carry a part of each stream, in order, and all of it when no send failed.\<close>

lemma exec_mux_streams:
  "exec_mux sch se k oo eo os es = Some (r, ms, os', es') \<Longrightarrow> (\<not> oo \<longrightarrow> os = []) \<Longrightarrow> (\<not> eo \<longrightarrow> es = []) \<Longrightarrow>
     prefix (outs ms) (concat os) \<and> prefix (errs ms) (concat es) \<and> (\<forall>m \<in> set ms. cp_exit_code m = 0) \<and>
     (r = None \<longrightarrow> outs ms = concat os \<and> errs ms = concat es \<and> os' = [] \<and> es' = [])"
proof (induction sch arbitrary: k oo eo os es ms)
  case Nil
  then show ?case by (cases "oo \<or> eo") auto
next
  case (Cons p sch)
  show ?case
  proof (cases "oo \<or> eo")
    case True
    from Cons.prems(1) this show ?thesis
    proof (cases rule: exec_mux_cases)
      case out_closed
      then show ?thesis using Cons.IH [OF out_closed(3)] Cons.prems by simp
    next
      case err_closed
      then show ?thesis using Cons.IH [OF err_closed(3)] Cons.prems by simp
    next
      case (out b os1 r' ms1 rest)
      then have "exec_mux sch se (Suc k) True eo os1 es = Some (r, ms1, os', es')" by simp
      from Cons.IH [OF this] show ?thesis using Cons.prems out by auto
    next
      case (err b es1 r' ms1 rest)
      then have "exec_mux sch se (Suc k) oo True os es1 = Some (r, ms1, os', es')" by simp
      from Cons.IH [OF this] show ?thesis using Cons.prems err by auto
    qed simp
  qed (use Cons.prems in auto)
qed

lemma exec_mux_no_err: "exec_mux sch (\<lambda>_. None) k oo eo os es = Some (r, ms, os', es') \<Longrightarrow> r = None"
proof (induction sch arbitrary: k oo eo os es ms)
  case Nil
  then show ?case by (cases "oo \<or> eo") auto
next
  case (Cons p sch)
  show ?case
  proof (cases "oo \<or> eo")
    case True
    from Cons.prems this show ?thesis by (cases rule: exec_mux_cases) (auto intro: Cons.IH)
  qed (use Cons.prems in auto)
qed

text \<open>A schedule that picks each channel once more than it has chunks ends the loop.\<close>

lemma exec_mux_terminates:
  "(oo \<longrightarrow> length os < count_list sch True) \<Longrightarrow> (eo \<longrightarrow> length es < count_list sch False) \<Longrightarrow>
   (\<not> oo \<longrightarrow> os = []) \<Longrightarrow> (\<not> eo \<longrightarrow> es = []) \<Longrightarrow> exec_mux sch se k oo eo os es \<noteq> None"
proof (induction sch arbitrary: k oo eo os es)
  case Nil
  then show ?case by (cases "oo \<or> eo") auto
next
  case (Cons p sch)
  show ?case
  proof (cases "oo \<or> eo")
    case True
    show ?thesis
    proof (cases p)
      case p: True
      show ?thesis
      proof (cases os)
        case Nil
        then show ?thesis using Cons.IH [of False "[]" eo es k] Cons.prems True p by simp
      next
        case (Cons b os1)
        then have "exec_mux sch se (Suc k) True eo os1 es \<noteq> None"
          using Cons.prems p by (intro Cons.IH) auto
        then show ?thesis using True p Cons by (auto split: option.splits)
      qed
    next
      case p: False
      show ?thesis
      proof (cases es)
        case Nil
        then show ?thesis using Cons.IH [of oo os False "[]" k] Cons.prems True p by simp
      next
        case (Cons b es1)
        then have "exec_mux sch se (Suc k) oo True os es1 \<noteq> None"
          using Cons.prems p by (intro Cons.IH) auto
        then show ?thesis using True p Cons by (auto split: option.splits)
      qed
    qed
  qed simp
qed

text \<open>The client's loop with writers that accept everything.\<close>

definition accepts :: client_writer where
  "accepts = Some (\<lambda>_ _. None)"

lemma exec_recv_accepts:
  "exec_recv accepts accepts ms EOF o1 e1 lst =
     Inr (o1 @ outs ms, e1 @ errs ms, if ms = [] then lst else Some (last ms))"
  by (induction ms arbitrary: o1 e1 lst) (auto simp: client_write_def accepts_def)

lemma exec_recv_last: "exec_recv wo we ms fin o1 e1 lst = Inr (o2, e2, None) \<Longrightarrow> ms = [] \<and> lst = None \<and> fin = EOF"
proof (induction ms arbitrary: o1 e1 lst)
  case (Cons m ms)
  then show ?case by (fastforce split: sum.splits)
qed (simp split: if_splits)

text \<open>How a call of the server ends the stream of its client: gRPC turns every error into a status.\<close>

definition rpc_end :: "go_error option \<Rightarrow> go_error" where
  "rpc_end err = (case err of None \<Rightarrow> EOF | Some e \<Rightarrow> rpc_status e)"

lemma rpc_end_EOF: "rpc_end err = EOF \<longleftrightarrow> err = None"
  by (auto simp: rpc_end_def split: option.splits)

lemma server_Exec_started:
  assumes "first_err [xe_stdoutPipe env, xe_stderrPipe env, if stdin then xe_stdinPipe env else None,
      xe_start env cmd args ''/''] = None"
  shows "server_Exec env sch se (Inr (exec_request cmd args stdin)) =
    (case exec_mux sch se 0 True True (xe_out env) (xe_err env) of
       None \<Rightarrow> None
     | Some (muxErr, ms, os, es) \<Rightarrow>
         if \<not> copies_end os es then None
         else case first_err [xe_outErr env, xe_errErr env, muxErr] of
           Some e \<Rightarrow> Some (Return (ms, Some e))
         | None \<Rightarrow>
             (case exitCode (xe_wait env) of
                (_, Some e) \<Rightarrow> Some (Return (ms, Some e))
              | (ec, None) \<Rightarrow>
                  (case se (length ms) of
                     Some e \<Rightarrow> Some (Return (ms, Some e))
                   | None \<Rightarrow> Some (Return (ms @ [exit_msg ec], None)))))"
  using assms by (simp add: server_Exec_def exec_request_def exec_dir_def zeroCmdProgress_def)


section \<open>Properties\<close>

text \<open>
  (C17) Remote execution end to end. When the process starts and its output can be read and sent, and
  \<open>select\<close> does not starve a channel, the server's call returns, and the client, reading the messages the
  server sent, writes exactly the process's standard output to its first writer and its standard error
  to the second, whatever the interleaving of the two was, and returns the process's exit code reduced
  to 32 bits.
\<close>

theorem exec_end_to_end:
  assumes "first_err [xe_stdoutPipe env, xe_stderrPipe env, if stdin then xe_stdinPipe env else None,
      xe_start env cmd args ''/''] = None"
    and "xe_outErr env = None" and "xe_errErr env = None" and "exitCode (xe_wait env) = (ec, None)"
    and "length (xe_out env) < count_list sch True" and "length (xe_err env) < count_list sch False"
  shows "\<exists>ms. server_Exec env sch (\<lambda>_. None) (Inr (exec_request cmd args stdin)) = Some (Return (ms, None)) \<and>
           client_Exec accepts accepts None ms (rpc_end None) =
             Return (concat (xe_out env), concat (xe_err env), ec mod 2 ^ 32)"
proof -
  obtain r ms os es where mux: "exec_mux sch (\<lambda>_. None) 0 True True (xe_out env) (xe_err env) = Some (r, ms, os, es)"
    using exec_mux_terminates [of True "xe_out env" sch True "xe_err env" "\<lambda>_. None" 0] assms(5,6) by auto
  have "r = None" by (rule exec_mux_no_err [OF mux])
  then have st: "outs ms = concat (xe_out env)" "errs ms = concat (xe_err env)" "os = []" "es = []"
    using exec_mux_streams [OF mux] by auto
  have "server_Exec env sch (\<lambda>_. None) (Inr (exec_request cmd args stdin)) = Some (Return (ms @ [exit_msg ec], None))"
    using assms(2-4) by (simp add: server_Exec_started [OF assms(1)] mux \<open>r = None\<close> st copies_end_def first_err_def)
  moreover have "client_Exec accepts accepts None (ms @ [exit_msg ec]) (rpc_end None) =
      Return (concat (xe_out env), concat (xe_err env), ec mod 2 ^ 32)"
    by (simp add: client_Exec_def rpc_end_def exec_recv_accepts st uint_word_of_int)
  ultimately show ?thesis by blast
qed

definition ls_env :: exec_env where
  "ls_env = \<lparr>xe_stdoutPipe = None, xe_stderrPipe = None, xe_stdinPipe = None, xe_start = (\<lambda>_ _ _. None),
     xe_out = [[1, 2], [3]], xe_err = [[9]], xe_outErr = None, xe_errErr = None, xe_wait = Some (ExitError 2)\<rparr>"

theorem exec_end_to_end_witness:
  "\<exists>ms. server_Exec ls_env [True, False, False, True, True] (\<lambda>_. None) (Inr (exec_request ''ls'' [''/x''] False)) =
           Some (Return (ms, None)) \<and>
         client_Exec accepts accepts None ms (rpc_end None) = Return ([1, 2, 3], [9], 2)"
  using exec_end_to_end [of ls_env False "''ls''" "[''/x'']" 2 "[True, False, False, True, True]"]
  by (simp add: ls_env_def first_err_def exitCode_def)

text \<open>
  A broken stream blocks the call. When the process prints at least three chunks on one stream and
  the messages cannot be sent, the merging loop returns with the first error, but the goroutine that
  copies the output waits for ever for a free place in its channel: the server's call never returns,
  whatever \<open>select\<close> chooses, and the deferred kill of the process is not reached.
\<close>

theorem exec_send_failure_blocks:
  assumes "first_err [xe_stdoutPipe env, xe_stderrPipe env, if stdin then xe_stdinPipe env else None,
      xe_start env cmd args ''/''] = None"
    and "\<forall>k. sendErr k \<noteq> None" and "3 \<le> length (xe_out env)"
  shows "server_Exec env sch sendErr (Inr (exec_request cmd args stdin)) = None"
proof -
  have rest: "2 \<le> length os'" if "exec_mux sc sendErr k oo eo os es = Some (r, ms, os', es')" "oo" "3 \<le> length os"
    for sc k oo eo os es r ms os' es'
    using that
  proof (induction sc arbitrary: eo es)
    case (Cons p sc)
    obtain e where "sendErr k = Some e" using assms(2) by auto
    then show ?case using Cons by (cases p; cases os; cases es) auto
  qed simp
  show ?thesis
    using rest [of sch 0 True True "xe_out env" "xe_err env"] assms(3)
    by (fastforce simp: server_Exec_started [OF assms(1)] copies_end_def split: option.splits)
qed

theorem exec_send_failure_blocks_witness:
  "server_Exec (ls_env\<lparr>xe_out := [[1], [2], [3]]\<rparr>) [False, True, True] (\<lambda>_. Some ErrClosed) (Inr (exec_request ''ls'' [] False)) = None"
  by (rule exec_send_failure_blocks) (simp_all add: ls_env_def first_err_def)

text \<open>
  The client does not panic. The client dereferences the last message it received; whenever the
  server's call returns, the stream it leaves ends with an error or has a message, so the client returns a
  result or an error for every writer and every input.
\<close>

theorem exec_client_no_panic:
  assumes "server_Exec env sch sendErr recv = Some (Return (ms, err))"
  shows "client_Exec wo we stdinErr ms (rpc_end err) \<noteq> Panic"
proof -
  have "server_Exec env sch sendErr recv \<noteq> Some (Return ([], None))"
    by (auto simp: server_Exec_def split: sum.splits option.splits prod.splits)
  then have "ms \<noteq> [] \<or> err \<noteq> None" using assms by auto
  then show ?thesis
    using rpc_end_EOF [of err]
    by (auto simp: client_Exec_def dest!: exec_recv_last split: sum.splits option.splits)
qed

theorem exec_client_no_panic_witness:
  "client_Exec None None None [] (rpc_end (Some ErrClosed)) \<noteq> Panic"
proof -
  have "server_Exec ls_env [] (\<lambda>_. None) (Inl ErrClosed) = Some (Return ([], Some ErrClosed))"
    by (simp add: server_Exec_def)
  then show ?thesis by (rule exec_client_no_panic)
qed

end
