(* ===== verification/Install.thy ===== *)
theory Install
  imports RemoteExec
begin

text \<open>
  Package installation: \<open>Install\<close> and \<open>getVersion\<close> of \<open>server/server.go\<close>, and \<open>Install\<close> of \<open>client/client.go\<close>.
  The server chooses between a temporary file and a streamed session of the package manager, and drives
  the session through its create, write, commit and abandon commands. The shell of the device is a
  parameter: \<open>ie_run h c\<close> is the output and the error of command \<open>c\<close> after the commands \<open>h\<close>.
\<close>

section \<open>The server\<close>

record install_env =
  ie_sdk :: "string \<times> go_error option"
  ie_tmp :: "string result"
  ie_copy :: "go_error option"
  ie_chmod :: "go_error option"
  ie_run :: "string list \<Rightarrow> string \<Rightarrow> string \<times> go_error option"

text \<open>\<open>shell\<close>: the string the device's shell executes.\<close>

definition shell :: "string list \<Rightarrow> string" where
  "shell args = str_join args '' ''"

text \<open>
  \<open>strconv.Atoi\<close> as a pair: its error comes with the value 0, or with the nearest value of the type
  when the number is out of range.
\<close>

definition atoi_pair :: "string \<Rightarrow> int \<times> go_error option" where
  "atoi_pair s =
     (case atoi s of
        Inr v \<Rightarrow> (v, None)
      | Inl e \<Rightarrow>
          (let ds = (if s \<noteq> [] \<and> (hd s = CHR ''-'' \<or> hd s = CHR ''+'') then tl s else s)
           in (if ds = [] \<or> \<not> list_all is_digit ds then 0
               else if hd s = CHR ''-'' then - (2 ^ 63) else 2 ^ 63 - 1, Some e)))"

definition getVersion :: "install_env \<Rightarrow> int \<times> go_error option" where
  "getVersion env =
     (case ie_sdk env of
        (out, Some e) \<Rightarrow> (0, Some e)
      | (out, None) \<Rightarrow> atoi_pair (trim_cut out [CHR 0x0D, CHR 0x0A]))"

definition forceNoStreaming :: "string list \<Rightarrow> bool" where
  "forceNoStreaming args = list_ex (\<lambda>a. str_contains a ''no-streaming'') args"

definition install_args :: "string list \<Rightarrow> string list" where
  "install_args args = filter (\<lambda>a. \<not> str_contains a ''no-streaming'') args"

text \<open>\<open>cmd.CombinedOutput\<close> and \<open>exitCode\<close>, with the commands run so far.\<close>

record ran =
  rn_out :: string
  rn_ec :: int
  rn_err :: "go_error option"
  rn_hist :: "string list"

definition run_shell :: "install_env \<Rightarrow> string list \<Rightarrow> string list \<Rightarrow> ran" where
  "run_shell env h args =
     (case ie_run env h (shell args) of
        (out, err) \<Rightarrow> \<lparr>rn_out = out, rn_ec = fst (exitCode err), rn_err = snd (exitCode err), rn_hist = h @ [shell args]\<rparr>)"

definition good :: "ran \<Rightarrow> bool" where
  "good r \<longleftrightarrow> str_contains (rn_out r) ''Success''"

definition response :: "int \<Rightarrow> string \<Rightarrow> InstallResponse" where
  "response ec out = \<lparr>is_exit_code = word_of_int ec, is_output = out\<rparr>"

text \<open>\<open>out[strings.Index(out, "[")+1 : strings.Index(out, "]")]\<close>, after the test that both occur.\<close>

definition session_id :: "string \<Rightarrow> string outcome" where
  "session_id out =
     (case (str_index out ''['', str_index out '']'') of
        (Some i, Some j) \<Rightarrow> if j < i + 1 then Panic else Return (take (j - (i + 1)) (drop (i + 1) out))
      | _ \<Rightarrow> Fail (Errorf (''bad install session: '' @ out)))"

text \<open>
  The streamed installation. The result is the response sent, or the error, and the commands run. The
  three commands share their error handling; the write and the commit abandon the session first.
\<close>

definition abandon :: "install_env \<Rightarrow> string list \<Rightarrow> string \<Rightarrow> string list \<Rightarrow> string list" where
  "abandon env insCmd ss h = rn_hist (run_shell env h (insCmd @ [''install-abandon'', ss]))"

definition install_commit :: "install_env \<Rightarrow> string list \<Rightarrow> string \<Rightarrow> string list \<Rightarrow> InstallResponse outcome \<times> string list" where
  "install_commit env insCmd ss h =
     (let r = run_shell env h (insCmd @ [''install-commit'', ss])
      in if \<not> good r then
           (case rn_err r of
              Some e \<Rightarrow> (Fail e, abandon env insCmd ss (rn_hist r))
            | None \<Rightarrow> (Return (response (rn_ec r) (rn_out r)),
                       if rn_ec r \<noteq> 0 then abandon env insCmd ss (rn_hist r) else rn_hist r))
         else (Return (response 0 (rn_out r)), rn_hist r))"

definition install_write ::
    "install_env \<Rightarrow> string list \<Rightarrow> 32 word \<Rightarrow> string \<Rightarrow> string list \<Rightarrow> InstallResponse outcome \<times> string list"
where
  "install_write env insCmd apkSize ss h =
     (let r = run_shell env h (insCmd @ [''install-write'', ''-S'', show_nat (unat apkSize), ss, ''-''])
      in if \<not> good r \<and> rn_err r \<noteq> None then (Fail (the (rn_err r)), abandon env insCmd ss (rn_hist r))
         else if \<not> good r \<and> rn_ec r \<noteq> 0 then (Return (response (rn_ec r) (rn_out r)), abandon env insCmd ss (rn_hist r))
         else install_commit env insCmd ss (rn_hist r))"

definition install_streamed ::
    "install_env \<Rightarrow> bool \<Rightarrow> string list \<Rightarrow> 32 word \<Rightarrow> InstallResponse outcome \<times> string list"
where
  "install_streamed env useCmd args apkSize =
     (let insCmd = (if useCmd then [''cmd'', ''package''] else [''pm'']);
          r = run_shell env [] (insCmd @ [''install-create''] @ args)
      in if \<not> good r \<and> rn_err r \<noteq> None then (Fail (the (rn_err r)), rn_hist r)
         else if \<not> good r \<and> rn_ec r \<noteq> 0 then (Return (response (rn_ec r) (rn_out r)), rn_hist r)
         else case session_id (rn_out r) of
           Panic \<Rightarrow> (Panic, rn_hist r)
         | Fail e \<Rightarrow> (Fail e, rn_hist r)
         | Return ss \<Rightarrow> install_write env insCmd apkSize ss (rn_hist r))"

text \<open>The installation from a temporary file, with the files that were removed again.\<close>

definition install_file :: "install_env \<Rightarrow> string list \<Rightarrow> InstallResponse outcome \<times> string list \<times> string list" where
  "install_file env args =
     (case ie_tmp env of
        Inl e \<Rightarrow> (Fail e, [], [])
      | Inr name \<Rightarrow>
          (case first_err [ie_copy env, ie_chmod env] of
             Some e \<Rightarrow> (Fail e, [], [name])
           | None \<Rightarrow>
               let r = run_shell env [] ([''pm'', ''install''] @ args @ [name])
               in (case rn_err r of
                     Some e \<Rightarrow> (Fail e, rn_hist r, [name])
                   | None \<Rightarrow> (Return (response (rn_ec r) (rn_out r)), rn_hist r, [name]))))"

definition streamed :: "int \<Rightarrow> string list \<Rightarrow> bool" where
  "streamed api args \<longleftrightarrow> 21 \<le> api \<and> \<not> forceNoStreaming args"

definition useCmd :: "int \<Rightarrow> bool" where
  "useCmd api \<longleftrightarrow> 25 \<le> api"

definition server_Install :: "install_env \<Rightarrow> InstallRequest result \<Rightarrow> InstallResponse outcome \<times> string list \<times> string list" where
  "server_Install env recv =
     (case recv of
        Inl e \<Rightarrow> (Fail e, [], [])
      | Inr ins \<Rightarrow>
          let api = fst (getVersion env); args = install_args (ir_args ins)
          in if \<not> streamed api (ir_args ins) then install_file env args
             else case install_streamed env (useCmd api) args (ir_apk_size ins) of (r, h) \<Rightarrow> (r, h, []))"


section \<open>The client\<close>

definition install_request :: "string list \<Rightarrow> nat \<Rightarrow> InstallRequest" where
  "install_request args sz = \<lparr>ir_args = args, ir_payload = [], ir_apk_size = word_of_nat sz\<rparr>"

text \<open>\<open>Install\<close> after the file was sent: the output and the error.\<close>

definition client_Install :: "InstallResponse result \<Rightarrow> string \<times> go_error option" where
  "client_Install recv =
     (case recv of
        Inl e \<Rightarrow> ([], Some e)
      | Inr r \<Rightarrow>
          if is_exit_code r \<noteq> 0
          then (is_output r, Some (Errorf (''non-zero exit code: '' @ show_nat (unat (is_exit_code r)))))
          else (is_output r, None))"


section \<open>Facts\<close>

text \<open>The shell accepted a command: its output says so, or it ended with exit code 0.\<close>

definition accepted :: "ran \<Rightarrow> bool" where
  "accepted r \<longleftrightarrow> good r \<or> (rn_err r = None \<and> rn_ec r = 0)"

lemma run_shell_hist [simp]: "rn_hist (run_shell env h args) = h @ [shell args]"
  by (simp add: run_shell_def split: prod.splits)

lemma abandon_hist [simp]: "abandon env insCmd ss h = h @ [shell (insCmd @ [''install-abandon'', ss])]"
  by (simp add: abandon_def)

lemma install_write_extends: "\<exists>t. snd (install_write env insCmd w ss h) = h @ t"
  by (simp add: install_write_def install_commit_def Let_def split: option.splits)

lemma install_streamed_first:
  "hd (snd (install_streamed env uc args w)) = shell ((if uc then [''cmd'', ''package''] else [''pm'']) @ [''install-create''] @ args)"
proof -
  let ?ins = "if uc then [''cmd'', ''package''] else [''pm'']" and ?c = "shell ((if uc then [''cmd'', ''package''] else [''pm'']) @ [''install-create''] @ args)"
  have "hd (snd (install_write env ?ins w ss [?c])) = ?c" for ss
    using install_write_extends [of env ?ins w ss "[?c]"] by auto
  then show ?thesis by (auto simp: install_streamed_def Let_def split: outcome.splits)
qed

lemma install_file_commands:
  "(\<forall>f. ie_tmp env = Inr f \<longrightarrow> snd (snd (install_file env args)) = [f] \<and>
      (fst (snd (install_file env args)) = [] \<or>
       fst (snd (install_file env args)) = [shell ([''pm'', ''install''] @ args @ [f])])) \<and>
   (\<forall>e. ie_tmp env = Inl e \<longrightarrow> fst (snd (install_file env args)) = [])"
  by (auto simp: install_file_def Let_def split: option.splits)

text \<open>The exit codes of processes, as \<open>os.ProcessState\<close> reports them.\<close>

definition exit_codes :: "install_env \<Rightarrow> bool" where
  "exit_codes env \<longleftrightarrow> (\<forall>h c out n. ie_run env h c = (out, Some (ExitError n)) \<longrightarrow> n = -1 \<or> 0 < n \<and> n < 256)"

lemma run_shell_ec: "exit_codes env \<Longrightarrow> rn_ec (run_shell env h args) = -1 \<or> 0 \<le> rn_ec (run_shell env h args) \<and> rn_ec (run_shell env h args) < 256"
  by (fastforce simp: run_shell_def exit_codes_def exitCode_def split: prod.splits option.splits go_error.splits)

lemma response_zero:
  assumes "exit_codes env"
  shows "is_exit_code (response (rn_ec (run_shell env h args)) out) = 0 \<longleftrightarrow> rn_ec (run_shell env h args) = 0"
proof -
  let ?e = "rn_ec (run_shell env h args)"
  have "(word_of_int ?e :: 32 word) = 0 \<longleftrightarrow> ?e mod 2 ^ 32 = 0"
    by (simp add: word_eq_iff_unsigned [symmetric] flip: uint_0_iff) (simp add: uint_word_of_int)
  then show ?thesis using run_shell_ec [OF assms, of h args] by (auto simp: response_def)
qed


section \<open>Properties\<close>

text \<open>
  (C28) A streamed installation is a transaction. Once the session is created, exactly one of three things
  happens: the write and the commit are accepted, nothing is abandoned and the response is success; the
  write is accepted and the commit is not; or the write is not accepted and no commit is attempted. In
  the last two cases the last command abandons that very session, and the client sees a failure.
\<close>

theorem install_transaction:
  assumes "exit_codes env" and "insCmd = (if useC then [''cmd'', ''package''] else [''pm''])"
    and "create = run_shell env [] (insCmd @ [''install-create''] @ args)" and "accepted create"
    and "session_id (rn_out create) = Return ss"
    and "wr = run_shell env (rn_hist create) (insCmd @ [''install-write'', ''-S'', show_nat (unat apkSize), ss, ''-''])"
    and "com = run_shell env (rn_hist wr) (insCmd @ [''install-commit'', ss])"
    and "install_streamed env useC args apkSize = (res, cmds)"
  shows "(let succeeds = (\<exists>resp. res = Return resp \<and> snd (client_Install (Inr resp)) = None);
              gaveUp = shell (insCmd @ [''install-abandon'', ss])
          in (accepted wr \<and> accepted com \<and> cmds = rn_hist com \<and> succeeds) \<or>
             (accepted wr \<and> \<not> accepted com \<and> cmds = rn_hist com @ [gaveUp] \<and> \<not> succeeds) \<or>
             (\<not> accepted wr \<and> cmds = rn_hist wr @ [gaveUp] \<and> \<not> succeeds))"
proof -
  have cl: "snd (client_Install (Inr r)) = None \<longleftrightarrow> is_exit_code r = 0" for r by (simp add: client_Install_def)
  have z0: "is_exit_code (response 0 out) = 0" for out by (simp add: response_def)
  have e1: "install_streamed env useC args apkSize = install_write env insCmd apkSize ss (rn_hist create)"
    unfolding install_streamed_def Let_def assms(2) [symmetric] assms(3) [symmetric]
    using assms(4,5) by (auto simp: accepted_def)
  have e2: "install_write env insCmd apkSize ss (rn_hist create) = (if accepted wr then install_commit env insCmd ss (rn_hist wr)
      else (case rn_err wr of Some e \<Rightarrow> Fail e | None \<Rightarrow> Return (response (rn_ec wr) (rn_out wr)),
            rn_hist wr @ [shell (insCmd @ [''install-abandon'', ss])]))"
    unfolding install_write_def Let_def assms(6) [symmetric] by (auto simp: accepted_def)
  have e3: "install_commit env insCmd ss (rn_hist wr) =
      (if accepted com then (Return (response 0 (rn_out com)), rn_hist com)
       else (case rn_err com of Some e \<Rightarrow> Fail e | None \<Rightarrow> Return (response (rn_ec com) (rn_out com)),
             rn_hist com @ [shell (insCmd @ [''install-abandon'', ss])]))"
    unfolding install_commit_def Let_def assms(7) [symmetric] by (auto simp: accepted_def split: option.splits)
  have nz: "\<not> accepted wr \<Longrightarrow> rn_err wr = None \<Longrightarrow> is_exit_code (response (rn_ec wr) (rn_out wr)) \<noteq> 0"
    "\<not> accepted com \<Longrightarrow> rn_err com = None \<Longrightarrow> is_exit_code (response (rn_ec com) (rn_out com)) \<noteq> 0"
    unfolding assms(6,7) using response_zero [OF assms(1)] by (auto simp: accepted_def)
  show ?thesis
    using assms(8) [unfolded e1 e2 e3] nz by (auto simp: Let_def cl z0 split: if_splits option.splits)
qed

text \<open>A package manager that creates session 7 and refuses to commit it.\<close>

definition demo_env :: install_env where
  "demo_env = \<lparr>ie_sdk = (''29'', None), ie_tmp = Inr ''/data/local/tmp/1.apk'', ie_copy = None, ie_chmod = None,
     ie_run = (\<lambda>h c. if h = [] then (''Success: created install session [7]'', None)
                     else if prefix ''cmd package install-commit'' c then (''Failure'', Some (ExitError 1))
                     else (''Success'', None))\<rparr>"

lemma demo_exit_codes: "exit_codes demo_env"
  by (auto simp: exit_codes_def demo_env_def split: if_splits)

lemma demo_runs:
  "run_shell demo_env [] ([''cmd'', ''package''] @ [''install-create''] @ []) =
     \<lparr>rn_out = ''Success: created install session [7]'', rn_ec = 0, rn_err = None, rn_hist = [''cmd package install-create'']\<rparr>"
  "run_shell demo_env [''cmd package install-create''] ([''cmd'', ''package''] @ [''install-write'', ''-S'', show_nat (unat (5 :: 32 word)), ''7'', ''-'']) =
     \<lparr>rn_out = ''Success'', rn_ec = 0, rn_err = None,
      rn_hist = [''cmd package install-create'', ''cmd package install-write -S 5 7 -'']\<rparr>"
  "run_shell demo_env [''cmd package install-create'', ''cmd package install-write -S 5 7 -''] ([''cmd'', ''package''] @ [''install-commit'', ''7'']) =
     \<lparr>rn_out = ''Failure'', rn_ec = 1, rn_err = None,
      rn_hist = [''cmd package install-create'', ''cmd package install-write -S 5 7 -'', ''cmd package install-commit 7'']\<rparr>"
  by code_simp+

theorem install_transaction_witness:
  "snd (install_streamed demo_env True [] 5) =
     [''cmd package install-create'', ''cmd package install-write -S 5 7 -'', ''cmd package install-commit 7'',
      ''cmd package install-abandon 7'']"
proof -
  have g: "accepted \<lparr>rn_out = ''Success: created install session [7]'', rn_ec = 0, rn_err = None, rn_hist = h\<rparr>"
    "accepted \<lparr>rn_out = ''Success'', rn_ec = 0, rn_err = None, rn_hist = h\<rparr>" for h by (simp_all add: accepted_def)
  have "\<not> good \<lparr>rn_out = ''Failure'', rn_ec = 1, rn_err = None,
      rn_hist = [''cmd package install-create'', ''cmd package install-write -S 5 7 -'', ''cmd package install-commit 7'']\<rparr>"
    by code_simp
  moreover have "session_id ''Success: created install session [7]'' = Return ''7''" by code_simp
  moreover have "shell ([''cmd'', ''package''] @ [''install-abandon'', ''7'']) = ''cmd package install-abandon 7''" by code_simp
  ultimately show ?thesis
    using install_transaction [OF demo_exit_codes refl refl _ _ refl refl prod.collapse [symmetric],
        where useC = True and args = "[]" and apkSize = 5 and ss = "''7''"]
    by (simp add: demo_runs [simplified] g accepted_def Let_def)
qed

text \<open>
  How a package is installed. The request is served from a temporary file when the device is older than
  API level 21 or a \<open>no-streaming\<close> argument is given; the file, once made, is always removed, and the only
  command is one \<open>pm install\<close>. Otherwise the package is streamed, with \<open>cmd package\<close> from level 25 and with \<open>pm\<close>
  for the levels 21 to 24. No argument that contains \<open>no-streaming\<close> reaches a command, and the size
  that the client announces is the file's size modulo \<open>2 ^ 32\<close>.
\<close>

theorem install_method:
  assumes "server_Install env (Inr (install_request args sz)) = (res, cmds, removed)"
    and "api = fst (getVersion env)" and "args' = filter (\<lambda>a. \<not> sublist ''no-streaming'' a) args"
  shows "(if api < 21 \<or> (\<exists>a \<in> set args. sublist ''no-streaming'' a)
          then (\<forall>f. ie_tmp env = Inr f \<longrightarrow> removed = [f] \<and>
                  (cmds = [] \<or> cmds = [shell ([''pm'', ''install''] @ args' @ [f])])) \<and>
               (\<forall>e. ie_tmp env = Inl e \<longrightarrow> cmds = [])
          else removed = [] \<and>
               (res, cmds) = install_streamed env (25 \<le> api) args' (word_of_nat sz) \<and>
               hd cmds = shell ((if 25 \<le> api then [''cmd'', ''package''] else [''pm'']) @ [''install-create''] @ args')) \<and>
         unat (ir_apk_size (install_request args sz)) = sz mod 2 ^ 32"
proof -
  have f: "forceNoStreaming args \<longleftrightarrow> (\<exists>a \<in> set args. sublist ''no-streaming'' a)" "install_args args = args'"
    by (auto simp: forceNoStreaming_def list_ex_iff str_contains_iff install_args_def assms(3))
  have "unat (ir_apk_size (install_request args sz)) = sz mod 2 ^ 32"
    by (simp add: install_request_def unat_of_nat)
  moreover have ir: "ir_args (install_request args sz) = args" "ir_apk_size (install_request args sz) = word_of_nat sz"
    by (simp_all add: install_request_def)
  have "server_Install env (Inr (install_request args sz)) =
      (if api < 21 \<or> (\<exists>a \<in> set args. sublist ''no-streaming'' a) then install_file env args'
       else (fst (install_streamed env (25 \<le> api) args' (word_of_nat sz)),
             snd (install_streamed env (25 \<le> api) args' (word_of_nat sz)), []))"
    by (auto simp: server_Install_def streamed_def useCmd_def f ir Let_def assms(2) split: prod.splits)
  then have r: "(res, cmds, removed) = (if api < 21 \<or> (\<exists>a \<in> set args. sublist ''no-streaming'' a) then install_file env args'
       else (fst (install_streamed env (25 \<le> api) args' (word_of_nat sz)),
             snd (install_streamed env (25 \<le> api) args' (word_of_nat sz)), []))" using assms(1) by metis
  have "if api < 21 \<or> (\<exists>a \<in> set args. sublist ''no-streaming'' a)
      then snd (snd (install_file env args')) = removed \<and> fst (snd (install_file env args')) = cmds
      else removed = [] \<and> install_streamed env (25 \<le> api) args' (word_of_nat sz) = (res, cmds)"
    using r by (cases "install_file env args'") (auto split: if_splits)
  ultimately show ?thesis
    using install_file_commands [of env args'] install_streamed_first [of env "25 \<le> api" args' "word_of_nat sz"]
    by (cases "api < 21 \<or> (\<exists>a \<in> set args. sublist ''no-streaming'' a)") simp_all
qed

theorem install_method_witness:
  "hd (fst (snd (server_Install (demo_env\<lparr>ie_sdk := (''24'', None)\<rparr>) (Inr (install_request [] 5))))) = ''pm install-create''"
proof -
  let ?env = "demo_env\<lparr>ie_sdk := (''24'', None)\<rparr>"
  obtain res cmds removed where r: "server_Install ?env (Inr (install_request [] 5)) = (res, cmds, removed)"
    by (metis prod_cases3)
  have v: "fst (getVersion ?env) = 24" by code_simp
  have "shell ([''pm''] @ [''install-create'']) = ''pm install-create''" by code_simp
  then show ?thesis using install_method [OF r refl refl] by (simp add: v r)
qed

end
