(* ===== verification/Addr.thy ===== *)
theory Addr
  imports Proto
begin

text \<open>
  Addresses. \<open>ParseAddr\<close> of \<open>utils/addr.go\<close> reads \<open>kind:rest\<close>, where \<open>mux\<close> nests another address; the two
  smaller grammars are \<open>parseAddr\<close> of \<open>forward/ports/ports.go\<close> and \<open>parseAddr\<close> of
  \<open>client/adb/adb_bin.go\<close>. The printer \<open>show_addr\<close> and the well-formedness predicate \<open>wf_addr\<close> are the
  specification: parsing yields well-formed addresses, and is inverse to printing them.
\<close>


section \<open>Kinds\<close>

definition QemuHost :: string where "QemuHost = ''qemu''"
definition QemuGuest :: string where "QemuGuest = ''qemu-guest''"
definition VsockHost :: string where "VsockHost = ''vsock-host''"
definition VsockGuest :: string where "VsockGuest = ''vsock-guest''"
definition QemuCtrl :: string where "QemuCtrl = ''qemu2''"
definition Unix :: string where "Unix = ''unix''"
definition Tcp :: string where "Tcp = ''tcp''"
definition Mux :: string where "Mux = ''mux''"
definition Fd :: string where "Fd = ''fd''"
definition Usb :: string where "Usb = ''usb''"

lemmas kind_defs = QemuHost_def QemuGuest_def VsockHost_def VsockGuest_def QemuCtrl_def Unix_def
  Tcp_def Mux_def Fd_def Usb_def

definition validKinds :: "string list" where
  "validKinds = [QemuHost, QemuCtrl, QemuGuest, VsockHost, VsockGuest, Unix, Tcp, Mux, Fd, Usb]"

datatype ParsedAddr =
  ParsedAddr (pa_Kind: string) (pa_Addr: string) (pa_SocketName: string) (pa_FD: int)
    (pa_MuxAddr: "ParsedAddr option")


section \<open>Parsing\<close>

lemma splitN_two_shorter: "splitN 2 c s = [a, b] \<Longrightarrow> length b < length s"
  by (cases rule: splitN_two_cases [of c s]) auto

function ParseAddr :: "string \<Rightarrow> ParsedAddr result" where
  "ParseAddr addr =
     (case splitN 2 CHR '':'' addr of
        [k, r] \<Rightarrow>
          if k \<notin> set validKinds then Inl (Errorf (''invalid kind: '' @ k))
          else if k = Mux then
            (case ParseAddr r of
               Inl e \<Rightarrow> Inl e
             | Inr m \<Rightarrow> Inr (ParsedAddr k [] [] 0 (Some m)))
          else if k = VsockHost then
            (case splitN 2 CHR '':'' r of
               [a, b] \<Rightarrow> Inr (ParsedAddr k a b 0 None)
             | _ \<Rightarrow> Inl (Errorf (''failed to parse address '' @ addr)))
          else if k = VsockGuest then Inr (ParsedAddr k [] r 0 None)
          else if k = Fd then
            (case atoi r of
               Inl e \<Rightarrow> Inl e
             | Inr fd \<Rightarrow> Inr (ParsedAddr k [] [] fd None))
          else
            let socket = (if k = QemuGuest \<or> k = QemuCtrl then r else [])
            in if k = QemuHost then
                 (case splitN 2 CHR '':'' r of
                    [a, b] \<Rightarrow> Inr (ParsedAddr k a b 0 None)
                  | _ \<Rightarrow> Inl (Errorf (''failed to parse address '' @ addr)))
               else Inr (ParsedAddr k r socket 0 None)
      | _ \<Rightarrow> Inl (Errorf (''failed to parse address '' @ addr)))"
  by pat_completeness auto
termination
  by (relation "measure length") (auto dest: splitN_two_shorter)

declare ParseAddr.simps [simp del]

text \<open>\<open>parseAddr\<close> of the port forwarder: kind and address.\<close>

definition ports_parseAddr :: "string \<Rightarrow> (string \<times> string) result" where
  "ports_parseAddr addr =
     (case splitN 2 CHR '':'' addr of
        [k, a] \<Rightarrow> Inr (k, a)
      | _ \<Rightarrow> Inl (Errorf (''failed to parse address '' @ addr)))"

text \<open>\<open>parseAddr\<close> of the command line tool: a device without a protocol is an abstract socket.\<close>

definition adb_parseAddr :: "string \<Rightarrow> (string \<times> string) outcome" where
  "adb_parseAddr addr =
     (if prefix ''unix:'' addr \<or> prefix ''tcp:'' addr
      then let pts = splitN 2 CHR '':'' addr
           in obind (idx pts 0) (\<lambda>a. obind (idx pts 1) (\<lambda>b. Return (a, b)))
      else Return (''unix'', ''@h2o_'' @ addr))"


section \<open>Printing and well-formedness\<close>

definition show_int :: "int \<Rightarrow> string" where
  "show_int i = (if i < 0 then CHR ''-'' # show_nat (nat (- i)) else show_nat (nat i))"

fun show_addr :: "ParsedAddr \<Rightarrow> string" where
  "show_addr (ParsedAddr k a s fd m) =
     (case m of
        Some p \<Rightarrow> k @ '':'' @ show_addr p
      | None \<Rightarrow>
          if k = Fd then k @ '':'' @ show_int fd
          else if k = VsockHost \<or> k = QemuHost then k @ '':'' @ a @ '':'' @ s
          else if k = VsockGuest then k @ '':'' @ s
          else k @ '':'' @ a)"

fun wf_addr :: "ParsedAddr \<Rightarrow> bool" where
  "wf_addr (ParsedAddr k a s fd m) =
     (case m of
        Some p \<Rightarrow> k = Mux \<and> a = [] \<and> s = [] \<and> fd = 0 \<and> wf_addr p
      | None \<Rightarrow>
          k \<in> set validKinds \<and> k \<noteq> Mux \<and>
          (if k = Fd then a = [] \<and> s = [] \<and> - (2 ^ 63) \<le> fd \<and> fd < 2 ^ 63
           else fd = 0 \<and>
             (if k = VsockHost \<or> k = QemuHost then CHR '':'' \<notin> set a
              else if k = VsockGuest then a = []
              else if k = QemuGuest \<or> k = QemuCtrl then s = a
              else s = [])))"

lemma atoi_show_int: "- (2 ^ 63) \<le> i \<Longrightarrow> i < 2 ^ 63 \<Longrightarrow> atoi (show_int i) = Inr i"
proof (cases "i < 0")
  case True
  assume "- (2 ^ 63) \<le> i"
  with True show ?thesis
    using show_nat_digits [of "nat (- i)"] by (simp add: atoi_def show_int_def Let_def)
next
  case False
  assume "i < 2 ^ 63"
  with False have "nat i < 2 ^ 63" by (simp add: nat_less_iff)
  with False show ?thesis by (simp add: show_int_def atoi_show_nat)
qed

lemma atoi_range: "atoi s = Inr i \<Longrightarrow> - (2 ^ 63) \<le> i \<and> i < 2 ^ 63"
  by (auto simp: atoi_def Let_def split: if_splits)

lemma validKinds_no_colon: "k \<in> set validKinds \<Longrightarrow> CHR '':'' \<notin> set k"
  by (auto simp: validKinds_def kind_defs)

lemma ParseAddr_sep:
  "CHR '':'' \<notin> set k \<Longrightarrow> splitN 2 CHR '':'' (k @ '':'' @ r) = [k, r]"
  using splitN_two_sep [of "CHR '':''" k r] by simp

lemma ParseAddr_nosep:
  "CHR '':'' \<notin> set addr \<Longrightarrow> ParseAddr addr = Inl (Errorf (''failed to parse address '' @ addr))"
  by (subst ParseAddr.simps) (simp add: splitN_two_nosep)

lemma ParseAddr_invalid:
  "CHR '':'' \<notin> set k \<Longrightarrow> k \<notin> set validKinds \<Longrightarrow>
   ParseAddr (k @ '':'' @ r) = Inl (Errorf (''invalid kind: '' @ k))"
  by (subst ParseAddr.simps) (simp only: ParseAddr_sep list.case if_True simp_thms)

lemma kinds_distinct:
  "Mux \<noteq> VsockHost" "Mux \<noteq> VsockGuest" "Mux \<noteq> Fd" "Mux \<noteq> QemuHost" "VsockHost \<noteq> VsockGuest"
  "VsockHost \<noteq> Fd" "VsockHost \<noteq> QemuHost" "VsockGuest \<noteq> Fd" "VsockGuest \<noteq> QemuHost" "Fd \<noteq> QemuHost"
  "QemuGuest \<noteq> QemuHost" "QemuCtrl \<noteq> QemuHost" "QemuGuest \<noteq> Fd" "QemuCtrl \<noteq> Fd"
  "QemuGuest \<noteq> VsockGuest" "QemuCtrl \<noteq> VsockGuest" "QemuGuest \<noteq> VsockHost" "QemuCtrl \<noteq> VsockHost"
  by (simp_all add: kind_defs)

text \<open>What is parsed is well-formed.\<close>

lemma ParseAddr_wf: "ParseAddr addr = Inr p \<Longrightarrow> wf_addr p"
proof (induction addr arbitrary: p rule: ParseAddr.induct)
  case (1 addr)
  show ?case
  proof (cases rule: splitN_two_cases [of "CHR '':''" addr])
    case nosep
    with "1.prems" show ?thesis by (simp add: ParseAddr_nosep)
  next
    case (sep k r)
    show ?thesis
    proof (cases "k \<in> set validKinds \<and> k = Mux")
      case True
      with "1.prems" sep obtain m where "ParseAddr r = Inr m" "p = ParsedAddr k [] [] 0 (Some m)"
        by (subst (asm) ParseAddr.simps) (auto split: sum.splits)
      with "1.IH" [of k "[r]" r "[]"] sep True show ?thesis by auto
    next
      case False
      with "1.prems" sep(3) show ?thesis
        by (subst (asm) ParseAddr.simps)
          (cases rule: splitN_two_cases [of "CHR '':''" r],
           auto simp: Let_def kinds_distinct dest: atoi_range split: sum.splits if_splits)
    qed
  qed
qed

lemma ParseAddr_show_wf: "wf_addr p \<Longrightarrow> ParseAddr (show_addr p) = Inr p"
proof (induction p)
  case (ParsedAddr k a s fd m)
  show ?case
  proof (cases m)
    case (Some p)
    with ParsedAddr.prems have k: "k = Mux" "a = []" "s = []" "fd = 0" "wf_addr p" by auto
    have "ParseAddr (show_addr p) = Inr p"
      using ParsedAddr.IH [of p] Some k(5) by simp
    moreover have "CHR '':'' \<notin> set Mux" "Mux \<in> set validKinds"
      by (simp_all add: validKinds_def kind_defs)
    ultimately show ?thesis
      using Some k by (subst ParseAddr.simps) (simp add: ParseAddr_sep [simplified])
  next
    case None
    with ParsedAddr.prems have v: "k \<in> set validKinds" "k \<noteq> Mux" by auto
    note nc = validKinds_no_colon [OF v(1)]
    show ?thesis
      using None v ParsedAddr.prems nc
      by (subst ParseAddr.simps)
        (auto simp: ParseAddr_sep [simplified] kinds_distinct kinds_distinct [symmetric] atoi_show_int
          splitN_two_sep Let_def)
  qed
qed

text \<open>
  Printing then parsing: every well-formed address, however deeply \<open>mux\<close> is nested, is the result of
  parsing its printed form.
\<close>

theorem ParseAddr_show_addr: "wf_addr p \<Longrightarrow> ParseAddr (show_addr p) = Inr p"
  by (rule ParseAddr_show_wf)


theorem ParseAddr_show_addr_witness:
  "ParseAddr ''mux:fd:3'' = Inr (ParsedAddr ''mux'' [] [] 0 (Some (ParsedAddr ''fd'' [] [] 3 None)))"
proof -
  let ?p = "ParsedAddr ''mux'' [] [] 0 (Some (ParsedAddr ''fd'' [] [] 3 None))"
  have sh: "show_addr ?p = ''mux:fd:3''"
    by (simp add: kind_defs show_int_def show_nat.simps digit_char_def) code_simp
  have wf: "wf_addr ?p"
    by (simp add: kind_defs validKinds_def)
  show ?thesis using ParseAddr_show_addr [OF wf] by (simp only: sh)
qed

text \<open>Whether the address ends in a file descriptor, whose number has several spellings.\<close>

fun uses_fd :: "ParsedAddr \<Rightarrow> bool" where
  "uses_fd (ParsedAddr k a s fd m) = (case m of Some p \<Rightarrow> uses_fd p | None \<Rightarrow> k = Fd)"

lemma ParseAddr_show:
  "ParseAddr addr = Inr p \<Longrightarrow> \<not> uses_fd p \<Longrightarrow> show_addr p = addr"
proof (induction addr arbitrary: p rule: ParseAddr.induct)
  case (1 addr)
  show ?case
  proof (cases rule: splitN_two_cases [of "CHR '':''" addr])
    case nosep
    with "1.prems" show ?thesis by (simp add: ParseAddr_nosep)
  next
    case (sep k r)
    show ?thesis
    proof (cases "k \<in> set validKinds \<and> k = Mux")
      case True
      with "1.prems" sep obtain m where "ParseAddr r = Inr m" "p = ParsedAddr k [] [] 0 (Some m)"
        by (subst (asm) ParseAddr.simps) (auto split: sum.splits)
      with "1.IH" [of k "[r]" r "[]"] "1.prems"(2) sep True show ?thesis by auto
    next
      case False
      with "1.prems" sep show ?thesis
        by (subst (asm) ParseAddr.simps)
          (cases rule: splitN_two_cases [of "CHR '':''" r],
           auto simp: Let_def kinds_distinct kinds_distinct [symmetric] split: sum.splits if_splits)
    qed
  qed
qed

text \<open>
  (C30) Soundness of parsing: an accepted string yields a well-formed address (a known kind, the fields
  that kind uses, \<open>mux\<close> and only \<open>mux\<close> with a nested address), and unless the address ends in a
  file descriptor, whose number can be spelled in several ways, printing the address gives back
  the very string that was parsed.
\<close>

theorem ParseAddr_sound:
  assumes "ParseAddr addr = Inr p"
  shows "wf_addr p \<and> (\<not> uses_fd p \<longrightarrow> show_addr p = addr)"
  using ParseAddr_wf [OF assms] ParseAddr_show [OF assms] by blast

theorem ParseAddr_sound_witness:
  "\<exists>p. ParseAddr ''qemu:/foo/bar:sockets/hello'' = Inr p \<and> wf_addr p \<and>
     show_addr p = ''qemu:/foo/bar:sockets/hello''"
proof -
  have "ParseAddr ''qemu:/foo/bar:sockets/hello'' =
      Inr (ParsedAddr ''qemu'' ''/foo/bar'' ''sockets/hello'' 0 None)"
    by (subst ParseAddr.simps) (simp add: splitN_two kind_defs validKinds_def Let_def)
  from ParseAddr_sound [OF this] this show ?thesis by (simp add: kind_defs)
qed

lemma adb_parseAddr_no_panic: "adb_parseAddr addr \<noteq> Panic"
proof (cases "prefix ''unix:'' addr \<or> prefix ''tcp:'' addr")
  case True
  then have "CHR '':'' \<in> set addr" by (auto simp: prefix_def)
  with True show ?thesis by (simp add: adb_parseAddr_def splitN_two)
qed (simp add: adb_parseAddr_def)

lemma ports_parseAddr_iff: "ports_parseAddr addr = Inr (k, a) \<longleftrightarrow> addr = k @ '':'' @ a \<and> CHR '':'' \<notin> set k"
  by (cases rule: splitN_two_cases [of "CHR '':''" addr])
    (auto simp: ports_parseAddr_def splitN_two_sep append_eq_append_conv2 append_eq_Cons_conv Cons_eq_append_conv)

end
