(* ===== verification/Ports.thy ===== *)
theory Ports
  imports Addr "HOL-Library.AList"
begin

text \<open>
  \<open>forward/ports/ports.go\<close>: the host daemon that keeps port forwarding sessions. Its state is the two
  session tables, the listeners the kernel holds for it, the contexts it cancelled and the
  goroutines it started: one accept loop per forwarding session and one receive loop per reverse
  session. The request handlers run under a mutex and are atomic functions; the goroutines take
  their own steps in the relation \<open>pf_step\<close>.

  The kernel and the device's server are not part of this component: whether \<open>net.Listen\<close> refuses an
  address is a parameter of the network state, and the outcome of a call to the server is an
  argument of the handler. A Go map is an association list without duplicate keys.

  Shown here: the tables stay consistent and no listener is ever leaked, under every interleaving;
  what each handler does on each of its branches; and two defects, the session lost by a failed
  rebind and the rebound reverse session that the old session's goroutine removes.
\<close>


section \<open>State\<close>

record forwardSession =
  ss_src :: string
  ss_dst :: string
  ss_lis :: nat
  ss_ctx :: nat

text \<open>Open listeners with their addresses, and what the kernel refuses given the bound addresses.\<close>

record net =
  nt_open :: "(nat \<times> string \<times> string) list"
  nt_next :: nat
  nt_refuse :: "(string \<times> string) list \<Rightarrow> string \<Rightarrow> string \<Rightarrow> go_error option"

definition errUseOfClosed :: go_error where
  "errUseOfClosed = SysErr ''use of closed network connection''"

definition net_listen :: "net \<Rightarrow> string \<Rightarrow> string \<Rightarrow> nat result \<times> net" where
  "net_listen n kind addr =
     (case nt_refuse n (map snd (nt_open n)) kind addr of
        Some e \<Rightarrow> (Inl e, n)
      | None \<Rightarrow> (Inr (nt_next n), n\<lparr>nt_open := (nt_next n, kind, addr) # nt_open n, nt_next := Suc (nt_next n)\<rparr>))"

definition net_close :: "net \<Rightarrow> nat \<Rightarrow> go_error option \<times> net" where
  "net_close n l =
     (if l \<in> fst ` set (nt_open n)
      then (None, n\<lparr>nt_open := filter (\<lambda>p. fst p \<noteq> l) (nt_open n)\<rparr>) else (Some errUseOfClosed, n))"

text \<open>
  \<open>pf_accepting\<close>: the accept loops that run, with context, listener and destination.
  \<open>pf_receiving\<close>: the receive loops of reverse sessions that run. \<open>pf_rpcs\<close>: the requests sent to
  the device, oldest first.
\<close>

datatype device_rpc = StartReverse ForwardMessage | StopReverse ForwardMessage

record PortForwarder =
  pf_sessions :: "(string \<times> forwardSession) list"
  pf_reverseSessions :: "(string \<times> forwardSession) list"
  pf_net :: net
  pf_cancelled :: "nat list"
  pf_nextCtx :: nat
  pf_accepting :: "(nat \<times> nat \<times> string) list"
  pf_receiving :: "forwardSession list"
  pf_rpcs :: "device_rpc list"

definition NewServer :: "net \<Rightarrow> PortForwarder" where
  "NewServer n =
     \<lparr>pf_sessions = [], pf_reverseSessions = [], pf_net = n, pf_cancelled = [], pf_nextCtx = 0,
      pf_accepting = [], pf_receiving = [], pf_rpcs = []\<rparr>"

definition cancel :: "nat \<Rightarrow> PortForwarder \<Rightarrow> PortForwarder" where
  "cancel c pf = pf\<lparr>pf_cancelled := c # pf_cancelled pf\<rparr>"

definition close_listener :: "nat \<Rightarrow> PortForwarder \<Rightarrow> go_error option \<times> PortForwarder" where
  "close_listener l pf = (case net_close (pf_net pf) l of (e, n) \<Rightarrow> (e, pf\<lparr>pf_net := n\<rparr>))"


section \<open>Handlers\<close>

text \<open>
  \<open>ForwardPort\<close>. The last part of the source's handler, after a possible rebind, is \<open>start_forward\<close>.
\<close>

definition start_forward :: "string \<Rightarrow> string \<Rightarrow> ForwardSession \<Rightarrow> PortForwarder \<Rightarrow> go_error option \<times> PortForwarder" where
  "start_forward kind addr ses pf =
     (case net_listen (pf_net pf) kind addr of
        (Inl e, n) \<Rightarrow> (Some e, pf\<lparr>pf_net := n\<rparr>)
      | (Inr l, n) \<Rightarrow>
          (None, pf\<lparr>pf_net := n, pf_nextCtx := Suc (pf_nextCtx pf),
             pf_sessions := AList.update (fs_src ses)
               \<lparr>ss_src = fs_src ses, ss_dst = fs_dst ses, ss_lis = l, ss_ctx = pf_nextCtx pf\<rparr> (pf_sessions pf),
             pf_accepting := (pf_nextCtx pf, l, fs_dst ses) # pf_accepting pf\<rparr>))"

definition ForwardPort :: "PortForwardRequest \<Rightarrow> PortForwarder \<Rightarrow> go_error option \<times> PortForwarder" where
  "ForwardPort req pf =
     (let ses = pr_session req
      in case ports_parseAddr (fs_src ses) of
           Inl e \<Rightarrow> (Some e, pf)
         | Inr (kind, addr) \<Rightarrow>
             (case ports_parseAddr (fs_dst ses) of
                Inl e \<Rightarrow> (Some e, pf)
              | Inr _ \<Rightarrow>
                  (case map_of (pf_sessions pf) (fs_src ses) of
                     None \<Rightarrow> start_forward kind addr ses pf
                   | Some s \<Rightarrow>
                       if \<not> pr_rebind req
                       then (Some (StatusErr AlreadyExists
                               (''no-rebind specified, can't forward address: '' @ fs_src ses)), pf)
                       else
                         (case close_listener (ss_lis s)
                                 (pf\<lparr>pf_sessions := AList.delete (fs_src ses) (pf_sessions pf)\<rparr>) of
                            (Some e, pf') \<Rightarrow> (Some e, pf')
                          | (None, pf') \<Rightarrow> start_forward kind addr ses pf'))))"

definition Stop :: "PortForwardRequest \<Rightarrow> PortForwarder \<Rightarrow> go_error option \<times> PortForwarder" where
  "Stop req pf =
     (case map_of (pf_sessions pf) (fs_src (pr_session req)) of
        None \<Rightarrow> (None, pf)
      | Some s \<Rightarrow>
          close_listener (ss_lis s)
            ((cancel (ss_ctx s) pf)\<lparr>pf_sessions := AList.delete (fs_src (pr_session req)) (pf_sessions pf)\<rparr>))"

text \<open>\<open>StopAll\<close>: cancel and close each session, in the order of the iteration, then a new table.\<close>

definition stop_one :: "forwardSession \<Rightarrow> PortForwarder \<Rightarrow> PortForwarder" where
  "stop_one s pf = snd (close_listener (ss_lis s) (cancel (ss_ctx s) pf))"

definition StopAll :: "PortForwarder \<Rightarrow> go_error option \<times> PortForwarder" where
  "StopAll pf = (None, (fold stop_one (map snd (pf_sessions pf)) pf)\<lparr>pf_sessions := []\<rparr>)"

definition List_sessions :: "PortForwarder \<Rightarrow> ForwardSession list" where
  "List_sessions pf = map (\<lambda>(_, s). \<lparr>fs_src = ss_src s, fs_dst = ss_dst s\<rparr>) (pf_sessions pf)"

text \<open>
  \<open>stopReverseForwarding\<close>, called by the handlers under the lock and by a receive loop that ends,
  without it; \<open>stopErr\<close> is what the server answers. The context is cancelled whatever happens.
\<close>

definition stopReverseForwarding ::
    "go_error option \<Rightarrow> forwardSession \<Rightarrow> PortForwarder \<Rightarrow> go_error option \<times> PortForwarder"
where
  "stopReverseForwarding stopErr ses pf =
     (case ports_parseAddr (ss_src ses) of
        Inl e \<Rightarrow> (Some e, cancel (ss_ctx ses) pf)
      | Inr (kind, addr) \<Rightarrow>
          let pf1 = pf\<lparr>pf_reverseSessions := AList.delete (ss_src ses) (pf_reverseSessions pf)\<rparr>
          in case networkKind kind of
               Inl e \<Rightarrow> (Some e, cancel (ss_ctx ses) pf1)
             | Inr ntwk \<Rightarrow>
                 (stopErr, cancel (ss_ctx ses)
                    (pf1\<lparr>pf_rpcs := pf_rpcs pf1 @
                       [StopReverse (zeroForwardMessage\<lparr>fm_op := CLOSE, fm_kind := ntwk, fm_addr := addr\<rparr>)]\<rparr>)))"

definition start_reverse ::
    "go_error option \<Rightarrow> PortForwardRequest \<Rightarrow> PortForwarder \<Rightarrow> go_error option \<times> PortForwarder"
where
  "start_reverse startErr req pf =
     (let ses = pr_session req
      in case ports_parseAddr (fs_src ses) of
           Inl e \<Rightarrow> (Some e, pf)
         | Inr (srcKind, srcAddr) \<Rightarrow>
             (case ports_parseAddr (fs_dst ses) of
                Inl e \<Rightarrow> (Some e, pf)
              | Inr _ \<Rightarrow>
                  (case networkKind srcKind of
                     Inl e \<Rightarrow> (Some e, pf)
                   | Inr srcNtwk \<Rightarrow>
                       let ctx = pf_nextCtx pf;
                           pf1 = pf\<lparr>pf_nextCtx := Suc ctx, pf_rpcs := pf_rpcs pf @
                             [StartReverse (zeroForwardMessage\<lparr>fm_op := OPEN, fm_kind := srcNtwk, fm_addr := srcAddr\<rparr>)]\<rparr>;
                           ss = \<lparr>ss_src = fs_src ses, ss_dst = fs_dst ses, ss_lis = 0, ss_ctx = ctx\<rparr>
                       in (case startErr of
                             Some e \<Rightarrow> (Some e, pf1)
                           | None \<Rightarrow>
                               (None, pf1\<lparr>pf_reverseSessions := AList.update (fs_src ses) ss (pf_reverseSessions pf1),
                                  pf_receiving := ss # pf_receiving pf1\<rparr>)))))"

definition ReverseForwardPort ::
    "go_error option \<Rightarrow> go_error option \<Rightarrow> PortForwardRequest \<Rightarrow> PortForwarder \<Rightarrow> go_error option \<times> PortForwarder"
where
  "ReverseForwardPort stopErr startErr req pf =
     (case map_of (pf_reverseSessions pf) (fs_src (pr_session req)) of
        None \<Rightarrow> start_reverse startErr req pf
      | Some rs \<Rightarrow>
          if \<not> pr_rebind req
          then (Some (StatusErr AlreadyExists
                  (''no-rebind specified, can't forward address: '' @ fs_src (pr_session req))), pf)
          else (case stopReverseForwarding stopErr rs pf of
                  (Some e, pf') \<Rightarrow> (Some e, pf')
                | (None, pf') \<Rightarrow> start_reverse startErr req pf'))"

definition StopReverse_handler ::
    "go_error option \<Rightarrow> PortForwardRequest \<Rightarrow> PortForwarder \<Rightarrow> go_error option \<times> PortForwarder"
where
  "StopReverse_handler stopErr req pf =
     (case map_of (pf_reverseSessions pf) (fs_src (pr_session req)) of
        None \<Rightarrow> (None, pf)
      | Some s \<Rightarrow> stopReverseForwarding stopErr s pf)"

text \<open>
  \<open>makeForwarder\<close>: the first message of a forwarding stream, or the error; \<open>rpcErr\<close> and \<open>sendErr\<close> are the
  outcomes of opening the stream and of the send. The stream is opened before the kind is checked.
\<close>

definition makeForwarder :: "go_error option \<Rightarrow> go_error option \<Rightarrow> string \<Rightarrow> ForwardMessage result" where
  "makeForwarder rpcErr sendErr addr =
     (case ports_parseAddr addr of
        Inl e \<Rightarrow> Inl e
      | Inr (kind, a) \<Rightarrow>
          (case rpcErr of
             Some e \<Rightarrow> Inl e
           | None \<Rightarrow>
               (case networkKind kind of
                  Inl e \<Rightarrow> Inl e
                | Inr ntwk \<Rightarrow>
                    (case sendErr of
                       Some e \<Rightarrow> Inl e
                     | None \<Rightarrow> Inr (zeroForwardMessage\<lparr>fm_kind := ntwk, fm_addr := a\<rparr>)))))"


text \<open>
  One turn of the accept loop after \<open>Accept\<close> returned a connection: the connection is closed when no
  forwarder can be made for it, otherwise it is handed to a forwarder. The loop goes on either way.
\<close>

datatype accepted = CloseConn go_error | ForwardConn ForwardMessage

definition accept_turn :: "go_error option \<Rightarrow> go_error option \<Rightarrow> string \<Rightarrow> accepted" where
  "accept_turn rpcErr sendErr dst =
     (case makeForwarder rpcErr sendErr dst of Inl e \<Rightarrow> CloseConn e | Inr m \<Rightarrow> ForwardConn m)"

text \<open>
  One turn of the receive loop of a reverse session: what \<open>ncs.Recv\<close> returned, the outcomes of
  \<open>ReverseForward\<close>, of the send and of the dial. The message sent names the connection the server
  accepted, or the address of the session when the server names none.
\<close>

datatype received = EndLoop | DialFailed ForwardMessage | Piped ForwardMessage

definition receive_turn ::
    "fkind \<Rightarrow> string \<Rightarrow> ForwardMessage result \<Rightarrow> go_error option \<Rightarrow> go_error option \<Rightarrow> go_error option \<Rightarrow> received"
where
  "receive_turn srcNtwk srcAddr recv openErr sendErr dialErr =
     (case recv of
        Inl _ \<Rightarrow> EndLoop
      | Inr fwd \<Rightarrow>
          if fm_op fwd \<noteq> OPEN then EndLoop
          else if openErr \<noteq> None then EndLoop
          else
            let named = fm_kind fwd \<noteq> UNSET \<and> fm_addr fwd \<noteq> [];
                m = zeroForwardMessage\<lparr>fm_op := OPEN,
                      fm_kind := (if named then fm_kind fwd else srcNtwk),
                      fm_addr := (if named then fm_addr fwd else srcAddr)\<rparr>
            in if sendErr \<noteq> None then EndLoop
               else if dialErr \<noteq> None then DialFailed m else Piped m)"


section \<open>Steps\<close>

text \<open>
  Requests, and the goroutines. An accept loop ends when \<open>Accept\<close> fails, which it does when the
  listener is closed and may do at any time; it then closes the listener and cancels its context.
  A receive loop ends when the server's stream ends or fails; it then stops its session.
\<close>

inductive pf_step :: "PortForwarder \<Rightarrow> PortForwarder \<Rightarrow> bool" where
  rpc_forward: "pf_step pf (snd (ForwardPort req pf))"
| rpc_stop: "pf_step pf (snd (Stop req pf))"
| rpc_stopAll: "pf_step pf (snd (StopAll pf))"
| rpc_reverse: "pf_step pf (snd (ReverseForwardPort stopErr startErr req pf))"
| rpc_stopReverse: "pf_step pf (snd (StopReverse_handler stopErr req pf))"
| accept_ends: "(c, l, dst) \<in> set (pf_accepting pf) \<Longrightarrow>
    pf_step pf (cancel c (snd (close_listener l (pf\<lparr>pf_accepting := remove1 (c, l, dst) (pf_accepting pf)\<rparr>))))"
| receive_ends: "ss \<in> set (pf_receiving pf) \<Longrightarrow>
    pf_step pf (snd (stopReverseForwarding stopErr ss (pf\<lparr>pf_receiving := remove1 ss (pf_receiving pf)\<rparr>)))"

inductive pf_reach :: "net \<Rightarrow> PortForwarder \<Rightarrow> bool" for n where
  start: "nt_open n = [] \<Longrightarrow> pf_reach n (NewServer n)"
| step: "pf_reach n pf \<Longrightarrow> pf_step pf pf' \<Longrightarrow> pf_reach n pf'"


section \<open>The session table and the listeners\<close>

definition live :: "PortForwarder \<Rightarrow> forwardSession \<Rightarrow> bool" where
  "live pf s \<longleftrightarrow> (ss_ctx s, ss_lis s, ss_dst s) \<in> set (pf_accepting pf)"

definition is_open :: "PortForwarder \<Rightarrow> nat \<Rightarrow> bool" where
  "is_open pf l \<longleftrightarrow> l \<in> fst ` set (nt_open (pf_net pf))"

definition pf_inv :: "PortForwarder \<Rightarrow> bool" where
  "pf_inv pf \<longleftrightarrow>
     distinct (map fst (pf_sessions pf)) \<and>
     (\<forall>(k, s) \<in> set (pf_sessions pf). k = ss_src s \<and> ss_lis s < nt_next (pf_net pf)) \<and>
     (\<forall>l. is_open pf l \<longrightarrow> l < nt_next (pf_net pf)) \<and>
     (\<forall>l. is_open pf l \<longrightarrow> (\<exists>(k, s) \<in> set (pf_sessions pf). ss_lis s = l \<and> live pf s)) \<and>
     (\<forall>(k, s) \<in> set (pf_sessions pf). live pf s \<or> (\<not> is_open pf (ss_lis s) \<and> ss_ctx s \<in> set (pf_cancelled pf)))"

lemma pf_invI:
  assumes "distinct (map fst (pf_sessions pf))"
    and "\<And>k s. (k, s) \<in> set (pf_sessions pf) \<Longrightarrow> k = ss_src s \<and> ss_lis s < nt_next (pf_net pf)"
    and "\<And>l. is_open pf l \<Longrightarrow> l < nt_next (pf_net pf)"
    and "\<And>l. is_open pf l \<Longrightarrow> \<exists>k s. (k, s) \<in> set (pf_sessions pf) \<and> ss_lis s = l \<and> live pf s"
    and "\<And>k s. (k, s) \<in> set (pf_sessions pf) \<Longrightarrow>
           live pf s \<or> (\<not> is_open pf (ss_lis s) \<and> ss_ctx s \<in> set (pf_cancelled pf))"
  shows "pf_inv pf"
  unfolding pf_inv_def using assms by fast

lemma pf_invD:
  assumes "pf_inv pf"
  shows "distinct (map fst (pf_sessions pf))"
    and "(k, s) \<in> set (pf_sessions pf) \<Longrightarrow> k = ss_src s \<and> ss_lis s < nt_next (pf_net pf)"
    and "is_open pf l \<Longrightarrow> l < nt_next (pf_net pf)"
    and "is_open pf l \<Longrightarrow> \<exists>k s. (k, s) \<in> set (pf_sessions pf) \<and> ss_lis s = l \<and> live pf s"
    and "(k, s) \<in> set (pf_sessions pf) \<Longrightarrow>
           live pf s \<or> (\<not> is_open pf (ss_lis s) \<and> ss_ctx s \<in> set (pf_cancelled pf))"
  using assms unfolding pf_inv_def by fast+

lemma close_listener_simps [simp]:
  "pf_sessions (snd (close_listener l pf)) = pf_sessions pf"
  "pf_reverseSessions (snd (close_listener l pf)) = pf_reverseSessions pf"
  "pf_cancelled (snd (close_listener l pf)) = pf_cancelled pf"
  "pf_nextCtx (snd (close_listener l pf)) = pf_nextCtx pf"
  "pf_accepting (snd (close_listener l pf)) = pf_accepting pf"
  "pf_receiving (snd (close_listener l pf)) = pf_receiving pf"
  "pf_rpcs (snd (close_listener l pf)) = pf_rpcs pf"
  "nt_next (pf_net (snd (close_listener l pf))) = nt_next (pf_net pf)"
  "nt_refuse (pf_net (snd (close_listener l pf))) = nt_refuse (pf_net pf)"
  by (auto simp: close_listener_def net_close_def)

lemma is_open_close [simp]: "is_open (snd (close_listener l pf)) i \<longleftrightarrow> is_open pf i \<and> i \<noteq> l"
  by (auto simp: close_listener_def net_close_def is_open_def)

lemma nt_open_close: "nt_open (pf_net (snd (close_listener l pf))) = filter (\<lambda>p. fst p \<noteq> l) (nt_open (pf_net pf))"
  by (auto simp: close_listener_def net_close_def intro!: filter_True [symmetric])

lemma close_listener_err: "fst (close_listener l pf) = (if is_open pf l then None else Some errUseOfClosed)"
  by (auto simp: close_listener_def net_close_def is_open_def)

lemma cancel_simps [simp]:
  "pf_sessions (cancel c pf) = pf_sessions pf" "pf_reverseSessions (cancel c pf) = pf_reverseSessions pf"
  "pf_net (cancel c pf) = pf_net pf" "pf_cancelled (cancel c pf) = c # pf_cancelled pf"
  "pf_nextCtx (cancel c pf) = pf_nextCtx pf" "pf_accepting (cancel c pf) = pf_accepting pf"
  "pf_receiving (cancel c pf) = pf_receiving pf" "pf_rpcs (cancel c pf) = pf_rpcs pf"
  by (simp_all add: cancel_def)

lemma is_open_frame [simp]:
  "is_open (cancel c pf) l = is_open pf l"
  "is_open (pf\<lparr>pf_sessions := ss\<rparr>) l = is_open pf l"
  "is_open (pf\<lparr>pf_accepting := gs\<rparr>) l = is_open pf l"
  by (simp_all add: is_open_def)

lemma live_frame [simp]:
  "live (cancel c pf) s = live pf s"
  "live (pf\<lparr>pf_sessions := ss\<rparr>) s = live pf s"
  "live (snd (close_listener l pf)) s = live pf s"
  by (simp_all add: live_def)

lemma set_alist_delete: "set (AList.delete k xs) = {p \<in> set xs. fst p \<noteq> k}"
  by (auto simp: AList.delete_eq)

lemma set_alist_update:
  "distinct (map fst xs) \<Longrightarrow> set (AList.update k v xs) = insert (k, v) {p \<in> set xs. fst p \<noteq> k}"
proof (induction xs)
  case (Cons p xs)
  then show ?case by (cases p) (force simp: image_iff)
qed simp

lemmas pf_table = set_alist_delete set_alist_update distinct_update distinct_delete

text \<open>What starting a session and dropping one do to the invariant.\<close>

lemma pf_inv_cancel: "pf_inv pf \<Longrightarrow> pf_inv (cancel c pf)"
  unfolding pf_inv_def by auto

lemma pf_inv_drop:
  assumes inv: "pf_inv pf" and s: "(k, s) \<in> set (pf_sessions pf)"
  shows "pf_inv (snd (close_listener (ss_lis s) (pf\<lparr>pf_sessions := AList.delete k (pf_sessions pf)\<rparr>)))"
proof (rule pf_invI, goal_cases)
  case (4 l)
  then have "is_open pf l" "l \<noteq> ss_lis s" by simp_all
  then obtain k' s' where s': "(k', s') \<in> set (pf_sessions pf)" "ss_lis s' = l" "live pf s'"
    using pf_invD(4) [OF inv] by blast
  have "k' \<noteq> k"
    using eq_key_imp_eq_value [OF pf_invD(1) [OF inv] s] s' \<open>l \<noteq> ss_lis s\<close> by auto
  with s' show ?case by (auto simp: pf_table intro!: exI [of _ k'] exI [of _ s'])
next
  case (5 k' s')
  then show ?case using pf_invD(5) [OF inv, of k' s'] by (auto simp: pf_table)
qed (use pf_invD(1-3) [OF inv] in \<open>auto simp: pf_table\<close>)

lemma start_forward_cases:
  assumes "start_forward kind addr ses pf = (e, pf')"
  obtains (refused) err where "nt_refuse (pf_net pf) (map snd (nt_open (pf_net pf))) kind addr = Some err"
      "e = Some err" "pf' = pf"
    | (ok) l where "nt_refuse (pf_net pf) (map snd (nt_open (pf_net pf))) kind addr = None"
      "e = None" "l = nt_next (pf_net pf)"
      "pf' = pf\<lparr>pf_net := (pf_net pf)\<lparr>nt_open := (l, kind, addr) # nt_open (pf_net pf), nt_next := Suc l\<rparr>,
         pf_nextCtx := Suc (pf_nextCtx pf),
         pf_sessions := AList.update (fs_src ses)
           \<lparr>ss_src = fs_src ses, ss_dst = fs_dst ses, ss_lis = l, ss_ctx = pf_nextCtx pf\<rparr> (pf_sessions pf),
         pf_accepting := (pf_nextCtx pf, l, fs_dst ses) # pf_accepting pf\<rparr>"
  using assms unfolding start_forward_def net_listen_def by (auto split: option.splits)

lemma pf_inv_start_forward:
  assumes inv: "pf_inv pf" and new: "map_of (pf_sessions pf) (fs_src ses) = None"
  shows "pf_inv (snd (start_forward kind addr ses pf))"
proof (cases "start_forward kind addr ses pf")
  case (Pair e pf')
  then show ?thesis
  proof (cases rule: start_forward_cases)
    case (ok l)
    have upd: "set (pf_sessions pf') = insert (fs_src ses, \<lparr>ss_src = fs_src ses, ss_dst = fs_dst ses, ss_lis = l, ss_ctx = pf_nextCtx pf\<rparr>) (set (pf_sessions pf))"
      using new by (auto simp: ok pf_table pf_invD(1) [OF inv] map_of_eq_None_iff image_iff)
    have op: "is_open pf' i \<longleftrightarrow> i = l \<or> is_open pf i" for i by (auto simp: ok is_open_def)
    have old: "live pf s \<Longrightarrow> live pf' s" for s by (auto simp: ok live_def)
    have now: "live pf' \<lparr>ss_src = a, ss_dst = fs_dst ses, ss_lis = l, ss_ctx = pf_nextCtx pf\<rparr>" for a
      by (simp add: ok live_def)
    have nx: "nt_next (pf_net pf') = Suc l" and cn: "pf_cancelled pf' = pf_cancelled pf" by (simp_all add: ok)
    have "pf_inv pf'"
    proof (rule pf_invI, goal_cases)
      case 1 show ?case by (simp add: ok distinct_update pf_invD(1) [OF inv])
    next
      case (2 k s) then show ?case using pf_invD(2) [OF inv, of k s] ok(3) by (auto simp: upd nx)
    next
      case (3 i) then show ?case using pf_invD(3) [OF inv, of i] ok(3) by (auto simp: op nx)
    next
      case (4 i)
      show ?case
      proof (cases "i = l")
        case True
        then show ?thesis using now [of "fs_src ses"] upd forwardSession.select_convs(3) by (metis insertI1)
      next
        case False
        then show ?thesis using 4 pf_invD(4) [OF inv, of i] old by (auto simp: op upd)
      qed
    next
      case (5 k s)
      then consider "live pf' s" | "(k, s) \<in> set (pf_sessions pf)" using now by (auto simp: upd)
      then show ?case
      proof cases
        case 2
        then show ?thesis using pf_invD(2,5) [OF inv, of k s] old ok(3) by (auto simp: op cn)
      qed simp
    qed
    then show ?thesis by (simp add: Pair)
  qed (simp_all add: Pair inv)
qed

text \<open>Both addresses of a session can be parsed.\<close>

definition wf_session :: "ForwardSession \<Rightarrow> bool" where
  "wf_session f \<longleftrightarrow>
     (case ports_parseAddr (fs_src f) of
        Inl _ \<Rightarrow> False
      | Inr _ \<Rightarrow> (case ports_parseAddr (fs_dst f) of Inl _ \<Rightarrow> False | Inr _ \<Rightarrow> True))"

lemma ForwardPort_cases:
  assumes "ForwardPort req pf = (e, pf')"
  obtains (bad) err where "\<not> wf_session (pr_session req)" "e = Some err" "pf' = pf"
    | (no_rebind) s where "wf_session (pr_session req)" "map_of (pf_sessions pf) (fs_src (pr_session req)) = Some s" "\<not> pr_rebind req" "pf' = pf"
        "e = Some (StatusErr AlreadyExists (''no-rebind specified, can't forward address: '' @ fs_src (pr_session req)))"
    | (stale) s where "wf_session (pr_session req)" "map_of (pf_sessions pf) (fs_src (pr_session req)) = Some s" "pr_rebind req"
        "\<not> is_open pf (ss_lis s)" "e = Some errUseOfClosed"
        "pf' = snd (close_listener (ss_lis s) (pf\<lparr>pf_sessions := AList.delete (fs_src (pr_session req)) (pf_sessions pf)\<rparr>))"
    | (rebind) s kind addr where "wf_session (pr_session req)" "map_of (pf_sessions pf) (fs_src (pr_session req)) = Some s" "pr_rebind req"
        "is_open pf (ss_lis s)" "ports_parseAddr (fs_src (pr_session req)) = Inr (kind, addr)"
        "start_forward kind addr (pr_session req) (snd (close_listener (ss_lis s)
           (pf\<lparr>pf_sessions := AList.delete (fs_src (pr_session req)) (pf_sessions pf)\<rparr>))) = (e, pf')"
    | (fresh) kind addr where "wf_session (pr_session req)" "map_of (pf_sessions pf) (fs_src (pr_session req)) = None"
        "ports_parseAddr (fs_src (pr_session req)) = Inr (kind, addr)"
        "start_forward kind addr (pr_session req) pf = (e, pf')"
proof (cases "ports_parseAddr (fs_src (pr_session req))")
  case src: (Inr p)
  obtain kind addr where p: "p = (kind, addr)" by fastforce
  show ?thesis
  proof (cases "ports_parseAddr (fs_dst (pr_session req))")
    case dst: (Inr q)
    have wf: "wf_session (pr_session req)" by (simp add: wf_session_def src dst)
    show ?thesis
    proof (cases "map_of (pf_sessions pf) (fs_src (pr_session req))")
      case None
      then show ?thesis using assms fresh [OF wf] by (simp add: ForwardPort_def Let_def src dst p)
    next
      case s: (Some s)
      let ?c = "close_listener (ss_lis s) (pf\<lparr>pf_sessions := AList.delete (fs_src (pr_session req)) (pf_sessions pf)\<rparr>)"
      have "ForwardPort req pf =
          (if \<not> pr_rebind req then (Some (StatusErr AlreadyExists
              (''no-rebind specified, can't forward address: '' @ fs_src (pr_session req))), pf)
           else case fst ?c of Some e \<Rightarrow> (Some e, snd ?c) | None \<Rightarrow> start_forward kind addr (pr_session req) (snd ?c))"
        by (simp add: ForwardPort_def Let_def src dst p s split: prod.splits option.splits)
      then show ?thesis
        using assms no_rebind [OF wf s] stale [OF wf s] rebind [OF wf s] src
        by (auto simp: close_listener_err p split: if_splits)
    qed
  next
    case dst: (Inl err)
    show ?thesis
      by (rule bad [of err]) (use assms in \<open>simp_all add: ForwardPort_def Let_def wf_session_def src dst p\<close>)
  qed
next
  case src: (Inl err)
  show ?thesis by (rule bad [of err]) (use assms in \<open>simp_all add: ForwardPort_def Let_def wf_session_def src\<close>)
qed

lemma pf_inv_ForwardPort: "pf_inv pf \<Longrightarrow> pf_inv (snd (ForwardPort req pf))"
proof (cases "ForwardPort req pf")
  case (Pair e pf')
  assume inv: "pf_inv pf"
  from Pair have "pf_inv pf'"
  proof (cases rule: ForwardPort_cases)
    case (stale s)
    show ?thesis using pf_inv_drop [OF inv map_of_SomeD [OF stale(2)]] by (simp add: stale)
  next
    case (rebind s kind addr)
    have "map_of (AList.delete (fs_src (pr_session req)) (pf_sessions pf)) (fs_src (pr_session req)) = None"
      by (simp add: AList.delete_conv)
    then show ?thesis
      using pf_inv_start_forward [OF pf_inv_drop [OF inv map_of_SomeD [OF rebind(2)]], of "pr_session req" kind addr]
      by (simp add: rebind)
  next
    case (fresh kind addr)
    then show ?thesis using pf_inv_start_forward [OF inv, of "pr_session req" kind addr] by simp
  qed (simp_all add: inv)
  then show ?thesis by (simp add: Pair)
qed

lemma pf_inv_Stop: "pf_inv pf \<Longrightarrow> pf_inv (snd (Stop req pf))"
  using pf_inv_drop [OF pf_inv_cancel] map_of_SomeD by (fastforce simp: Stop_def split: option.splits)

lemma fold_stop_one [simp]:
  "pf_sessions (fold stop_one ss pf) = pf_sessions pf"
  "pf_reverseSessions (fold stop_one ss pf) = pf_reverseSessions pf"
  "pf_accepting (fold stop_one ss pf) = pf_accepting pf"
  "pf_receiving (fold stop_one ss pf) = pf_receiving pf"
  "pf_rpcs (fold stop_one ss pf) = pf_rpcs pf"
  "set (pf_cancelled (fold stop_one ss pf)) = ss_ctx ` set ss \<union> set (pf_cancelled pf)"
  "is_open (fold stop_one ss pf) l \<longleftrightarrow> is_open pf l \<and> l \<notin> ss_lis ` set ss"
  by (induction ss arbitrary: pf) (auto simp: stop_one_def)

lemma StopAll_closes: "pf_inv pf \<Longrightarrow> nt_open (pf_net (snd (StopAll pf))) = []"
proof -
  assume inv: "pf_inv pf"
  have "\<not> is_open (snd (StopAll pf)) l" for l
    using pf_invD(4) [OF inv, of l] by (force simp: StopAll_def)
  then show ?thesis by (simp add: is_open_def image_iff) (metis list.set_sel(1))
qed

lemma pf_inv_StopAll: "pf_inv pf \<Longrightarrow> pf_inv (snd (StopAll pf))"
  using StopAll_closes [of pf] by (intro pf_invI) (auto simp: is_open_def, auto simp: StopAll_def)

lemma reverse_frame:
  "pf' = snd (stopReverseForwarding stopErr ses pf) \<Longrightarrow>
     pf_sessions pf' = pf_sessions pf \<and> pf_net pf' = pf_net pf \<and> pf_accepting pf' = pf_accepting pf \<and>
     pf_cancelled pf' = ss_ctx ses # pf_cancelled pf \<and> pf_receiving pf' = pf_receiving pf"
  "pf' = snd (start_reverse startErr req pf) \<Longrightarrow>
     pf_sessions pf' = pf_sessions pf \<and> pf_net pf' = pf_net pf \<and> pf_accepting pf' = pf_accepting pf \<and>
     pf_cancelled pf' = pf_cancelled pf \<and> set (pf_receiving pf) \<subseteq> set (pf_receiving pf')"
  by (auto simp: stopReverseForwarding_def start_reverse_def Let_def split: sum.splits option.splits)

lemma pf_inv_frame:
  "pf_inv pf \<Longrightarrow> pf_sessions pf' = pf_sessions pf \<Longrightarrow> pf_net pf' = pf_net pf \<Longrightarrow>
     pf_accepting pf' = pf_accepting pf \<Longrightarrow> set (pf_cancelled pf) \<subseteq> set (pf_cancelled pf') \<Longrightarrow> pf_inv pf'"
  unfolding pf_inv_def live_def is_open_def by (auto 4 4)

lemma pf_inv_stop_reverse: "pf_inv pf \<Longrightarrow> pf_inv (snd (stopReverseForwarding stopErr ses pf))"
  using reverse_frame(1) [OF refl, of stopErr ses pf] by (auto intro: pf_inv_frame)

lemma pf_inv_start_reverse: "pf_inv pf \<Longrightarrow> pf_inv (snd (start_reverse startErr req pf))"
  using reverse_frame(2) [OF refl, of startErr req pf] by (auto intro: pf_inv_frame)

lemma pf_inv_ReverseForwardPort: "pf_inv pf \<Longrightarrow> pf_inv (snd (ReverseForwardPort stopErr startErr req pf))"
  using pf_inv_start_reverse pf_inv_stop_reverse
  by (cases "map_of (pf_reverseSessions pf) (fs_src (pr_session req))")
    (simp_all add: ReverseForwardPort_def split: prod.splits option.splits, (metis snd_conv)+)

lemma pf_inv_StopReverse: "pf_inv pf \<Longrightarrow> pf_inv (snd (StopReverse_handler stopErr req pf))"
  using pf_inv_stop_reverse by (auto simp: StopReverse_handler_def split: option.splits)

text \<open>
  An accept loop that ends closes its listener and cancels its context, so a session of the table
  that it served becomes stale; no other session is touched, since no two accept loops of the table
  share a listener.
\<close>

lemma pf_inv_accept_ends:
  assumes inv: "pf_inv pf" and g: "(c, l, dst) \<in> set (pf_accepting pf)"
  shows "pf_inv (cancel c (snd (close_listener l (pf\<lparr>pf_accepting := remove1 (c, l, dst) (pf_accepting pf)\<rparr>))))"
    (is "pf_inv ?q")
proof -
  have keep: "live ?q s" if "live pf s" "(ss_ctx s, ss_lis s, ss_dst s) \<noteq> (c, l, dst)" for s
    using that by (auto simp: live_def)
  show ?thesis
  proof (rule pf_invI, goal_cases)
    case (4 i)
    then show ?case using pf_invD(4) [OF inv, of i] keep by fastforce
  next
    case (5 k s)
    then show ?case using pf_invD(5) [OF inv, of k s] keep [of s] by auto
  qed (use pf_invD(1-3) [OF inv] in auto)
qed

lemma pf_inv_step: "pf_step pf pf' \<Longrightarrow> pf_inv pf \<Longrightarrow> pf_inv pf'"
proof (induction rule: pf_step.induct)
  case (receive_ends ss pf stopErr)
  then have "pf_inv (pf\<lparr>pf_receiving := remove1 ss (pf_receiving pf)\<rparr>)" by (auto intro: pf_inv_frame)
  then show ?case by (rule pf_inv_stop_reverse)
qed (blast intro: pf_inv_ForwardPort pf_inv_Stop pf_inv_StopAll pf_inv_ReverseForwardPort pf_inv_StopReverse
       pf_inv_accept_ends)+

lemma pf_reach_inv: "pf_reach n pf \<Longrightarrow> pf_inv pf"
proof (induction rule: pf_reach.induct)
  case start
  then show ?case by (auto simp: pf_inv_def NewServer_def is_open_def)
qed (rule pf_inv_step)


section \<open>The service the clients see\<close>

text \<open>
  What a client of the daemon may rely on: a partial map from source to destination addresses. A
  successful forward binds the source, a stop unbinds it; a refused forward leaves the map alone,
  unless it is a well-formed rebind, which unbinds the source.
\<close>

datatype request = Fwd PortForwardRequest | StopFwd PortForwardRequest | StopEverything

definition spec_forward ::
    "(ForwardSession \<Rightarrow> bool) \<Rightarrow> PortForwardRequest \<Rightarrow> go_error option \<Rightarrow> (string \<rightharpoonup> string) \<Rightarrow> (string \<rightharpoonup> string)"
where
  "spec_forward wfs req err t =
     (let src = fs_src (pr_session req)
      in if err = None then t(src \<mapsto> fs_dst (pr_session req))
         else if pr_rebind req \<and> wfs (pr_session req) then t(src := None) else t)"

fun spec_step ::
    "(ForwardSession \<Rightarrow> bool) \<Rightarrow> request \<times> go_error option \<Rightarrow> (string \<rightharpoonup> string) \<Rightarrow> (string \<rightharpoonup> string)"
where
  "spec_step wfs (Fwd q, e) t = spec_forward wfs q e t"
| "spec_step wfs (StopFwd q, e) t = t(fs_src (pr_session q) := None)"
| "spec_step wfs (StopEverything, e) t = Map.empty"

definition serve_one ::
    "(PortForwardRequest \<Rightarrow> 's \<Rightarrow> go_error option \<times> 's) \<Rightarrow> (PortForwardRequest \<Rightarrow> 's \<Rightarrow> go_error option \<times> 's) \<Rightarrow>
     ('s \<Rightarrow> go_error option \<times> 's) \<Rightarrow> request \<Rightarrow> 's \<Rightarrow> go_error option \<times> 's"
where
  "serve_one forward stop stopAll r s =
     (case r of Fwd q \<Rightarrow> forward q s | StopFwd q \<Rightarrow> stop q s | StopEverything \<Rightarrow> stopAll s)"

fun serve :: "(request \<Rightarrow> 's \<Rightarrow> go_error option \<times> 's) \<Rightarrow> request list \<Rightarrow> 's \<Rightarrow> (request \<times> go_error option) list \<times> 's" where
  "serve f [] s = ([], s)"
| "serve f (r # rs) s = (case f r s of (e, s') \<Rightarrow> (case serve f rs s' of (es, s'') \<Rightarrow> ((r, e) # es, s'')))"

locale port_service =
  fixes inv :: "'s \<Rightarrow> bool"
    and wfs :: "ForwardSession \<Rightarrow> bool"
    and table :: "'s \<Rightarrow> string \<rightharpoonup> string"
    and forward :: "PortForwardRequest \<Rightarrow> 's \<Rightarrow> go_error option \<times> 's"
    and stop :: "PortForwardRequest \<Rightarrow> 's \<Rightarrow> go_error option \<times> 's"
    and stopAll :: "'s \<Rightarrow> go_error option \<times> 's"
    and listing :: "'s \<Rightarrow> ForwardSession list"
  assumes inv_forward: "inv s \<Longrightarrow> inv (snd (forward r s))"
    and inv_stop: "inv s \<Longrightarrow> inv (snd (stop r s))"
    and inv_stopAll: "inv s \<Longrightarrow> inv (snd (stopAll s))"
    and forward_table: "inv s \<Longrightarrow> table (snd (forward r s)) = spec_forward wfs r (fst (forward r s)) (table s)"
    and forward_wf: "fst (forward r s) = None \<Longrightarrow> wfs (pr_session r)"
    and forward_busy: "inv s \<Longrightarrow> table s (fs_src (pr_session r)) \<noteq> None \<Longrightarrow> \<not> pr_rebind r \<Longrightarrow> fst (forward r s) \<noteq> None"
    and stop_table: "inv s \<Longrightarrow> table (snd (stop r s)) = (table s)(fs_src (pr_session r) := None)"
    and stopAll_table: "inv s \<Longrightarrow> table (snd (stopAll s)) = Map.empty"
    and listing_table: "inv s \<Longrightarrow> distinct (listing s) \<and> set (listing s) = {f. table s (fs_src f) = Some (fs_dst f)}"
begin

lemma serve_refines:
  "inv s \<Longrightarrow> serve (serve_one forward stop stopAll) rs s = (es, s') \<Longrightarrow>
     inv s' \<and> map fst es = rs \<and> table s' = fold (spec_step wfs) es (table s)"
proof (induction rs arbitrary: s es)
  case (Cons r rs)
  let ?x = "serve_one forward stop stopAll r s"
  obtain es1 where es: "es = (r, fst ?x) # es1" "serve (serve_one forward stop stopAll) rs (snd ?x) = (es1, s')"
    using Cons.prems(2) by (auto split: prod.splits)
  have "inv (snd ?x)"
    using Cons.prems(1) by (auto simp: serve_one_def inv_forward inv_stop inv_stopAll split: request.splits)
  moreover have "table (snd ?x) = spec_step wfs (r, fst ?x) (table s)"
    using Cons.prems(1) by (auto simp: serve_one_def forward_table stop_table stopAll_table split: request.splits)
  ultimately show ?case using Cons.IH [OF _ es(2)] by (simp add: es(1))
qed simp

lemma listing_after_forward:
  assumes "inv s" "forward r s = (None, s')"
  shows "filter (\<lambda>f. fs_src f = fs_src (pr_session r)) (listing s') = [pr_session r]"
    and "fs_src f \<noteq> fs_src (pr_session r) \<Longrightarrow> f \<in> set (listing s') \<longleftrightarrow> f \<in> set (listing s)"
proof -
  have t: "table s' = (table s)(fs_src (pr_session r) \<mapsto> fs_dst (pr_session r))"
    using forward_table [OF assms(1), of r] assms(2) by (simp add: spec_forward_def)
  have inv': "inv s'" using inv_forward [OF assms(1), of r] assms(2) by simp
  let ?xs = "filter (\<lambda>f. fs_src f = fs_src (pr_session r)) (listing s')"
  have "distinct ?xs" "set ?xs = {pr_session r}" using listing_table [OF inv'] by (auto simp: t)
  then show "?xs = [pr_session r]" by (cases ?xs) (auto simp: subset_singleton_iff insert_ident)
  show "fs_src f \<noteq> fs_src (pr_session r) \<Longrightarrow> f \<in> set (listing s') \<longleftrightarrow> f \<in> set (listing s)"
    using listing_table [OF inv'] listing_table [OF assms(1)] by (simp add: t)
qed

lemma listing_after_stop: "inv s \<Longrightarrow> f \<in> set (listing (snd (stop r s))) \<longleftrightarrow>
    f \<in> set (listing s) \<and> fs_src f \<noteq> fs_src (pr_session r)"
  using listing_table [OF inv_stop, of s r] listing_table [of s] by (simp add: stop_table)

end

definition table_of :: "PortForwarder \<Rightarrow> string \<rightharpoonup> string" where
  "table_of pf k = map_option ss_dst (map_of (pf_sessions pf) k)"

lemma table_of_start_forward:
  "start_forward kind addr ses pf = (e, pf') \<Longrightarrow>
     table_of pf' = (if e = None then (table_of pf)(fs_src ses \<mapsto> fs_dst ses) else table_of pf)"
  by (erule start_forward_cases) (auto simp: table_of_def update_conv' fun_eq_iff)

lemma table_of_drop [simp]:
  "table_of (snd (close_listener l (pf\<lparr>pf_sessions := AList.delete k (pf_sessions pf)\<rparr>))) = (table_of pf)(k := None)"
  "table_of (snd (close_listener l ((cancel c pf)\<lparr>pf_sessions := AList.delete k (pf_sessions pf)\<rparr>))) = (table_of pf)(k := None)"
  by (auto simp: table_of_def delete_conv' fun_eq_iff)

lemma table_of_ForwardPort:
  "table_of (snd (ForwardPort req pf)) = spec_forward wf_session req (fst (ForwardPort req pf)) (table_of pf)"
proof (cases "ForwardPort req pf")
  case (Pair e pf')
  then show ?thesis
  proof (cases rule: ForwardPort_cases)
    case (rebind s kind addr)
    then show ?thesis by (simp add: Pair table_of_start_forward [OF rebind(6)] spec_forward_def Let_def)
  next
    case (fresh kind addr)
    then show ?thesis
      by (auto simp: Pair table_of_start_forward [OF fresh(4)] spec_forward_def Let_def table_of_def fun_eq_iff)
  qed (simp_all add: Pair spec_forward_def Let_def)
qed

lemma table_of_Stop: "table_of (snd (Stop req pf)) = (table_of pf)(fs_src (pr_session req) := None)"
  by (auto simp: Stop_def table_of_def [abs_def] fun_eq_iff delete_conv' split: option.splits)

lemma List_sessions_table:
  assumes inv: "pf_inv pf"
  shows "distinct (List_sessions pf) \<and> set (List_sessions pf) = {f. table_of pf (fs_src f) = Some (fs_dst f)}"
proof
  have key: "\<And>k s. (k, s) \<in> set (pf_sessions pf) \<Longrightarrow> k = ss_src s" using pf_invD(2) [OF inv] by blast
  have d: "distinct (map fst (pf_sessions pf))" by (rule pf_invD(1) [OF inv])
  have "map fs_src (List_sessions pf) = map fst (pf_sessions pf)"
    using key by (auto simp: List_sessions_def)
  with d show "distinct (List_sessions pf)" by (metis distinct_map)
  show "set (List_sessions pf) = {f. table_of pf (fs_src f) = Some (fs_dst f)}"
  proof (rule set_eqI)
    fix f :: ForwardSession
    have "f \<in> set (List_sessions pf) \<longleftrightarrow> (\<exists>s. (fs_src f, s) \<in> set (pf_sessions pf) \<and> fs_dst f = ss_dst s)"
      by (cases f) (auto simp: List_sessions_def image_iff dest: key intro!: bexI)
    then show "f \<in> set (List_sessions pf) \<longleftrightarrow> f \<in> {f. table_of pf (fs_src f) = Some (fs_dst f)}"
      using d by (auto simp: table_of_def)
  qed
qed

interpretation ports: port_service pf_inv wf_session table_of ForwardPort Stop StopAll List_sessions
proof (unfold_locales, goal_cases)
  case (5 r s)
  then show ?case by (cases "ForwardPort r s") (auto elim: ForwardPort_cases)
next
  case (6 s r)
  then show ?case by (cases "ForwardPort r s") (auto elim!: ForwardPort_cases simp: table_of_def)
next
  case (8 s)
  then show ?case by (simp add: StopAll_def table_of_def fun_eq_iff)
qed (simp_all add: pf_inv_ForwardPort pf_inv_Stop pf_inv_StopAll table_of_ForwardPort table_of_Stop List_sessions_table)


section \<open>Properties\<close>

text \<open>
  (C13) The listeners and the session table. In every state the daemon can reach, whatever the order
  of requests and of the ends of its goroutines, a listener is open only for the session recorded
  under its source address, and that session's accept loop is running; a recorded session is served by
  its accept loop, or its listener is closed and its context cancelled. No listener is ever leaked.
\<close>

theorem no_leaked_listener:
  assumes "pf_reach n pf"
  shows "(\<forall>l. is_open pf l \<longrightarrow>
            (\<exists>s. map_of (pf_sessions pf) (ss_src s) = Some s \<and> ss_lis s = l \<and> live pf s)) \<and>
         (\<forall>k s. map_of (pf_sessions pf) k = Some s \<longrightarrow>
            ss_src s = k \<and> (live pf s \<or> \<not> is_open pf (ss_lis s) \<and> ss_ctx s \<in> set (pf_cancelled pf)))"
proof -
  have inv: "pf_inv pf" by (rule pf_reach_inv [OF assms])
  show ?thesis
    using pf_invD(1,2,4,5) [OF inv] by (metis map_of_SomeD map_of_eq_Some_iff)
qed

text \<open>A host whose kernel refuses an address that is bound already.\<close>

definition host_net :: net where
  "host_net = \<lparr>nt_open = [], nt_next = 1,
     nt_refuse = (\<lambda>bs k a. if (k, a) \<in> set bs then Some (SysErr ''bind: address already in use'') else None)\<rparr>"

definition req8080 :: "bool \<Rightarrow> PortForwardRequest" where
  "req8080 rebind = \<lparr>pr_rebind = rebind, pr_session = \<lparr>fs_src = ''tcp:8080'', fs_dst = ''tcp:80''\<rparr>\<rparr>"

lemma parse_8080:
  "ports_parseAddr ''tcp:8080'' = Inr (''tcp'', ''8080'')" "ports_parseAddr ''tcp:80'' = Inr (''tcp'', ''80'')"
  by code_simp+

lemma forward_8080:
  "ForwardPort (req8080 rb) (NewServer host_net) =
     (None, (NewServer host_net)\<lparr>
        pf_net := host_net\<lparr>nt_open := [(1, ''tcp'', ''8080'')], nt_next := 2\<rparr>, pf_nextCtx := 1,
        pf_sessions := [(''tcp:8080'', \<lparr>ss_src = ''tcp:8080'', ss_dst = ''tcp:80'', ss_lis = 1, ss_ctx = 0\<rparr>)],
        pf_accepting := [(0, 1, ''tcp:80'')]\<rparr>)"
  by (simp add: ForwardPort_def req8080_def parse_8080 NewServer_def start_forward_def net_listen_def host_net_def)

lemma reach_8080: "pf_reach host_net (snd (ForwardPort (req8080 rb) (NewServer host_net)))"
  by (rule pf_reach.step [OF pf_reach.start rpc_forward]) (simp add: host_net_def)

theorem no_leaked_listener_witness:
  "let pf = snd (ForwardPort (req8080 False) (NewServer host_net))
   in is_open pf 1 \<and> (\<exists>s. map_of (pf_sessions pf) (ss_src s) = Some s \<and> ss_lis s = 1 \<and> live pf s)"
  using no_leaked_listener [OF reach_8080, of False] by (simp add: Let_def forward_8080 is_open_def)

text \<open>
  (C14) The daemon refines a partial map. Serving any sequence of forward, stop and stop-all requests,
  the table of the daemon is the one the abstract specification gives for the outcomes the requests
  had: a successful forward binds its source, a stop unbinds it, a refused forward changes nothing
  unless it is a well-formed rebind; and \<open>List\<close> reports the table, each session once.
\<close>

theorem sessions_refine_table:
  assumes "pf_reach n pf" and "serve (serve_one ForwardPort Stop StopAll) rs pf = (es, pf')"
  shows "map fst es = rs \<and> table_of pf' = fold (spec_step wf_session) es (table_of pf) \<and>
         distinct (List_sessions pf') \<and>
         set (List_sessions pf') = {f. table_of pf' (fs_src f) = Some (fs_dst f)}"
  using ports.serve_refines [OF pf_reach_inv [OF assms(1)] assms(2)] ports.listing_table [of pf'] by simp

theorem sessions_refine_table_witness:
  "let (es, pf') = serve (serve_one ForwardPort Stop StopAll) [Fwd (req8080 False), Fwd (req8080 False)] (NewServer host_net)
   in map snd es = [None, Some (StatusErr AlreadyExists ''no-rebind specified, can't forward address: tcp:8080'')] \<and>
      table_of pf' = fold (spec_step wf_session) es (table_of (NewServer host_net)) \<and>
      List_sessions pf' = [pr_session (req8080 True)]"
  using sessions_refine_table [OF pf_reach.start refl [of "serve (serve_one ForwardPort Stop StopAll)
      [Fwd (req8080 False), Fwd (req8080 False)] (NewServer host_net)", THEN trans, OF prod.collapse [symmetric]]]
  by (simp add: host_net_def [THEN arg_cong [of _ _ nt_open]] serve_one_def forward_8080 Let_def split_def)
    (simp add: ForwardPort_def req8080_def parse_8080 List_sessions_def)

text \<open>
  \<open>Stop\<close> and \<open>StopAll\<close>. Stopping a session removes it, cancels its context, closes its listener and
  leaves every other listener as it was; \<open>StopAll\<close> leaves no session and no open listener, with every
  context of the table cancelled. Neither touches the reverse sessions.
\<close>

theorem stop_effect:
  assumes "pf_reach n pf" and "map_of (pf_sessions pf) (fs_src (pr_session req)) = Some s"
  shows "table_of (snd (Stop req pf)) = (table_of pf)(fs_src (pr_session req) := None) \<and>
         ss_ctx s \<in> set (pf_cancelled (snd (Stop req pf))) \<and>
         (\<forall>l. is_open (snd (Stop req pf)) l \<longleftrightarrow> is_open pf l \<and> l \<noteq> ss_lis s) \<and>
         pf_reverseSessions (snd (Stop req pf)) = pf_reverseSessions pf \<and>
         pf_sessions (snd (StopAll pf)) = [] \<and> nt_open (pf_net (snd (StopAll pf))) = [] \<and>
         (\<forall>(k, t) \<in> set (pf_sessions pf). ss_ctx t \<in> set (pf_cancelled (snd (StopAll pf)))) \<and>
         pf_reverseSessions (snd (StopAll pf)) = pf_reverseSessions pf"
  using StopAll_closes [OF pf_reach_inv [OF assms(1)]] assms(2)
  by (auto simp: table_of_Stop) (auto simp: Stop_def StopAll_def rev_image_eqI)

theorem stop_effect_witness:
  "let pf = snd (ForwardPort (req8080 False) (NewServer host_net)) in
     is_open pf 1 \<and> \<not> is_open (snd (Stop (req8080 False) pf)) 1 \<and> 0 \<in> set (pf_cancelled (snd (Stop (req8080 False) pf)))"
proof -
  let ?pf = "snd (ForwardPort (req8080 False) (NewServer host_net))"
  have "map_of (pf_sessions ?pf) (fs_src (pr_session (req8080 False))) =
      Some \<lparr>ss_src = ''tcp:8080'', ss_dst = ''tcp:80'', ss_lis = 1, ss_ctx = 0\<rparr>"
    unfolding forward_8080 by (simp add: req8080_def)
  from stop_effect [OF reach_8080 this] show ?thesis
    by (simp add: Let_def) (simp add: forward_8080 is_open_def)
qed

text \<open>
  A failed rebind loses the session. When a recorded address is forwarded again with rebind and
  the kernel refuses the new listener, or the session's listener was closed before because its accept
  loop ended, the request fails and the old session is gone: it is in the table no longer and its
  listener is closed, although the request that would have replaced it was not served.
\<close>

theorem failed_rebind_loses_session:
  assumes "pf_reach n pf" and "map_of (pf_sessions pf) (fs_src (pr_session req)) = Some s"
    and "pr_rebind req" and "wf_session (pr_session req)"
    and "is_open pf (ss_lis s) \<Longrightarrow> \<exists>kind addr e. ports_parseAddr (fs_src (pr_session req)) = Inr (kind, addr) \<and>
           nt_refuse (pf_net pf) (map snd (filter (\<lambda>p. fst p \<noteq> ss_lis s) (nt_open (pf_net pf)))) kind addr = Some e"
  shows "fst (ForwardPort req pf) \<noteq> None \<and>
         table_of (snd (ForwardPort req pf)) = (table_of pf)(fs_src (pr_session req) := None) \<and>
         \<not> is_open (snd (ForwardPort req pf)) (ss_lis s)"
proof -
  obtain e pf' where r: "ForwardPort req pf = (e, pf')" by fastforce
  then have "e \<noteq> None \<and> \<not> is_open pf' (ss_lis s)"
  proof (cases rule: ForwardPort_cases)
    case (rebind s' kind addr)
    then have "nt_refuse (pf_net pf) (map snd (filter (\<lambda>p. fst p \<noteq> ss_lis s) (nt_open (pf_net pf)))) kind addr \<noteq> None"
      and "s' = s" using assms by auto
    with rebind(6) show ?thesis by (auto elim!: start_forward_cases simp: nt_open_close)
  qed (use assms in auto)
  then show ?thesis using table_of_ForwardPort [of req pf] assms(3,4) by (auto simp: r spec_forward_def Let_def)
qed

theorem failed_rebind_loses_session_witness:
  "let pf = snd (ForwardPort (req8080 False) (NewServer host_net));
       pf1 = cancel 0 (snd (close_listener 1 (pf\<lparr>pf_accepting := remove1 (0, 1, ''tcp:80'') (pf_accepting pf)\<rparr>)))
   in fst (ForwardPort (req8080 True) pf1) \<noteq> None \<and> table_of pf1 ''tcp:8080'' = Some ''tcp:80'' \<and>
      table_of (snd (ForwardPort (req8080 True) pf1)) ''tcp:8080'' = None"
proof -
  let ?pf = "snd (ForwardPort (req8080 False) (NewServer host_net))"
  let ?r = "req8080 True" and ?s = "\<lparr>ss_src = ''tcp:8080'', ss_dst = ''tcp:80'', ss_lis = 1, ss_ctx = 0\<rparr>"
  define pf1 where "pf1 = cancel 0 (snd (close_listener 1 (?pf\<lparr>pf_accepting := remove1 (0, 1, ''tcp:80'') (pf_accepting ?pf)\<rparr>)))"
  have reach: "pf_reach host_net pf1"
    unfolding pf1_def by (rule pf_reach.step [OF reach_8080 accept_ends]) (simp add: forward_8080)
  have src: "fs_src (pr_session ?r) = ''tcp:8080''" by (simp add: req8080_def)
  have s: "map_of (pf_sessions pf1) (fs_src (pr_session ?r)) = Some ?s" by (simp add: pf1_def forward_8080 src)
  have wf: "wf_session (pr_session ?r)" and rb: "pr_rebind ?r" by (simp_all add: wf_session_def req8080_def parse_8080)
  have "\<not> is_open pf1 1" by (simp add: pf1_def)
  then show ?thesis
    unfolding Let_def pf1_def [symmetric]
    using failed_rebind_loses_session [OF reach s rb wf] s src by (simp add: table_of_def [of pf1])
qed

text \<open>
  A rebound reverse session is removed by the goroutine of the session it replaced. A successful
  rebind cancels the old session's context, which ends its receive loop; the loop then stops
  \<open>its\<close> session by source address, which is the new one: the table forgets the new session, and the
  device is told to close the address, while the new receive loop is still running.
\<close>

theorem reverse_rebind_is_undone:
  assumes "map_of (pf_reverseSessions pf) (fs_src (pr_session req)) = Some rs" and "rs \<in> set (pf_receiving pf)"
    and "ss_src rs = fs_src (pr_session req)" and "pr_rebind req" and "ss_ctx rs < pf_nextCtx pf"
    and "ports_parseAddr (fs_src (pr_session req)) = Inr (kind, addr)" and "networkKind kind = Inr k"
    and "ports_parseAddr (fs_dst (pr_session req)) = Inr d"
    and "ReverseForwardPort None None req pf = (e, pf1)"
    and "pf2 = snd (stopReverseForwarding stopErr rs (pf1\<lparr>pf_receiving := remove1 rs (pf_receiving pf1)\<rparr>))"
  shows "e = None \<and> ss_ctx rs \<in> set (pf_cancelled pf1) \<and> pf_step pf1 pf2 \<and>
         (\<exists>new. map_of (pf_reverseSessions pf1) (fs_src (pr_session req)) = Some new \<and> ss_ctx new \<noteq> ss_ctx rs \<and>
            new \<in> set (pf_receiving pf2)) \<and>
         map_of (pf_reverseSessions pf2) (fs_src (pr_session req)) = None \<and>
         last (pf_rpcs pf2) = StopReverse (zeroForwardMessage\<lparr>fm_op := CLOSE, fm_kind := k, fm_addr := addr\<rparr>)"
proof -
  let ?new = "\<lparr>ss_src = fs_src (pr_session req), ss_dst = fs_dst (pr_session req), ss_lis = 0, ss_ctx = pf_nextCtx pf\<rparr>"
  have pf1: "e = None" "pf_receiving pf1 = ?new # pf_receiving pf" "ss_ctx rs \<in> set (pf_cancelled pf1)"
    "map_of (pf_reverseSessions pf1) (fs_src (pr_session req)) = Some ?new"
    using assms(1-9) by (auto simp: ReverseForwardPort_def stopReverseForwarding_def start_reverse_def Let_def update_conv)
  have "rs \<noteq> ?new" using assms(5) by auto
  then have "?new \<in> set (remove1 rs (pf_receiving pf1))" by (simp add: pf1)
  moreover have "pf_step pf1 pf2" unfolding assms(10) by (rule receive_ends) (simp add: pf1 assms(2))
  moreover have "pf_receiving pf2 = remove1 rs (pf_receiving pf1)" "map_of (pf_reverseSessions pf2) (fs_src (pr_session req)) = None"
    "last (pf_rpcs pf2) = StopReverse (zeroForwardMessage\<lparr>fm_op := CLOSE, fm_kind := k, fm_addr := addr\<rparr>)"
    unfolding assms(10) using assms(3,6,7) by (simp_all add: stopReverseForwarding_def Let_def delete_conv)
  ultimately show ?thesis using pf1 assms(5) by auto
qed

theorem reverse_rebind_is_undone_witness:
  "let pf = snd (ReverseForwardPort None None (req8080 True) (NewServer host_net));
       pf1 = snd (ReverseForwardPort None None (req8080 True) pf);
       old = \<lparr>ss_src = ''tcp:8080'', ss_dst = ''tcp:80'', ss_lis = 0, ss_ctx = 0\<rparr>;
       pf2 = snd (stopReverseForwarding None old (pf1\<lparr>pf_receiving := remove1 old (pf_receiving pf1)\<rparr>))
   in map_of (pf_reverseSessions pf1) ''tcp:8080'' \<noteq> None \<and> map_of (pf_reverseSessions pf2) ''tcp:8080'' = None \<and>
      pf_step pf1 pf2"
proof -
  let ?r = "req8080 True" and ?old = "\<lparr>ss_src = ''tcp:8080'', ss_dst = ''tcp:80'', ss_lis = 0, ss_ctx = 0\<rparr>"
  define pf where "pf = snd (ReverseForwardPort None None ?r (NewServer host_net))"
  have k: "networkKind ''tcp'' = Inr TCP" by (simp add: networkKind_def)
  have r: "fs_src (pr_session ?r) = ''tcp:8080''" "fs_dst (pr_session ?r) = ''tcp:80''" "pr_rebind ?r"
    by (simp_all add: req8080_def)
  have pf: "pf_receiving pf = [?old]" "pf_reverseSessions pf = [(''tcp:8080'', ?old)]" "pf_nextCtx pf = 1"
    by (simp_all add: pf_def ReverseForwardPort_def start_reverse_def r NewServer_def parse_8080 Let_def k)
  have src: "ports_parseAddr (fs_src (pr_session ?r)) = Inr (''tcp'', ''8080'')"
    and dst: "ports_parseAddr (fs_dst (pr_session ?r)) = Inr (''tcp'', ''80'')" by (simp_all add: r parse_8080)
  have "map_of (pf_reverseSessions pf) (fs_src (pr_session ?r)) = Some ?old" "?old \<in> set (pf_receiving pf)"
    "ss_src ?old = fs_src (pr_session ?r)" "ss_ctx ?old < pf_nextCtx pf" by (simp_all add: pf r)
  from reverse_rebind_is_undone [OF this(1-3) r(3) this(4) src k dst prod.collapse [symmetric] refl, of None]
  show ?thesis unfolding Let_def pf_def [symmetric] by (auto simp: r)
qed

end
