(* ===== verification/FileSys.thy ===== *)
theory FileSys
  imports Prelude "HOL-Library.AList" "HOL-Library.List_Lexorder" "HOL-Library.Char_ord"
begin

text \<open>
  What \<open>stream/tar.go\<close> uses of Go's \<open>path/filepath\<close> and \<open>os\<close> packages: the lexical operations on slash-separated
  paths, and a file system with directories, files and symbolic links. A file system maps absolute paths, as
  lists of names, to nodes; the root is always a directory. Path resolution follows links as the kernel does,
  at most 40 of them; \<open>EvalSymlinks\<close> follows at most 255. Permissions, modes, times, special files and full disks
  are not modelled. An error is a value of \<open>go_error\<close>, and \<open>os.IsNotExist(err)\<close> is \<open>err = NotExist\<close>.
\<close>

section \<open>Lexical paths\<close>

definition comps :: "string \<Rightarrow> string list" where
  "comps s = filter (\<lambda>w. w \<noteq> []) (split_on CHR ''/'' s)"

definition rooted :: "string \<Rightarrow> bool" where
  "rooted s \<longleftrightarrow> prefix ''/'' s"

text \<open>The components of a cleaned path; the second argument is the output so far, last component first.\<close>

fun squash :: "bool \<Rightarrow> string list \<Rightarrow> string list \<Rightarrow> string list" where
  "squash r out [] = rev out"
| "squash r out (c # cs) =
     (if c = ''.'' then squash r out cs
      else if c = ''..'' then
        (case out of
           [] \<Rightarrow> squash r (if r then [] else [''..'']) cs
         | x # xs \<Rightarrow> squash r (if x = ''..'' then ''..'' # out else xs) cs)
      else squash r (c # out) cs)"

definition show_path :: "bool \<Rightarrow> string list \<Rightarrow> string" where
  "show_path r cs = (if r then ''/'' @ str_join cs ''/'' else if cs = [] then ''.'' else str_join cs ''/'')"

definition clean_comps :: "string \<Rightarrow> string list" where
  "clean_comps s = squash (rooted s) [] (comps s)"

definition Clean :: "string \<Rightarrow> string" where
  "Clean s = show_path (rooted s) (clean_comps s)"

definition Join :: "string list \<Rightarrow> string" where
  "Join es = (let es' = filter (\<lambda>e. e \<noteq> []) es in if es' = [] then [] else Clean (str_join es' ''/''))"

definition Dir :: "string \<Rightarrow> string" where
  "Dir s = Clean (rev (dropWhile (\<lambda>c. c \<noteq> CHR ''/'') (rev s)))"

definition Base :: "string \<Rightarrow> string" where
  "Base s =
     (if s = [] then ''.''
      else let t = trim_right s ''/''
           in if t = [] then ''/'' else rev (takeWhile (\<lambda>c. c \<noteq> CHR ''/'') (rev t)))"

fun strip_common :: "string list \<Rightarrow> string list \<Rightarrow> string list \<times> string list" where
  "strip_common (a # as) (b # bs) = (if a = b then strip_common as bs else (a # as, b # bs))"
| "strip_common as bs = (as, bs)"

definition Rel :: "string \<Rightarrow> string \<Rightarrow> string result" where
  "Rel basepath targpath =
     (if rooted basepath \<noteq> rooted targpath
      then Inl (Errorf (''Rel: can't make '' @ targpath @ '' relative to '' @ basepath))
      else case strip_common (clean_comps basepath) (clean_comps targpath) of
        (bs, ts) \<Rightarrow>
          if bs \<noteq> [] \<and> hd bs = ''..''
          then Inl (Errorf (''Rel: can't make '' @ targpath @ '' relative to '' @ basepath))
          else Inr (show_path False (replicate (length bs) ''..'' @ ts)))"


section \<open>The file system\<close>

datatype node = FDir | FFile bytes | FLink string

record filesys =
  fs_nodes :: "(string list \<times> node) list"
  fs_cwd :: "string list"

definition lookup :: "filesys \<Rightarrow> string list \<Rightarrow> node option" where
  "lookup fs p = (if p = [] then Some FDir else map_of (fs_nodes fs) p)"

definition put :: "string list \<Rightarrow> node \<Rightarrow> filesys \<Rightarrow> filesys" where
  "put p n fs = fs\<lparr>fs_nodes := AList.update p n (fs_nodes fs)\<rparr>"

definition prune :: "string list \<Rightarrow> filesys \<Rightarrow> filesys" where
  "prune p fs = fs\<lparr>fs_nodes := filter (\<lambda>(q, _). \<not> prefix p q) (fs_nodes fs)\<rparr>"

definition errNotDir :: go_error where "errNotDir = SysErr ''not a directory''"
definition errIsDir :: go_error where "errIsDir = SysErr ''is a directory''"
definition errExist :: go_error where "errExist = SysErr ''file exists''"
definition errLoop :: go_error where "errLoop = SysErr ''too many levels of symbolic links''"

text \<open>
  \<open>resolve n follow fs cur cs\<close>: the node path that \<open>cs\<close> names from the directory \<open>cur\<close>, following at most \<open>n\<close> links; a
  link in the last place is followed only if \<open>follow\<close>. The last component need not exist.
\<close>

function resolve :: "nat \<Rightarrow> bool \<Rightarrow> filesys \<Rightarrow> string list \<Rightarrow> string list \<Rightarrow> string list result" where
  "resolve n follow fs cur [] = Inr cur"
| "resolve n follow fs cur (c # cs) =
     (if lookup fs cur \<noteq> Some FDir then Inl errNotDir
      else if c = ''.'' then resolve n follow fs cur cs
      else if c = ''..'' then resolve n follow fs (butlast cur) cs
      else case lookup fs (cur @ [c]) of
        None \<Rightarrow> if cs = [] then Inr (cur @ [c]) else Inl NotExist
      | Some FDir \<Rightarrow> resolve n follow fs (cur @ [c]) cs
      | Some (FFile _) \<Rightarrow> resolve n follow fs (cur @ [c]) cs
      | Some (FLink t) \<Rightarrow>
          if cs = [] \<and> \<not> follow then Inr (cur @ [c])
          else case n of
            0 \<Rightarrow> Inl errLoop
          | Suc m \<Rightarrow> resolve m follow fs (if rooted t then [] else cur) (comps t @ cs))"
  by pat_completeness auto
termination by (relation "inv_image (less_than <*lex*> less_than) (\<lambda>(n, _, _, _, cs). (n, length cs))") auto

declare resolve.simps(2) [simp del]

definition start :: "filesys \<Rightarrow> string \<Rightarrow> string list" where
  "start fs s = (if rooted s then [] else fs_cwd fs)"

text \<open>A path that ends with a slash names a directory, as if it ended with \<open>/.\<close>\<close>

definition kcomps :: "string \<Rightarrow> string list" where
  "kcomps s = comps s @ (if suffix ''/'' s \<and> comps s \<noteq> [] then [''.''] else [])"

definition stat_at :: "bool \<Rightarrow> filesys \<Rightarrow> string list \<Rightarrow> string list \<Rightarrow> node result" where
  "stat_at follow fs st cs =
     (case resolve 40 follow fs st cs of
        Inl e \<Rightarrow> Inl e
      | Inr p \<Rightarrow> (case lookup fs p of None \<Rightarrow> Inl NotExist | Some n \<Rightarrow> Inr n))"

definition Stat :: "filesys \<Rightarrow> string \<Rightarrow> node result" where
  "Stat fs s = (if s = [] then Inl NotExist else stat_at True fs (start fs s) (kcomps s))"

definition Lstat :: "filesys \<Rightarrow> string \<Rightarrow> node result" where
  "Lstat fs s = (if s = [] then Inl NotExist else stat_at False fs (start fs s) (kcomps s))"

text \<open>\<open>os.MkdirAll\<close>: the directories on the way, in order.\<close>

fun mkdirs :: "filesys \<Rightarrow> string list \<Rightarrow> string list \<Rightarrow> string list \<Rightarrow> go_error option \<times> filesys" where
  "mkdirs fs st pre [] = (None, fs)"
| "mkdirs fs st pre (c # cs) =
     (case stat_at True fs st (pre @ [c]) of
        Inr FDir \<Rightarrow> mkdirs fs st (pre @ [c]) cs
      | Inr _ \<Rightarrow> (Some errNotDir, fs)
      | Inl e \<Rightarrow>
          if e \<noteq> NotExist then (Some e, fs)
          else case resolve 40 False fs st (pre @ [c]) of
            Inl e \<Rightarrow> (Some e, fs)
          | Inr p \<Rightarrow> if lookup fs p \<noteq> None then (Some errExist, fs) else mkdirs (put p FDir fs) st (pre @ [c]) cs)"

definition MkdirAll :: "filesys \<Rightarrow> string \<Rightarrow> go_error option \<times> filesys" where
  "MkdirAll fs s = (if s = [] then (Some NotExist, fs) else mkdirs fs (start fs s) [] (comps s))"

text \<open>\<open>os.RemoveAll\<close>, whose error the sources ignore: the node itself, not what a link points to, and all below.\<close>

definition RemoveAll :: "filesys \<Rightarrow> string \<Rightarrow> filesys" where
  "RemoveAll fs s =
     (if comps s = [] \<or> last (comps s) = ''.'' \<or> last (comps s) = ''..'' then fs
      else case resolve 40 False fs (start fs s) (comps s) of Inl _ \<Rightarrow> fs | Inr p \<Rightarrow> prune p fs)"

text \<open>\<open>os.OpenFile\<close> with \<open>O_CREATE|O_RDWR|O_TRUNC\<close>: the path of the file, now empty.\<close>

definition OpenFile :: "filesys \<Rightarrow> string \<Rightarrow> string list result \<times> filesys" where
  "OpenFile fs s =
     (if s = [] then (Inl NotExist, fs)
      else if suffix ''/'' s then (Inl errIsDir, fs)
      else case resolve 40 True fs (start fs s) (comps s) of
        Inl e \<Rightarrow> (Inl e, fs)
      | Inr p \<Rightarrow> if lookup fs p = Some FDir then (Inl errIsDir, fs) else (Inr p, put p (FFile []) fs))"

definition Symlink :: "filesys \<Rightarrow> string \<Rightarrow> string \<Rightarrow> go_error option \<times> filesys" where
  "Symlink fs target s =
     (if s = [] then (Some NotExist, fs)
      else case resolve 40 False fs (start fs s) (kcomps s) of
        Inl e \<Rightarrow> (Some e, fs)
      | Inr p \<Rightarrow> if lookup fs p \<noteq> None then (Some errExist, fs) else (None, put p (FLink target) fs))"

text \<open>\<open>filepath.EvalSymlinks\<close>: the components of the result, which start at the root if \<open>r\<close>, and those still to go.\<close>

function eval_links :: "nat \<Rightarrow> filesys \<Rightarrow> bool \<Rightarrow> string list \<Rightarrow> string list \<Rightarrow> string result" where
  "eval_links n fs r dest [] = Inr (show_path r dest)"
| "eval_links n fs r dest (c # cs) =
     (if c = ''.'' then eval_links n fs r dest cs
      else if c = ''..'' then
        eval_links n fs r
          (if dest = [] then (if r then [] else [''..'']) else if last dest = ''..'' then dest @ [''..''] else butlast dest) cs
      else case stat_at False fs (if r then [] else fs_cwd fs) (dest @ [c]) of
        Inl e \<Rightarrow> Inl e
      | Inr FDir \<Rightarrow> eval_links n fs r (dest @ [c]) cs
      | Inr (FFile _) \<Rightarrow> if cs \<noteq> [] then Inl errNotDir else eval_links n fs r (dest @ [c]) cs
      | Inr (FLink t) \<Rightarrow>
          (case n of
             0 \<Rightarrow> Inl (Errorf ''EvalSymlinks: too many links'')
           | Suc m \<Rightarrow> eval_links m fs (r \<or> rooted t) (if rooted t then [] else dest) (comps t @ cs)))"
  by pat_completeness auto
termination by (relation "inv_image (less_than <*lex*> less_than) (\<lambda>(n, _, _, _, cs). (n, length cs))") auto

declare eval_links.simps(2) [simp del]

definition EvalSymlinks :: "filesys \<Rightarrow> string \<Rightarrow> string result" where
  "EvalSymlinks fs s = eval_links 255 fs (rooted s) [] (comps s)"

text \<open>
  The files \<open>filepath.Walk\<close> visits, in lexical order, which on lists of names is the order in which a directory
  comes before its contents; with the name that the visitor is given.
\<close>

definition below :: "filesys \<Rightarrow> string list \<Rightarrow> string list list" where
  "below fs p =
     (if lookup fs p = Some FDir then p # sort (filter (strict_prefix p) (map fst (fs_nodes fs))) else [p])"

definition walk_name :: "string \<Rightarrow> string list \<Rightarrow> string" where
  "walk_name root rest = (if rest = [] then root else Join [root, str_join rest ''/''])"

definition walk :: "filesys \<Rightarrow> string \<Rightarrow> (string \<times> node) list result" where
  "walk fs root =
     (case Lstat fs root of
        Inl e \<Rightarrow> Inl e
      | Inr _ \<Rightarrow>
          (case resolve 40 False fs (start fs root) (kcomps root) of
             Inl e \<Rightarrow> Inl e
           | Inr p \<Rightarrow> Inr (map (\<lambda>q. (walk_name root (drop (length p) q), the (lookup fs q))) (below fs p))))"


section \<open>Names without special components\<close>

definition plain :: "string \<Rightarrow> bool" where
  "plain w \<longleftrightarrow> w \<noteq> [] \<and> CHR ''/'' \<notin> set w \<and> w \<noteq> ''.'' \<and> w \<noteq> ''..''"

abbreviation plains :: "string list \<Rightarrow> bool" where
  "plains ws \<equiv> list_all plain ws"

text \<open>The absolute path with the given names.\<close>

abbreviation abs_path :: "string list \<Rightarrow> string" where
  "abs_path ps \<equiv> show_path True ps"

lemma split_on_append: "split_on c (s @ c # t) = split_on c s @ split_on c t"
proof (induction s)
  case (Cons x s)
  have "split_on c s \<noteq> []" by (cases s) (auto split: list.splits)
  then show ?case using Cons by (auto split: list.splits)
qed simp

lemma split_on_free: "c \<notin> set s \<Longrightarrow> split_on c s = [s]"
  by (induction s) auto

lemma comps_append [simp]: "comps (s @ CHR ''/'' # t) = comps s @ comps t"
  by (simp add: comps_def split_on_append)

lemma comps_Nil [simp]: "comps [] = []"
  by (simp add: comps_def)

lemma comps_slash [simp]: "comps (CHR ''/'' # t) = comps t"
  using comps_append [of "[]" t] by simp

lemma comps_plain [simp]: "plain w \<Longrightarrow> comps w = [w]"
  by (simp add: comps_def plain_def split_on_free)

lemma comps_join [simp]: "plains ws \<Longrightarrow> comps (str_join ws ''/'') = ws"
  by (induction ws "''/''" rule: str_join.induct) simp_all

lemma comps_abs [simp]: "plains ws \<Longrightarrow> comps (abs_path ws) = ws"
  by (simp add: show_path_def)

lemma rooted_abs [simp]: "rooted (abs_path ws)" "abs_path ws \<noteq> []"
  by (simp_all add: rooted_def show_path_def)

lemma squash_plain: "plains cs \<Longrightarrow> squash r out cs = rev out @ cs"
  by (induction cs arbitrary: out) (simp_all add: plain_def)

lemma clean_comps_abs [simp]: "plains ws \<Longrightarrow> clean_comps (abs_path ws) = ws"
  by (simp add: clean_comps_def squash_plain)

lemma Join_abs: "plains ws \<Longrightarrow> plains (comps s) \<Longrightarrow> Join [abs_path ws, s] = abs_path (ws @ comps s)"
  by (cases "s = []") (auto simp: Join_def Let_def Clean_def clean_comps_def rooted_def show_path_def squash_plain)

lemma str_join_snoc: "str_join (ps @ [w]) ''/'' = (if ps = [] then w else str_join ps ''/'' @ ''/'' @ w)"
  by (induction ps "''/''" rule: str_join.induct) simp_all

lemma abs_path_snoc: "abs_path (ps @ [w]) = (if ps = [] then ''/'' else abs_path ps @ ''/'') @ w"
  by (simp add: show_path_def str_join_snoc)

lemma dropWhile_plain: "plain w \<Longrightarrow> dropWhile (\<lambda>c. c \<noteq> CHR ''/'') (rev w @ CHR ''/'' # t) = CHR ''/'' # t"
  by (subst dropWhile_append2) (auto simp: plain_def)

lemma takeWhile_plain: "plain w \<Longrightarrow> takeWhile (\<lambda>c. c \<noteq> CHR ''/'') (rev w @ CHR ''/'' # t) = rev w"
  by (subst takeWhile_append2) (auto simp: plain_def)

lemma abs_path_split: "\<exists>d. abs_path (ps @ [w]) = d @ CHR ''/'' # w \<and> comps (d @ ''/'') = comps (abs_path ps) \<and> rooted (d @ ''/'')"
proof (cases "ps = []")
  case True
  then show ?thesis by (intro exI [of _ "[]"]) (simp add: show_path_def rooted_def)
next
  case False
  then show ?thesis by (intro exI [of _ "abs_path ps"]) (simp add: abs_path_snoc rooted_def show_path_def str_join_snoc)
qed

lemma Dir_abs:
  assumes "plains (ps @ [w])"
  shows "Dir (abs_path (ps @ [w])) = abs_path ps"
proof -
  obtain d where d: "abs_path (ps @ [w]) = d @ CHR ''/'' # w" "comps (d @ ''/'') = comps (abs_path ps)" "rooted (d @ ''/'')"
    using abs_path_split by blast
  have "rev (dropWhile (\<lambda>c. c \<noteq> CHR ''/'') (rev (abs_path (ps @ [w])))) = d @ ''/''"
    using assms dropWhile_plain [of w "rev d"] by (simp add: d(1))
  then show ?thesis using d assms by (simp add: Dir_def Clean_def clean_comps_def squash_plain)
qed

lemma trim_slash_plain: "plain w \<Longrightarrow> trim_right (d @ w) ''/'' = d @ w"
proof -
  assume w: "plain w"
  then have "rev w \<noteq> []" "hd (rev w) \<noteq> CHR ''/''" by (auto simp: plain_def hd_rev) (metis last_in_set)
  then have "dropWhile (\<lambda>c. c = CHR ''/'') (rev w @ rev d) = rev w @ rev d" by (cases "rev w") auto
  then show ?thesis by (simp add: trim_right_def)
qed

lemma trim_slash_abs: "plains (ps @ [w]) \<Longrightarrow> trim_right (abs_path (ps @ [w])) ''/'' = abs_path (ps @ [w])"
  using trim_slash_plain [of w] by (simp add: abs_path_snoc)

lemma Base_abs: "plains (ps @ [w]) \<Longrightarrow> Base (abs_path (ps @ [w])) = w"
proof -
  assume p: "plains (ps @ [w])"
  obtain d where d: "abs_path (ps @ [w]) = d @ CHR ''/'' # w" using abs_path_split by blast
  show ?thesis using trim_slash_abs [OF p] takeWhile_plain [of w "rev d"] p by (simp add: Base_def Let_def d)
qed

lemma strip_common_append [simp]: "strip_common ps (ps @ qs) = ([], qs)"
  by (induction ps) auto

lemma Rel_abs: "plains (ps @ qs) \<Longrightarrow> Rel (abs_path ps) (abs_path (ps @ qs)) = Inr (show_path False qs)"
  by (simp add: Rel_def)

lemma abs_path_no_slash: "plains (qs @ [w]) \<Longrightarrow> \<not> suffix ''/'' (abs_path (qs @ [w]))"
proof
  assume p: "plains (qs @ [w])" and "suffix ''/'' (abs_path (qs @ [w]))"
  then obtain zs where z: "abs_path (qs @ [w]) = zs @ ''/''" by (auto simp: suffix_def)
  have "last (abs_path (qs @ [w])) = CHR ''/''" by (simp only: z) simp
  moreover have "last (abs_path (qs @ [w])) = last w" using p by (simp add: abs_path_snoc plain_def)
  ultimately show False using p last_in_set [of w] by (auto simp: plain_def)
qed

lemma kcomps_abs: "plains ps \<Longrightarrow> kcomps (abs_path ps) = ps"
  using abs_path_no_slash by (cases ps rule: rev_exhaust) (auto simp: kcomps_def show_path_def)


section \<open>Facts about the file system\<close>

lemma lookup_Nil [simp]: "lookup fs [] = Some FDir"
  by (simp add: lookup_def)

lemma lookup_put [simp]: "p \<noteq> [] \<Longrightarrow> lookup (put p n fs) q = (if q = p then Some n else lookup fs q)"
  by (simp add: lookup_def put_def update_conv')

lemma lookup_prune: "p \<noteq> [] \<Longrightarrow> lookup (prune p fs) q = (if prefix p q then None else lookup fs q)"
proof -
  assume "p \<noteq> []"
  have "map_of (filter (\<lambda>(q, _). \<not> prefix p q) ns) q = (if prefix p q then None else map_of ns q)" for ns :: "(string list \<times> node) list"
    by (induction ns) auto
  then show ?thesis using \<open>p \<noteq> []\<close> by (auto simp: lookup_def prune_def)
qed

text \<open>Every proper prefix of the path is a directory.\<close>

definition dirs_to :: "filesys \<Rightarrow> string list \<Rightarrow> bool" where
  "dirs_to fs p \<longleftrightarrow> (\<forall>q. strict_prefix q p \<longrightarrow> lookup fs q = Some FDir)"

lemma resolve_plain:
  assumes "plains cs" and "dirs_to fs (cur @ cs)" and "\<And>t. lookup fs (cur @ cs) \<noteq> Some (FLink t)"
  shows "resolve n follow fs cur cs = Inr (cur @ cs)"
  using assms
proof (induction cs arbitrary: cur)
  case (Cons c cs)
  have "strict_prefix cur (cur @ c # cs)" by (simp add: strict_prefix_def)
  then have d: "lookup fs cur = Some FDir" using Cons.prems(2) by (simp add: dirs_to_def)
  have ih: "resolve n follow fs (cur @ [c]) cs = Inr (cur @ c # cs)" using Cons.IH [of "cur @ [c]"] Cons.prems by simp
  show ?case
  proof (cases "cs = []")
    case True
    then show ?thesis using Cons.prems d ih
      by (auto simp: resolve.simps(2) plain_def split: option.splits node.splits)
  next
    case False
    then have "strict_prefix (cur @ [c]) (cur @ c # cs)" by (simp add: strict_prefix_def)
    then have "lookup fs (cur @ [c]) = Some FDir" using Cons.prems(2) unfolding dirs_to_def by blast
    then show ?thesis using Cons.prems(1) d ih by (simp add: resolve.simps(2) plain_def)
  qed
qed simp

lemma start_abs [simp]: "start fs (abs_path ps) = []"
  by (simp add: start_def)

text \<open>A path that can be read without meeting a link.\<close>

definition direct :: "filesys \<Rightarrow> string list \<Rightarrow> bool" where
  "direct fs p \<longleftrightarrow> plains p \<and> dirs_to fs p \<and> (\<forall>t. lookup fs p \<noteq> Some (FLink t))"

lemma direct_resolve: "direct fs p \<Longrightarrow> resolve n follow fs [] p = Inr p"
  using resolve_plain [of p fs "[]"] by (simp add: direct_def)

lemma direct_Stat:
  assumes "direct fs p"
  shows "Stat fs (abs_path p) = (case lookup fs p of None \<Rightarrow> Inl NotExist | Some n \<Rightarrow> Inr n)"
    and "Lstat fs (abs_path p) = (case lookup fs p of None \<Rightarrow> Inl NotExist | Some n \<Rightarrow> Inr n)"
  using assms direct_resolve [OF assms] by (auto simp: Stat_def Lstat_def stat_at_def kcomps_abs direct_def)

lemma dirs_to_prefix: "dirs_to fs (p @ q) \<Longrightarrow> dirs_to fs p"
  unfolding dirs_to_def by (metis prefix_order.less_le_trans prefixI)

lemma dirs_to_snoc: "dirs_to fs (p @ [c]) \<longleftrightarrow> dirs_to fs p \<and> lookup fs p = Some FDir"
proof -
  have n: "\<not> prefix (p @ [c]) p" using prefix_length_le [of "p @ [c]" p] by auto
  have "strict_prefix q (p @ [c]) \<longleftrightarrow> prefix q p" for q
    using n by (cases "q = p @ [c]") (simp_all add: strict_prefix_def)
  then have "dirs_to fs (p @ [c]) \<longleftrightarrow> (\<forall>q. prefix q p \<longrightarrow> lookup fs q = Some FDir)" by (simp add: dirs_to_def)
  also have "\<dots> \<longleftrightarrow> dirs_to fs p \<and> lookup fs p = Some FDir"
    unfolding dirs_to_def by (metis prefix_order.le_less prefix_order.order_refl)
  finally show ?thesis .
qed

lemma mkdirs_present: "plains (pre @ cs) \<Longrightarrow> dirs_to fs (pre @ cs @ rest) \<Longrightarrow> rest \<noteq> [] \<Longrightarrow> mkdirs fs [] pre (cs @ rest) = mkdirs fs [] (pre @ cs) rest"
proof (induction cs arbitrary: pre)
  case (Cons c cs)
  have l: "lookup fs (pre @ [c]) = Some FDir" using Cons.prems(2,3) unfolding dirs_to_def
    by (auto simp: strict_prefix_def)
  have "direct fs (pre @ [c])" using Cons.prems l dirs_to_prefix [of fs "pre @ [c]" "cs @ rest"] by (simp add: direct_def)
  then have "stat_at True fs [] (pre @ [c]) = Inr FDir" using l by (simp add: stat_at_def direct_resolve)
  then show ?case using Cons.IH [of "pre @ [c]"] Cons.prems by simp
qed simp

lemma MkdirAll_new:
  assumes d: "direct fs (p @ [c])" and n: "lookup fs (p @ [c]) = None \<or> lookup fs (p @ [c]) = Some FDir"
  shows "MkdirAll fs (abs_path (p @ [c])) = (None, if lookup fs (p @ [c]) = None then put (p @ [c]) FDir fs else fs)"
proof -
  have "MkdirAll fs (abs_path (p @ [c])) = mkdirs fs [] p [c]"
    using d mkdirs_present [of "[]" p fs "[c]"] by (simp add: MkdirAll_def direct_def)
  also have "\<dots> = (None, if lookup fs (p @ [c]) = None then put (p @ [c]) FDir fs else fs)"
    using n direct_resolve [OF d] by (auto simp: stat_at_def)
  finally show ?thesis .
qed

lemma RemoveAll_abs: "direct fs (p @ [c]) \<Longrightarrow> RemoveAll fs (abs_path (p @ [c])) = prune (p @ [c]) fs"
  using direct_resolve [of fs "p @ [c]"] by (simp add: RemoveAll_def direct_def plain_def)

lemma OpenFile_abs:
  assumes "direct fs (p @ [c])" and "lookup fs (p @ [c]) \<noteq> Some FDir"
  shows "OpenFile fs (abs_path (p @ [c])) = (Inr (p @ [c]), put (p @ [c]) (FFile []) fs)"
proof -
  have "\<not> suffix ''/'' (abs_path (p @ [c]))" using abs_path_no_slash assms(1) by (simp add: direct_def)
  then show ?thesis using assms direct_resolve [OF assms(1)] by (simp add: OpenFile_def direct_def)
qed

text \<open>A tree: every node is in a directory, and no path is listed twice.\<close>

definition wf_fs :: "filesys \<Rightarrow> bool" where
  "wf_fs fs \<longleftrightarrow> distinct (map fst (fs_nodes fs)) \<and> (\<forall>p c. lookup fs (p @ [c]) \<noteq> None \<longrightarrow> lookup fs p = Some FDir)"

lemma wf_fs_below: "wf_fs fs \<Longrightarrow> lookup fs (p @ q) \<noteq> None \<Longrightarrow> q \<noteq> [] \<Longrightarrow> lookup fs p = Some FDir"
proof (induction q rule: rev_induct)
  case (snoc c q)
  have "lookup fs (p @ q) = Some FDir" using snoc.prems(1,2) unfolding wf_fs_def by (metis append.assoc)
  then show ?case using snoc by (cases "q = []") auto
qed simp

lemma wf_fs_nothing_below: "wf_fs fs \<Longrightarrow> lookup fs p = None \<Longrightarrow> lookup fs (p @ q) = None"
  using wf_fs_below [of fs p q] by (cases "q = []") (auto, metis not_None_eq)

end
