(* ===== verification/AdbTool.thy ===== *)
theory AdbTool
  imports Ports FileSys
begin

text \<open>
  The adb-compatible command line tool: \<open>client/adb/adb.go\<close> and \<open>client/adb/adb_bin.go\<close>. Command line parsing,
  the translation between adb's and Waterfall's addresses, the command functions, and the dispatch that
  falls back to the platform's adb for anything the tool does not support.

  The port forwarding commands act on the daemon of the theory \<open>Ports\<close>; the calls that reach the device
  (execution, push, pull, install) are the functions of \<open>adb_env\<close>. A command ends with an error or
  without one, exits the process, or panics.
\<close>

section \<open>Addresses\<close>

text \<open>\<open>parseFwd\<close>. The reverse direction indexes the third part of a TCP address without a check.\<close>

definition parseFwd :: "string \<Rightarrow> bool \<Rightarrow> string outcome" where
  "parseFwd addr reverse =
     (if reverse then
        if prefix ''tcp:'' addr then obind (idx (splitN 3 CHR '':'' addr) 2) (\<lambda>p. Return (''tcp:'' @ p))
        else if prefix ''unix:@'' addr then Return (''localabstract:'' @ drop 6 addr)
        else if prefix ''unix:'' addr then Return (''localreserved:'' @ drop 5 addr)
        else Fail ParseError
      else
        let pts = split_on CHR '':'' addr
        in if length pts \<noteq> 2 then Fail ParseError
           else if pts ! 0 = ''tcp'' then Return (''tcp:localhost:'' @ pts ! 1)
           else if pts ! 0 = ''localabstract'' then Return (''unix:@'' @ pts ! 1)
           else if pts ! 0 = ''localreserved'' \<or> pts ! 0 = ''localfilesystem'' then Return (''unix:'' @ pts ! 1)
           else Fail ParseError)"


section \<open>The command line\<close>

record ParsedArgs =
  pg_Device :: string
  pg_Command :: string
  pg_Args :: "string list"

definition unsupported_options :: "string list" where
  "unsupported_options = [''server'', ''nodaemon'', ''persist'', ''-p'', ''-a'', ''-e'', ''-d'', ''-t'']"

definition ignored_options :: "string list" where
  "ignored_options = [''-H'', ''-P'', ''-L'']"

text \<open>
  The loop of \<open>ParseCommand\<close>; the list is \<open>args[i:]\<close>, and the loop runs while it has two elements. The
  result indexes \<open>args[i]\<close> without a check.
\<close>

definition command_at :: "string \<Rightarrow> string list \<Rightarrow> ParsedArgs outcome" where
  "command_at dev rest = obind (idx rest 0) (\<lambda>c. Return \<lparr>pg_Device = dev, pg_Command = c, pg_Args = rest\<rparr>)"

fun parse_options :: "string \<Rightarrow> string list \<Rightarrow> ParsedArgs outcome" where
  "parse_options dev (a # b # rest) =
     (if a \<in> set unsupported_options then Fail ParseError
      else if a = ''-s'' then parse_options b rest
      else if a = ''wait-for-device'' then parse_options dev (b # rest)
      else if a \<in> set ignored_options then parse_options dev rest
      else command_at dev (a # b # rest))"
| "parse_options dev rest = command_at dev rest"

definition ParseCommand :: "string list \<Rightarrow> ParsedArgs outcome" where
  "ParseCommand args = parse_options [] args"


section \<open>Commands\<close>

record adb_env =
  ae_dial :: "go_error option"
  ae_exec :: "string \<Rightarrow> string list \<Rightarrow> int \<times> string \<times> go_error option"
  ae_push :: "string \<Rightarrow> string \<Rightarrow> go_error option"
  ae_pull :: "string \<Rightarrow> string \<Rightarrow> go_error option"
  ae_open :: "string \<Rightarrow> go_error option"
  ae_install :: "string \<Rightarrow> string list \<Rightarrow> string \<times> go_error option"
  ae_propagate :: string
  ae_stopErr :: "go_error option"
  ae_startErr :: "go_error option"

datatype adb_end = Ended "go_error option" | Exited int | Crashed

type_synonym adb_result = "adb_end \<times> string list \<times> PortForwarder"

text \<open>\<open>strconv.ParseBool\<close> and \<open>propagateStatusCode\<close>: the exit code the process ends with, if it does.\<close>

definition parse_bool :: "string \<Rightarrow> bool option" where
  "parse_bool s =
     (if s \<in> {''1'', ''t'', ''T'', ''TRUE'', ''true'', ''True''} then Some True
      else if s \<in> {''0'', ''f'', ''F'', ''FALSE'', ''false'', ''False''} then Some False
      else None)"

definition propagateStatusCode :: "string \<Rightarrow> int \<Rightarrow> int option" where
  "propagateStatusCode p s =
     (if p = [] then None
      else case parse_bool p of
        None \<Rightarrow> None
      | Some b \<Rightarrow> if b \<and> s \<noteq> 0 then Some s else None)"

text \<open>\<open>shellIO\<close>: the command for the device's shell, its output and how the tool goes on.\<close>

definition shellIO :: "adb_env \<Rightarrow> string \<Rightarrow> string list \<Rightarrow> adb_end \<times> string" where
  "shellIO env cmd args =
     (case ae_exec env ''/system/bin/sh'' [''-c'', cmd @ '' '' @ str_join args '' ''] of
        (s, out, err) \<Rightarrow>
          (case propagateStatusCode (ae_propagate env) s of
             Some c \<Rightarrow> (Exited c, out)
           | None \<Rightarrow> (Ended err, out)))"

text \<open>
  \<open>exeStdout\<close>, \<open>exeString\<close> and \<open>shellString\<close>: a command whose two outputs go to the terminal or are collected in one buffer.
\<close>

definition exeString :: "adb_env \<Rightarrow> string \<Rightarrow> string list \<Rightarrow> int \<times> string \<times> go_error option" where
  "exeString env cmd args = ae_exec env cmd args"

definition exeStdout :: "adb_env \<Rightarrow> string \<Rightarrow> string list \<Rightarrow> (int \<times> go_error option) \<times> string" where
  "exeStdout env cmd args = (case ae_exec env cmd args of (s, out, err) \<Rightarrow> ((s, err), out))"

definition shellString :: "adb_env \<Rightarrow> string \<Rightarrow> string list \<Rightarrow> adb_end \<times> string" where
  "shellString env cmd args = shellIO env cmd args"

definition with_conn :: "adb_env \<Rightarrow> PortForwarder \<Rightarrow> adb_result \<Rightarrow> adb_result" where
  "with_conn env pf r = (case ae_dial env of Some e \<Rightarrow> (Ended (Some e), [], pf) | None \<Rightarrow> r)"

definition from_shell :: "adb_end \<times> string \<Rightarrow> PortForwarder \<Rightarrow> adb_result" where
  "from_shell r pf = (fst r, [snd r], pf)"

definition shellFn :: "adb_env \<Rightarrow> string list \<Rightarrow> PortForwarder \<Rightarrow> adb_result" where
  "shellFn env args pf =
     (if length args = 1 then (Ended (Some ParseError), [], pf)
      else with_conn env pf
        (case idx args 1 of
           Return c \<Rightarrow> from_shell (shellIO env c (drop 2 args)) pf
         | _ \<Rightarrow> (Crashed, [], pf)))"

definition pushFn :: "adb_env \<Rightarrow> string list \<Rightarrow> PortForwarder \<Rightarrow> adb_result" where
  "pushFn env args pf =
     (if length args \<noteq> 3 then (Ended (Some ParseError), [], pf)
      else with_conn env pf (Ended (ae_push env (args ! 1) (args ! 2)), [], pf))"

definition pullFn :: "adb_env \<Rightarrow> string list \<Rightarrow> PortForwarder \<Rightarrow> adb_result" where
  "pullFn env args pf =
     (if length args \<noteq> 3 then (Ended (Some ParseError), [], pf)
      else with_conn env pf (Ended (ae_pull env (args ! 1) (args ! 2)), [], pf))"

definition installFn :: "adb_env \<Rightarrow> string list \<Rightarrow> PortForwarder \<Rightarrow> adb_result" where
  "installFn env args pf =
     (if length args < 2 then (Ended (Some ParseError), [], pf)
      else case ae_open env (last args) of
        Some e \<Rightarrow> (Ended (Some e), [], pf)
      | None \<Rightarrow> with_conn env pf
          (case ae_install env (last args) (butlast (tl args)) of (r, err) \<Rightarrow> (Ended err, [r], pf)))"

text \<open>\<open>forward --list\<close>: a line for each session until an address cannot be translated.\<close>

fun list_lines :: "ForwardSession list \<Rightarrow> adb_end \<times> string list" where
  "list_lines [] = (Ended None, [])"
| "list_lines (s # ss) =
     (case parseFwd (fs_src s) True of
        Fail e \<Rightarrow> (Ended (Some e), [])
      | Panic \<Rightarrow> (Crashed, [])
      | Return src \<Rightarrow>
          (case parseFwd (fs_dst s) True of
             Fail e \<Rightarrow> (Ended (Some e), [])
           | Panic \<Rightarrow> (Crashed, [])
           | Return dst \<Rightarrow>
               (case list_lines ss of
                  (r, out) \<Rightarrow> (r, (''localhost:foo '' @ src @ '' '' @ dst @ [CHR 0x0A]) # out))))"

definition parse_arg :: "string list \<Rightarrow> nat \<Rightarrow> string outcome" where
  "parse_arg args i = obind (idx args i) (\<lambda>a. parseFwd a False)"

text \<open>Source and destination at two positions of the command line, then the request.\<close>

definition with_pair ::
    "string list \<Rightarrow> nat \<Rightarrow> nat \<Rightarrow> PortForwarder \<Rightarrow> (ForwardSession \<Rightarrow> go_error option \<times> PortForwarder) \<Rightarrow> adb_result"
where
  "with_pair args i j pf f =
     (case parse_arg args i of
        Fail e \<Rightarrow> (Ended (Some e), [], pf)
      | Panic \<Rightarrow> (Crashed, [], pf)
      | Return src \<Rightarrow>
          (case parse_arg args j of
             Fail e \<Rightarrow> (Ended (Some e), [], pf)
           | Panic \<Rightarrow> (Crashed, [], pf)
           | Return dst \<Rightarrow>
               (case f \<lparr>fs_src = src, fs_dst = dst\<rparr> of (e, pf') \<Rightarrow> (Ended (map_option rpc_status e), [], pf'))))"

definition forwardFn :: "adb_env \<Rightarrow> string list \<Rightarrow> PortForwarder \<Rightarrow> adb_result" where
  "forwardFn env args pf =
     (if length args < 2 \<or> 4 < length args then (Ended (Some ParseError), [], pf)
      else with_conn env pf
        (if args ! 1 = ''--list'' then
           (case list_lines (List_sessions pf) of (r, out) \<Rightarrow> (r, out, pf))
         else if args ! 1 = ''--remove'' then
           if length args \<noteq> 3 then (Ended (Some ParseError), [], pf)
           else (case parseFwd (args ! 2) False of
                   Fail e \<Rightarrow> (Ended (Some e), [], pf)
                 | Panic \<Rightarrow> (Crashed, [], pf)
                 | Return fwd \<Rightarrow>
                     (case Stop \<lparr>pr_rebind = False, pr_session = \<lparr>fs_src = fwd, fs_dst = []\<rparr>\<rparr> pf of
                        (e, pf') \<Rightarrow> (Ended (map_option rpc_status e), [], pf')))
         else if args ! 1 = ''--remove-all'' then
           if length args \<noteq> 2 then (Ended (Some ParseError), [], pf)
           else (case StopAll pf of (e, pf') \<Rightarrow> (Ended (map_option rpc_status e), [], pf'))
         else if args ! 1 = ''--no-rebind'' then
           with_pair args 2 3 pf (\<lambda>s. ForwardPort \<lparr>pr_rebind = False, pr_session = s\<rparr> pf)
         else
           with_pair args 1 2 pf (\<lambda>s. ForwardPort \<lparr>pr_rebind = True, pr_session = s\<rparr> pf)))"

definition reverseFn :: "adb_env \<Rightarrow> string list \<Rightarrow> PortForwarder \<Rightarrow> adb_result" where
  "reverseFn env args pf =
     (if length args < 2 \<or> 4 < length args then (Ended (Some ParseError), [], pf)
      else with_conn env pf
        (with_pair args 1 2 pf
           (\<lambda>s. ReverseForwardPort (ae_stopErr env) (ae_startErr env) \<lparr>pr_rebind = True, pr_session = s\<rparr> pf)))"

definition passthroughFn :: "adb_env \<Rightarrow> string list \<Rightarrow> PortForwarder \<Rightarrow> adb_result" where
  "passthroughFn env args pf =
     with_conn env pf
       (case args of
          [] \<Rightarrow> (Crashed, [], pf)
        | c # as \<Rightarrow> (case exeStdout env c as of ((s, err), out) \<Rightarrow> (Ended err, [out], pf)))"

definition uninstallFn :: "adb_env \<Rightarrow> string list \<Rightarrow> PortForwarder \<Rightarrow> adb_result" where
  "uninstallFn env args pf =
     (if length args \<noteq> 2 then (Ended (Some ParseError), [], pf)
      else with_conn env pf (from_shell (shellIO env ''/system/bin/pm'' args) pf))"

text \<open>\<open>strings.Split(s, "OK:")\<close>: the part between the first and the second separator, if there is one.\<close>

definition after_ok :: "string \<Rightarrow> string option" where
  "after_ok s =
     (case str_index s ''OK:'' of
        None \<Rightarrow> None
      | Some i \<Rightarrow>
          let t = drop (i + 3) s
          in Some (case str_index t ''OK:'' of None \<Rightarrow> t | Some j \<Rightarrow> take j t))"

definition bugreportFn :: "adb_env \<Rightarrow> string list \<Rightarrow> PortForwarder \<Rightarrow> adb_result" where
  "bugreportFn env args pf =
     with_conn env pf
       (if 2 < length args then (Ended (Some ParseError), [], pf)
        else if length args = 1 then (case exeStdout env (args ! 0) [] of ((s, err), out) \<Rightarrow> (Ended err, [out], pf))
        else
          (case exeString env ''/system/bin/bugreportz'' [''-v''] of
             (s, out, err) \<Rightarrow>
               if err \<noteq> None \<or> out = []
               then (Ended None, [''Bugreportz not supported. Use adb bugreport to run legacy version.''], pf)
               else (case shellIO env ''/system/bin/bugreportz'' [] of
                       (Ended None, so) \<Rightarrow>
                         (case idx args 1 of
                            Return path \<Rightarrow>
                              (let oz = (if suffix ''.zip'' path then path else path @ ''.zip'')
                               in (case after_ok so of
                                     None \<Rightarrow> (Ended (Some (Errorf ''unable to parse bugreport zip output'')), [], pf)
                                   | Some p \<Rightarrow> (Ended (ae_pull env (trim_cut p [CHR 0x0A, CHR 0x0D]) oz), [], pf)))
                          | _ \<Rightarrow> (Crashed, [], pf))
                     | (r, _) \<Rightarrow> (r, [], pf))))"

text \<open>The table of commands.\<close>

definition Commands :: "(string \<times> (adb_env \<Rightarrow> string list \<Rightarrow> PortForwarder \<Rightarrow> adb_result)) list" where
  "Commands = [(''shell'', shellFn), (''push'', pushFn), (''pull'', pullFn), (''forward'', forwardFn),
     (''reverse'', reverseFn), (''bugreport'', bugreportFn), (''logcat'', passthroughFn),
     (''install'', installFn), (''uninstall'', uninstallFn)]"


section \<open>The platform's adb\<close>

text \<open>
  \<open>platformADB\<close> finds the platform's adb in the environment; \<open>Fallback\<close> runs it with the whole command line, and
  ends the process with its exit code. \<open>startCmd\<close>: the error of starting a program; \<open>waitCmd\<close>: that of waiting for it.
\<close>

definition androidADBEnv :: string where "androidADBEnv = ''ANDROID_ADB''"
definition androidSDKEnv :: string where "androidSDKEnv = ''ANDROID_SDK_HOME''"

definition platformADB :: "(string \<Rightarrow> string) \<Rightarrow> string result" where
  "platformADB getenv =
     (if getenv androidADBEnv \<noteq> [] then Inr (getenv androidADBEnv)
      else if getenv androidSDKEnv \<noteq> [] then Inr (Join [getenv androidSDKEnv, ''platform-tools/adb''])
      else Inl (Errorf ''unable to find platform ADB, neither ANDROID_ADB or ANDROID_SDK_HOME set''))"

datatype process_end = Fatal go_error | ExitCode int | ProcessCrashed

definition Fallback ::
    "(string \<Rightarrow> string) \<Rightarrow> (string list \<Rightarrow> go_error option) \<Rightarrow> (string list \<Rightarrow> go_error option) \<Rightarrow> string list \<Rightarrow> process_end"
where
  "Fallback getenv startCmd waitCmd args =
     (case platformADB getenv of
        Inl e \<Rightarrow> Fatal e
      | Inr adbBin \<Rightarrow>
          (case startCmd (adbBin # args) of
             Some e \<Rightarrow> Fatal e
           | None \<Rightarrow>
               (case waitCmd (adbBin # args) of
                  None \<Rightarrow> ExitCode 0
                | Some (ExitError n) \<Rightarrow> ExitCode n
                | Some e \<Rightarrow> Fatal e)))"


section \<open>Dispatch\<close>

text \<open>
  \<open>runCommand\<close>. \<open>Fallback\<close> hands the whole command line to the platform's adb and does not return.
  \<open>netDial\<close> is the connection to the device.
\<close>

datatype adb_run = FallBack | Ran adb_end

definition runCommand ::
    "(string \<Rightarrow> string \<Rightarrow> go_error option) \<Rightarrow> adb_env \<Rightarrow> string list \<Rightarrow> PortForwarder \<Rightarrow> adb_run \<times> string list \<times> PortForwarder"
where
  "runCommand netDial env args pf =
     (case ParseCommand args of
        Panic \<Rightarrow> (Ran Crashed, [], pf)
      | Fail _ \<Rightarrow> (FallBack, [], pf)
      | Return p \<Rightarrow>
          if pg_Device p = [] then (FallBack, [], pf)
          else case adb_parseAddr (pg_Device p) of
            Return (kind, a) \<Rightarrow>
              if netDial kind a \<noteq> None then (FallBack, [], pf)
              else (case map_of Commands (pg_Command p) of
                      None \<Rightarrow> (FallBack, [], pf)
                    | Some fn \<Rightarrow>
                        (case fn env (pg_Args p) pf of
                           (r, out, pf') \<Rightarrow> (if r = Ended (Some ParseError) then FallBack else Ran r, out, pf')))
          | _ \<Rightarrow> (Ran Crashed, [], pf))"


text \<open>\<open>main\<close>: how the tool's process ends.\<close>

definition adb_main ::
    "(string \<Rightarrow> string) \<Rightarrow> (string list \<Rightarrow> go_error option) \<Rightarrow> (string list \<Rightarrow> go_error option) \<Rightarrow>
     (string \<Rightarrow> string \<Rightarrow> go_error option) \<Rightarrow> adb_env \<Rightarrow> string list \<Rightarrow> PortForwarder \<Rightarrow> process_end"
where
  "adb_main getenv startCmd waitCmd netDial env args pf =
     (case fst (runCommand netDial env args pf) of
        FallBack \<Rightarrow> Fallback getenv startCmd waitCmd args
      | Ran (Ended None) \<Rightarrow> ExitCode 0
      | Ran (Ended (Some e)) \<Rightarrow> Fatal (Errorf (''Failed to execute adb command: '' @ error_text e))
      | Ran (Exited c) \<Rightarrow> ExitCode c
      | Ran Crashed \<Rightarrow> ProcessCrashed)"


section \<open>Facts\<close>

lemma parseFwd_kind:
  assumes "CHR '':'' \<notin> set kind" and "CHR '':'' \<notin> set a"
  shows "parseFwd (kind @ '':'' @ a) False =
    (if kind = ''tcp'' then Return (''tcp:localhost:'' @ a)
     else if kind = ''localabstract'' then Return (''unix:@'' @ a)
     else if kind = ''localreserved'' \<or> kind = ''localfilesystem'' then Return (''unix:'' @ a)
     else Fail ParseError)"
proof -
  have "split_on CHR '':'' (kind @ '':'' @ a) = [kind, a]" using assms by (simp add: split_on_two)
  then show ?thesis by (simp add: parseFwd_def)
qed

lemma parseFwd_back:
  "parseFwd (''tcp:localhost:'' @ a) True = Return (''tcp:'' @ a)"
  "parseFwd (''unix:@'' @ a) True = Return (''localabstract:'' @ a)"
  "\<not> prefix ''@'' a \<Longrightarrow> parseFwd (''unix:'' @ a) True = Return (''localreserved:'' @ a)"
  "\<exists>s. parseFwd (''unix:'' @ a) True = Return s"
  by (simp_all add: parseFwd_def numeral_3_eq_3 idx_def)

text \<open>Addresses of adb that the tool can translate both ways.\<close>

definition adb_addr :: "string \<Rightarrow> string \<Rightarrow> bool" where
  "adb_addr kind a \<longleftrightarrow> CHR '':'' \<notin> set a \<and>
     (kind = ''tcp'' \<or> kind = ''localabstract'' \<or> kind = ''localreserved'' \<and> \<not> prefix ''@'' a)"

lemma adb_addr_roundtrip:
  assumes "adb_addr kind a"
  obtains b where "parseFwd (kind @ '':'' @ a) False = Return b" "parseFwd b True = Return (kind @ '':'' @ a)"
    "b = ''tcp:localhost:'' @ a \<or> b = ''unix:'' @ a \<or> b = ''unix:@'' @ a"
proof -
  have c: "CHR '':'' \<notin> set a" using assms by (simp add: adb_addr_def)
  consider "kind = ''tcp''" | "kind = ''localabstract''" | "kind = ''localreserved''" "\<not> prefix ''@'' a"
    using assms by (auto simp: adb_addr_def)
  then show ?thesis
  proof cases
    case 1
    then have "parseFwd (kind @ '':'' @ a) False = Return (''tcp:localhost:'' @ a)" using c parseFwd_kind [of kind a] by simp
    then show ?thesis by (rule that) (use 1 parseFwd_back in simp_all)
  next
    case 2
    then have "parseFwd (kind @ '':'' @ a) False = Return (''unix:@'' @ a)" using c parseFwd_kind [of kind a] by simp
    then show ?thesis by (rule that) (use 2 parseFwd_back in simp_all)
  next
    case 3
    then have "parseFwd (kind @ '':'' @ a) False = Return (''unix:'' @ a)" using c parseFwd_kind [of kind a] by simp
    then show ?thesis by (rule that) (use 3 parseFwd_back in simp_all)
  qed
qed

lemma list_lines_ok:
  assumes "\<And>f. f \<in> set ss \<Longrightarrow> \<exists>s d. parseFwd (fs_src f) True = Return s \<and> parseFwd (fs_dst f) True = Return d"
  shows "\<exists>out. list_lines ss = (Ended None, out) \<and> length out = length ss \<and>
           (\<forall>f s d. f \<in> set ss \<longrightarrow> parseFwd (fs_src f) True = Return s \<longrightarrow> parseFwd (fs_dst f) True = Return d \<longrightarrow>
              (''localhost:foo '' @ s @ '' '' @ d @ [CHR 0x0A]) \<in> set out)"
  using assms
proof (induction ss)
  case (Cons x ss)
  obtain s d where "parseFwd (fs_src x) True = Return s" "parseFwd (fs_dst x) True = Return d" using Cons.prems by fastforce
  moreover obtain out where "list_lines ss = (Ended None, out)" "length out = length ss"
     "\<forall>f s d. f \<in> set ss \<longrightarrow> parseFwd (fs_src f) True = Return s \<longrightarrow> parseFwd (fs_dst f) True = Return d \<longrightarrow>
              (''localhost:foo '' @ s @ '' '' @ d @ [CHR 0x0A]) \<in> set out"
    using Cons.IH Cons.prems by (metis list.set_intros(2))
  ultimately show ?case by auto
qed simp

text \<open>The options a command line may start with, and what they mean.\<close>

datatype adb_option = Serial string | WaitForDevice | Ignored string string

fun show_option :: "adb_option \<Rightarrow> string list" where
  "show_option (Serial d) = [''-s'', d]"
| "show_option WaitForDevice = [''wait-for-device'']"
| "show_option (Ignored opt v) = [opt, v]"

fun device_of :: "string \<Rightarrow> adb_option list \<Rightarrow> string" where
  "device_of dev [] = dev"
| "device_of dev (Serial d # os) = device_of d os"
| "device_of dev (_ # os) = device_of dev os"

fun option_ok :: "adb_option \<Rightarrow> bool" where
  "option_ok (Ignored opt v) \<longleftrightarrow> opt \<in> set ignored_options"
| "option_ok _ \<longleftrightarrow> True"

definition option_words :: "string set" where
  "option_words = set unsupported_options \<union> set ignored_options \<union> {''-s'', ''wait-for-device''}"

lemma parse_options_command:
  "c \<notin> option_words \<Longrightarrow> parse_options dev (c # args) = Return \<lparr>pg_Device = dev, pg_Command = c, pg_Args = c # args\<rparr>"
  by (cases args) (auto simp: option_words_def command_at_def)

lemma option_words_distinct:
  "''-s'' \<notin> set unsupported_options" "''wait-for-device'' \<notin> set unsupported_options"
  "x \<in> set ignored_options \<Longrightarrow> x \<notin> set unsupported_options \<and> x \<noteq> ''-s'' \<and> x \<noteq> ''wait-for-device''"
  by (auto simp: unsupported_options_def ignored_options_def)

lemma parse_options_spec:
  "list_all option_ok os \<Longrightarrow> c \<notin> option_words \<Longrightarrow>
     parse_options dev (concat (map show_option os) @ c # args) =
       Return \<lparr>pg_Device = device_of dev os, pg_Command = c, pg_Args = c # args\<rparr>"
proof (induction os arbitrary: dev)
  case (Cons o1 os)
  obtain x xs where more1: "concat (map show_option os) @ c # args = x # xs" by (metis list.exhaust append_is_Nil_conv neq_Nil_conv)
  show ?case
    using Cons more1 option_words_distinct(1,2) by (cases o1) (auto dest: option_words_distinct(3))
qed (simp add: parse_options_command)

text \<open>What a command leaves untouched when it ends with a parsing error.\<close>

lemma list_lines_end: "fst (list_lines ss) = Ended (Some e) \<Longrightarrow> e = ParseError"
  by (induction ss) (auto simp: parseFwd_def Let_def obind_def idx_def split: outcome.splits prod.splits if_splits)


section \<open>Properties\<close>

text \<open>
  Addresses of adb. A TCP port, an abstract socket and a reserved socket whose name does not start with
  \<open>@\<close> are translated into an address that the port forwarder accepts, and the translation back, which the
  listing uses, gives the address that was typed.
\<close>

theorem parseFwd_roundtrip:
  assumes "adb_addr kind a"
  shows "\<exists>b k r n. parseFwd (kind @ '':'' @ a) False = Return b \<and> parseFwd b True = Return (kind @ '':'' @ a) \<and>
           ports_parseAddr b = Inr (k, r) \<and> networkKind k = Inr n"
proof -
  obtain b where b: "parseFwd (kind @ '':'' @ a) False = Return b" "parseFwd b True = Return (kind @ '':'' @ a)"
    "b = ''tcp:localhost:'' @ a \<or> b = ''unix:'' @ a \<or> b = ''unix:@'' @ a"
    using adb_addr_roundtrip [OF assms] by blast
  from b(3) have "ports_parseAddr b = Inr (''tcp'', ''localhost:'' @ a) \<or> ports_parseAddr b = Inr (''unix'', a) \<or>
      ports_parseAddr b = Inr (''unix'', ''@'' @ a)"
    by (auto simp: ports_parseAddr_iff)
  moreover have "networkKind ''tcp'' = Inr TCP" "networkKind ''unix'' = Inr UNIX" by (simp_all add: networkKind_def)
  ultimately show ?thesis using b(1,2) by blast
qed

theorem parseFwd_roundtrip_witness:
  "adb_addr ''localabstract'' ''svc'' \<and>
   (\<exists>b. parseFwd ''localabstract:svc'' False = Return b \<and> parseFwd b True = Return ''localabstract:svc'')"
proof -
  have a: "adb_addr ''localabstract'' ''svc''" by (simp add: adb_addr_def)
  then show ?thesis using parseFwd_roundtrip [OF a] by auto
qed

text \<open>
  Forward, then list. In every reachable state of the daemon whose sessions can be listed, a successful
  \<open>adb forward SRC DST\<close> is followed by a listing that succeeds, has a line for every session of the daemon and
  among them the line with exactly the two addresses that were typed.
\<close>

theorem forward_then_list:
  assumes "pf_reach n pf" and "ae_dial env = None" and "adb_addr k1 a1" and "adb_addr k2 a2"
    and "\<forall>f \<in> set (List_sessions pf). \<exists>s d. parseFwd (fs_src f) True = Return s \<and> parseFwd (fs_dst f) True = Return d"
    and "forwardFn env [''forward'', k1 @ '':'' @ a1, k2 @ '':'' @ a2] pf = (Ended None, out, pf')"
  shows "\<exists>lines. forwardFn env [''forward'', ''--list''] pf' = (Ended None, lines, pf') \<and>
           length lines = length (List_sessions pf') \<and>
           ''localhost:foo '' @ (k1 @ '':'' @ a1) @ '' '' @ (k2 @ '':'' @ a2) @ [CHR 0x0A] \<in> set lines"
proof -
  obtain src dst where src: "parseFwd (k1 @ '':'' @ a1) False = Return src" "parseFwd src True = Return (k1 @ '':'' @ a1)"
    and dst: "parseFwd (k2 @ '':'' @ a2) False = Return dst" "parseFwd dst True = Return (k2 @ '':'' @ a2)"
    using adb_addr_roundtrip [OF assms(3)] adb_addr_roundtrip [OF assms(4)] by metis
  let ?r = "\<lparr>pr_rebind = True, pr_session = \<lparr>fs_src = src, fs_dst = dst\<rparr>\<rparr>"
  have "k1 @ '':'' @ a1 \<notin> {''--list'', ''--remove'', ''--remove-all'', ''--no-rebind''}"
    using assms(3) by (auto simp: adb_addr_def)
  then have fp: "ForwardPort ?r pf = (None, pf')"
    using assms(2,6) src(1) dst(1)
    by (auto simp: forwardFn_def with_conn_def with_pair_def parse_arg_def split: prod.splits)
  note inv = pf_reach_inv [OF assms(1)]
  have new: "filter (\<lambda>f. fs_src f = src) (List_sessions pf') = [pr_session ?r]"
    using ports.listing_after_forward(1) [OF inv fp] by simp
  have old: "f \<in> set (List_sessions pf') \<Longrightarrow> fs_src f \<noteq> src \<Longrightarrow> f \<in> set (List_sessions pf)" for f
    using ports.listing_after_forward(2) [OF inv fp, of f] by simp
  have mem: "pr_session ?r \<in> set (List_sessions pf')" using new [THEN arg_cong [of _ _ set]] by auto
  have ok: "\<exists>s d. parseFwd (fs_src f) True = Return s \<and> parseFwd (fs_dst f) True = Return d" if f: "f \<in> set (List_sessions pf')" for f
  proof (cases "fs_src f = src")
    case True
    then have "f \<in> set (filter (\<lambda>f. fs_src f = src) (List_sessions pf'))" using f by simp
    then show ?thesis using src(2) dst(2) unfolding new by auto
  qed (use old [OF f] assms(5) in blast)
  from list_lines_ok [OF this, of "List_sessions pf'"] show ?thesis
    using mem src(2) dst(2) assms(2) by (fastforce simp: forwardFn_def with_conn_def)
qed

definition adb_ok :: adb_env where
  "adb_ok = \<lparr>ae_dial = None, ae_exec = (\<lambda>_ _. (0, [], None)), ae_push = (\<lambda>_ _. None), ae_pull = (\<lambda>_ _. None),
     ae_open = (\<lambda>_. None), ae_install = (\<lambda>_ _. ([], None)), ae_propagate = [], ae_stopErr = None, ae_startErr = None\<rparr>"

theorem forward_then_list_witness:
  "let pf' = snd (snd (forwardFn adb_ok [''forward'', ''tcp:1'', ''tcp:2''] (NewServer host_net)))
   in \<exists>lines. forwardFn adb_ok [''forward'', ''--list''] pf' = (Ended None, lines, pf') \<and> length lines = length (List_sessions pf') \<and>
        ''localhost:foo tcp:1 tcp:2'' @ [CHR 0x0A] \<in> set lines"
proof -
  have r: "pf_reach host_net (NewServer host_net)" by (rule pf_reach.start) (simp add: host_net_def)
  have a: "adb_addr ''tcp'' ''1''" "adb_addr ''tcp'' ''2''" by (simp_all add: adb_addr_def)
  have p: "parseFwd ''tcp:1'' False = Return ''tcp:localhost:1''" "parseFwd ''tcp:2'' False = Return ''tcp:localhost:2''"
    "ports_parseAddr ''tcp:localhost:1'' = Inr (''tcp'', ''localhost:1'')"
    "ports_parseAddr ''tcp:localhost:2'' = Inr (''tcp'', ''localhost:2'')" by code_simp+
  have "fst (forwardFn adb_ok [''forward'', ''tcp:1'', ''tcp:2''] (NewServer host_net)) = Ended None"
    by (simp add: forwardFn_def with_conn_def with_pair_def parse_arg_def adb_ok_def p ForwardPort_def
        NewServer_def start_forward_def net_listen_def host_net_def)
  then obtain out pf' where f: "forwardFn adb_ok [''forward'', ''tcp:1'', ''tcp:2''] (NewServer host_net) = (Ended None, out, pf')"
    by (metis prod.collapse)
  have "ae_dial adb_ok = None" "List_sessions (NewServer host_net) = []"
    by (simp_all add: adb_ok_def List_sessions_def NewServer_def)
  then show ?thesis using forward_then_list [OF r _ a, of adb_ok out pf'] f by (simp add: Let_def)
qed



text \<open>
  Missing addresses crash the tool. The commands \<open>forward A\<close>, \<open>forward --no-rebind A\<close> and \<open>reverse A\<close> pass
  the check on the number of arguments, and then index an argument that is not there, for every address \<open>A\<close> that
  can be translated and every state of the daemon.
\<close>

theorem missing_address_panics:
  assumes "ae_dial env = None" and "adb_addr kind a"
  shows "fst (forwardFn env [''forward'', kind @ '':'' @ a] pf) = Crashed \<and>
         fst (forwardFn env [''forward'', ''--no-rebind'', kind @ '':'' @ a] pf) = Crashed \<and>
         fst (reverseFn env [''reverse'', kind @ '':'' @ a] pf) = Crashed"
proof -
  obtain b where b: "parseFwd (kind @ '':'' @ a) False = Return b" using adb_addr_roundtrip [OF assms(2)] by blast
  have "kind @ '':'' @ a \<notin> {''--list'', ''--remove'', ''--remove-all'', ''--no-rebind''}"
    using assms(2) by (auto simp: adb_addr_def)
  then show ?thesis
    using b assms(1) by (auto simp: forwardFn_def reverseFn_def with_conn_def with_pair_def parse_arg_def)
qed

theorem missing_address_panics_witness:
  "fst (forwardFn adb_ok [''forward'', ''tcp:80''] (NewServer host_net)) = Crashed"
  using missing_address_panics [of adb_ok "''tcp''" "''80''" "NewServer host_net"]
  by (simp add: adb_ok_def adb_addr_def)

lemma with_conn_frame: "snd (snd r) = pf \<Longrightarrow> snd (snd (with_conn env pf r)) = pf"
  by (simp add: with_conn_def split: option.splits)

lemma with_pair_frame: "fst (with_pair args i j pf f) = Ended (Some ParseError) \<Longrightarrow> snd (snd (with_pair args i j pf f)) = pf"
  by (auto simp: with_pair_def split: outcome.splits prod.splits)

lemma forwardFn_frame: "fst (forwardFn env args pf) = Ended (Some ParseError) \<Longrightarrow> snd (snd (forwardFn env args pf)) = pf"
proof (cases "ae_dial env")
  case None
  assume "fst (forwardFn env args pf) = Ended (Some ParseError)"
  then show ?thesis
    using with_pair_frame [of args 2 3 pf "\<lambda>s. ForwardPort \<lparr>pr_rebind = False, pr_session = s\<rparr> pf"]
      with_pair_frame [of args 1 2 pf "\<lambda>s. ForwardPort \<lparr>pr_rebind = True, pr_session = s\<rparr> pf"]
    by (auto simp: forwardFn_def with_conn_def None split: outcome.splits prod.splits if_splits)
qed (auto simp: forwardFn_def with_conn_def)

lemma reverseFn_frame: "fst (reverseFn env args pf) = Ended (Some ParseError) \<Longrightarrow> snd (snd (reverseFn env args pf)) = pf"
  using with_pair_frame [of args 1 2 pf]
  by (auto simp: reverseFn_def with_conn_def split: option.splits if_splits)

lemma other_commands_frame:
  "snd (snd (shellFn env args pf)) = pf" "snd (snd (pushFn env args pf)) = pf" "snd (snd (pullFn env args pf)) = pf"
  "snd (snd (installFn env args pf)) = pf" "snd (snd (passthroughFn env args pf)) = pf"
  "snd (snd (uninstallFn env args pf)) = pf" "snd (snd (bugreportFn env args pf)) = pf"
  by (simp_all add: shellFn_def pushFn_def pullFn_def installFn_def passthroughFn_def uninstallFn_def bugreportFn_def
      from_shell_def Let_def with_conn_frame split: outcome.splits option.splits list.splits prod.splits adb_end.splits)

lemma Commands_frame:
  assumes "map_of Commands c = Some fn" and "fst (fn env args pf) = Ended (Some ParseError)"
  shows "snd (snd (fn env args pf)) = pf"
proof -
  have "fn \<in> {shellFn, pushFn, pullFn, forwardFn, reverseFn, bugreportFn, passthroughFn, installFn, uninstallFn}"
    using map_of_SomeD [OF assms(1)] by (auto simp: Commands_def)
  then show ?thesis using assms(2) forwardFn_frame reverseFn_frame other_commands_frame by auto
qed

text \<open>
  Handing over to the platform's adb: the process ends with the exit code of the program that was run with
  the same arguments, if one is configured and can be started.
\<close>

lemma Fallback_exit_code:
  assumes "platformADB getenv = Inr bin" and "startCmd (bin # args) = None"
  shows "Fallback getenv startCmd waitCmd args = ExitCode n \<longleftrightarrow>
    waitCmd (bin # args) = (if n = 0 then None else Some (ExitError n)) \<or> n = 0 \<and> waitCmd (bin # args) = Some (ExitError 0)"
  using assms by (auto simp: Fallback_def split: option.splits go_error.splits)

text \<open>
  Falling back is clean. Whenever the tool hands the command line to the platform's adb, whatever the
  command line, the device and the daemon did before, it has not changed the sessions of the daemon: adb
  finds the state as it was.
\<close>

theorem fallback_is_clean:
  assumes "fst (runCommand netDial env args pf) = FallBack"
  shows "snd (snd (runCommand netDial env args pf)) = pf"
  using assms Commands_frame [of _ _ env _ pf]
  by (auto simp: runCommand_def split: outcome.splits prod.splits option.splits if_splits) (metis fst_conv snd_conv)+

theorem fallback_is_clean_witness:
  "fst (runCommand (\<lambda>_ _. None) adb_ok [''-s'', ''emu'', ''forward'', ''udp:1'', ''tcp:2''] (NewServer host_net)) = FallBack \<and>
   snd (snd (runCommand (\<lambda>_ _. None) adb_ok [''-s'', ''emu'', ''forward'', ''udp:1'', ''tcp:2''] (NewServer host_net))) = NewServer host_net"
proof -
  have "ParseCommand [''-s'', ''emu'', ''forward'', ''udp:1'', ''tcp:2''] =
      Return \<lparr>pg_Device = ''emu'', pg_Command = ''forward'', pg_Args = [''forward'', ''udp:1'', ''tcp:2'']\<rparr>"
    "adb_parseAddr ''emu'' = Return (''unix'', ''@h2o_emu'')" "parseFwd ''udp:1'' False = Fail ParseError"
    by code_simp+
  then have "fst (runCommand (\<lambda>_ _. None) adb_ok [''-s'', ''emu'', ''forward'', ''udp:1'', ''tcp:2''] (NewServer host_net)) = FallBack"
    by (simp add: runCommand_def Commands_def forwardFn_def with_conn_def with_pair_def parse_arg_def adb_ok_def)
  then show ?thesis using fallback_is_clean by blast
qed

end
