(* ===== verification/Reverse.thy ===== *)
theory Reverse
  imports Proto "HOL-Library.AList"
begin

text \<open>
  Reverse forwarding on the device, from \<open>server/server.go\<close>: \<open>StartReverseForward\<close> listens on the device
  and announces every accepted connection to the host with a message that names it, \<open>ReverseForward\<close>
  is the stream the host opens for a named connection, \<open>StopReverseForward\<close> ends a session.

  Sessions are heap objects: the table maps an address to a pointer, and a call of
  \<open>StartReverseForward\<close> or \<open>ReverseForward\<close> keeps its pointer when the table forgets it. The calls are
  modelled up to their blocking points: the part before the accept loop, one turn of the loop, the part
  before the stream is forwarded and the part after. What the kernel answers is a parameter.
\<close>

section \<open>State\<close>

record reverseForwardSession =
  rs_addr :: string
  rs_lis :: nat
  rs_connMap :: "(64 word \<times> nat) list"

text \<open>
  \<open>dn_answer i kind addr\<close> is what the kernel says to the request for listener \<open>i\<close>: an error, or the port
  that the listener reports.
\<close>

record device_net =
  dn_open :: "nat list"
  dn_next :: nat
  dn_answer :: "nat \<Rightarrow> string \<Rightarrow> string \<Rightarrow> nat result"

record WaterfallServer =
  ws_sessions :: "(string \<times> nat) list"
  ws_heap :: "reverseForwardSession list"
  ws_net :: device_net
  ws_closed :: "nat list"

definition New :: "device_net \<Rightarrow> WaterfallServer" where
  "New n = \<lparr>ws_sessions = [], ws_heap = [], ws_net = n, ws_closed = []\<rparr>"

definition dn_close :: "nat \<Rightarrow> device_net \<Rightarrow> device_net" where
  "dn_close l n = n\<lparr>dn_open := removeAll l (dn_open n)\<rparr>"

definition ws_close :: "nat \<Rightarrow> WaterfallServer \<Rightarrow> WaterfallServer" where
  "ws_close l s = s\<lparr>ws_net := dn_close l (ws_net s)\<rparr>"


section \<open>Operations\<close>

text \<open>\<open>listenerPort\<close>: the port of a TCP or UDP address, and 0 for any other type of address.\<close>

definition listenerPort :: "string \<Rightarrow> nat \<Rightarrow> nat" where
  "listenerPort kind port = (if kind = ''tcp'' \<or> kind = ''udp'' then port else 0)"

fun build_attempts :: "nat \<Rightarrow> string \<Rightarrow> string \<Rightarrow> device_net \<Rightarrow> (nat \<times> nat) result \<times> device_net" where
  "build_attempts 0 kind address n =
     (Inl (Errorf ''failed to bind to free port when any available port requested''), n)"
| "build_attempts (Suc i) kind address n =
     (case dn_answer n (dn_next n) kind address of
        Inl e \<Rightarrow> (Inl e, n)
      | Inr port \<Rightarrow>
          let l = dn_next n; n' = n\<lparr>dn_open := l # dn_open n, dn_next := Suc l\<rparr>
          in if listenerPort kind port \<noteq> 0 then (Inr (l, port), n')
             else build_attempts i kind address (dn_close l n'))"

definition buildListener :: "string \<Rightarrow> string \<Rightarrow> device_net \<Rightarrow> (nat \<times> nat) result \<times> device_net" where
  "buildListener kind address n = build_attempts 3 kind address n"

text \<open>The variables of a running call of \<open>StartReverseForward\<close>.\<close>

record srf_call =
  sl_fwd :: ForwardMessage
  sl_addr :: string
  sl_ss :: nat
  sl_lis :: nat
  sl_cid :: "64 word"

text \<open>
  \<open>StartReverseForward\<close> up to its loop: an error, or the running call and the messages it sent. The
  error of sending the announcement is ignored by the code.
\<close>

definition StartReverseForward ::
    "ForwardMessage \<Rightarrow> WaterfallServer \<Rightarrow> (srf_call \<times> ForwardMessage list) result \<times> WaterfallServer"
where
  "StartReverseForward fwd s =
     (if fm_op fwd \<noteq> OPEN then (Inl (StatusErr InvalidArgument ''unexpected forward kind''), s)
      else case networkDescription (fm_kind fwd) of
        Inl e \<Rightarrow> (Inl e, s)
      | Inr kind \<Rightarrow>
          if map_of (ws_sessions s) (kind @ '':'' @ fm_addr fwd) \<noteq> None
          then (Inl (StatusErr AlreadyExists ''address already being forwarded''), s)
          else case buildListener kind (fm_addr fwd) (ws_net s) of
            (Inl e, n) \<Rightarrow> (Inl e, s\<lparr>ws_net := n\<rparr>)
          | (Inr (lis, port), n) \<Rightarrow>
              let announceAddr = fm_addr fwd = ''localhost:0'' \<and> (kind = ''tcp'' \<or> kind = ''udp'');
                  fwd' = (if announceAddr then fwd\<lparr>fm_addr := ''localhost:'' @ show_nat (listenerPort kind port)\<rparr> else fwd);
                  addr = (if announceAddr \<and> fm_kind fwd = TCP then ''tcp:'' @ fm_addr fwd'
                          else if announceAddr \<and> fm_kind fwd = UDP then ''udp:'' @ fm_addr fwd'
                          else kind @ '':'' @ fm_addr fwd);
                  p = length (ws_heap s);
                  ss = \<lparr>rs_addr = addr, rs_lis = lis, rs_connMap = []\<rparr>
              in (Inr (\<lparr>sl_fwd = fwd', sl_addr = addr, sl_ss = p, sl_lis = lis, sl_cid = 0\<rparr>,
                       if announceAddr
                       then [zeroForwardMessage\<lparr>fm_op := ANNOUNCE, fm_addr := addr, fm_kind := fm_kind fwd\<rparr>] else []),
                  s\<lparr>ws_net := n, ws_heap := ws_heap s @ [ss], ws_sessions := AList.update addr p (ws_sessions s)\<rparr>))"

text \<open>
  One turn of the loop. \<open>acc\<close> is what \<open>Accept\<close> returned, \<open>sendErr\<close> the outcome of the send. A call that
  returns closes its listener.
\<close>

definition heap_conns :: "nat \<Rightarrow> ((64 word \<times> nat) list \<Rightarrow> (64 word \<times> nat) list) \<Rightarrow> WaterfallServer \<Rightarrow> WaterfallServer" where
  "heap_conns p f s = s\<lparr>ws_heap := (ws_heap s)[p := (ws_heap s ! p)\<lparr>rs_connMap := f (rs_connMap (ws_heap s ! p))\<rparr>]\<rparr>"

definition open_msg :: "srf_call \<Rightarrow> 64 word \<Rightarrow> ForwardMessage" where
  "open_msg c cID = zeroForwardMessage\<lparr>fm_op := OPEN,
     fm_addr := fm_addr (sl_fwd c) @ ''/'' @ show_nat (unat cID), fm_kind := fm_kind (sl_fwd c)\<rparr>"

definition accept_loop ::
    "nat result \<Rightarrow> go_error option \<Rightarrow> srf_call \<Rightarrow> WaterfallServer \<Rightarrow> srf_call result \<times> ForwardMessage list \<times> WaterfallServer"
where
  "accept_loop acc sendErr c s =
     (case acc of
        Inl e \<Rightarrow> (Inl e, [], ws_close (sl_lis c) s)
      | Inr conn \<Rightarrow>
          let cID = sl_cid c + 1; s1 = heap_conns (sl_ss c) (AList.update cID conn) s
          in case sendErr of
               Some e \<Rightarrow> (Inl e, [], ws_close (sl_lis c) (s1\<lparr>ws_sessions := AList.delete (sl_addr c) (ws_sessions s1)\<rparr>))
             | None \<Rightarrow> (Inr (c\<lparr>sl_cid := cID\<rparr>), [open_msg c cID], s1))"

text \<open>
  \<open>ReverseForward\<close> before the stream is forwarded: the session, the identifier and the connection, or
  the error; and after, whatever the outcome of the forwarding was.
\<close>

definition ReverseForward :: "ForwardMessage \<Rightarrow> WaterfallServer \<Rightarrow> (nat \<times> 64 word \<times> nat) result" where
  "ReverseForward fwd s =
     (case networkDescription (fm_kind fwd) of
        Inl e \<Rightarrow> Inl e
      | Inr kind \<Rightarrow>
          (case splitN 2 (CHR ''/'') (fm_addr fwd) of
             [a, i] \<Rightarrow>
               (case parse_uint64 i of
                  Inl _ \<Rightarrow> Inl (StatusErr InvalidArgument (''unable to parse cID from src address \"'' @ fm_addr fwd @ ''\"''))
                | Inr cID \<Rightarrow>
                    (case map_of (ws_sessions s) (kind @ '':'' @ a) of
                       None \<Rightarrow> Inl (StatusErr NotFound (''forwarding session for '' @ kind @ '':'' @ a @ '' does not exist''))
                     | Some p \<Rightarrow>
                         (case map_of (rs_connMap (ws_heap s ! p)) cID of
                            None \<Rightarrow> Inl (StatusErr NotFound (''forwarding session for '' @ fm_addr fwd @ '' does not exist''))
                          | Some conn \<Rightarrow> Inr (p, cID, conn))))
           | _ \<Rightarrow> Inl (StatusErr InvalidArgument (''unable to parse src address \"'' @ fm_addr fwd @ ''\"''))))"

definition ReverseForward_done :: "nat \<Rightarrow> 64 word \<Rightarrow> WaterfallServer \<Rightarrow> WaterfallServer" where
  "ReverseForward_done p cID s = heap_conns p (AList.delete cID) s"

definition StopReverseForward :: "ForwardMessage \<Rightarrow> WaterfallServer \<Rightarrow> go_error option \<times> WaterfallServer" where
  "StopReverseForward fwd s =
     (case networkDescription (fm_kind fwd) of
        Inl e \<Rightarrow> (Some e, s)
      | Inr kind \<Rightarrow>
          (case map_of (ws_sessions s) (kind @ '':'' @ fm_addr fwd) of
             None \<Rightarrow> (None, s)
           | Some p \<Rightarrow>
               let s1 = ws_close (rs_lis (ws_heap s ! p))
                          (s\<lparr>ws_sessions := AList.delete (kind @ '':'' @ fm_addr fwd) (ws_sessions s)\<rparr>)
               in (None, s1\<lparr>ws_closed := map snd (rs_connMap (ws_heap s ! p)) @ ws_closed s1\<rparr>)))"


section \<open>Steps\<close>

text \<open>
  The server with its running calls. \<open>Accept\<close> returns a connection only on an open listener, and an error
  at any time. The host may send any message.
\<close>

record device =
  dv_srv :: WaterfallServer
  dv_calls :: "srf_call list"
  dv_streams :: "(nat \<times> 64 word \<times> nat) list"

inductive dev_step :: "device \<Rightarrow> device \<Rightarrow> bool" where
  start_ok: "StartReverseForward fwd (dv_srv d) = (Inr (c, ms), s') \<Longrightarrow>
    dev_step d (d\<lparr>dv_srv := s', dv_calls := c # dv_calls d\<rparr>)"
| start_err: "StartReverseForward fwd (dv_srv d) = (Inl e, s') \<Longrightarrow> dev_step d (d\<lparr>dv_srv := s'\<rparr>)"
| accept_ok: "c \<in> set (dv_calls d) \<Longrightarrow> sl_lis c \<in> set (dn_open (ws_net (dv_srv d))) \<Longrightarrow>
    accept_loop (Inr conn) None c (dv_srv d) = (Inr c', ms, s') \<Longrightarrow>
    dev_step d (d\<lparr>dv_srv := s', dv_calls := c' # remove1 c (dv_calls d)\<rparr>)"
| accept_send_err: "c \<in> set (dv_calls d) \<Longrightarrow> sl_lis c \<in> set (dn_open (ws_net (dv_srv d))) \<Longrightarrow>
    accept_loop (Inr conn) (Some e) c (dv_srv d) = (Inl e, ms, s') \<Longrightarrow>
    dev_step d (d\<lparr>dv_srv := s', dv_calls := remove1 c (dv_calls d)\<rparr>)"
| accept_err: "c \<in> set (dv_calls d) \<Longrightarrow> accept_loop (Inl e) sendErr c (dv_srv d) = (Inl e, ms, s') \<Longrightarrow>
    dev_step d (d\<lparr>dv_srv := s', dv_calls := remove1 c (dv_calls d)\<rparr>)"
| stream_begin: "ReverseForward fwd (dv_srv d) = Inr x \<Longrightarrow> dev_step d (d\<lparr>dv_streams := x # dv_streams d\<rparr>)"
| stream_end: "(p, cID, conn) \<in> set (dv_streams d) \<Longrightarrow>
    dev_step d (d\<lparr>dv_srv := ReverseForward_done p cID (dv_srv d),
                  dv_streams := remove1 (p, cID, conn) (dv_streams d)\<rparr>)"
| stop: "StopReverseForward fwd (dv_srv d) = (e, s') \<Longrightarrow> dev_step d (d\<lparr>dv_srv := s'\<rparr>)"

inductive dev_reach :: "device_net \<Rightarrow> device \<Rightarrow> bool" for n where
  dev_start: "dn_open n = [] \<Longrightarrow> dev_reach n \<lparr>dv_srv = New n, dv_calls = [], dv_streams = []\<rparr>"
| dev_next: "dev_reach n d \<Longrightarrow> dev_step d d' \<Longrightarrow> dev_reach n d'"


section \<open>Invariant\<close>

definition running :: "device \<Rightarrow> nat \<Rightarrow> bool" where
  "running d p \<longleftrightarrow> (\<exists>c \<in> set (dv_calls d). sl_ss c = p)"

abbreviation listening :: "device \<Rightarrow> nat \<Rightarrow> bool" where
  "listening d l \<equiv> l \<in> set (dn_open (ws_net (dv_srv d)))"

definition dev_inv :: "device \<Rightarrow> bool" where
  "dev_inv d \<longleftrightarrow>
     (let s = dv_srv d; h = ws_heap s in
        (\<forall>l. listening d l \<longrightarrow> l < dn_next (ws_net s) \<and> (\<exists>c \<in> set (dv_calls d). sl_lis c = l)) \<and>
        (\<forall>r \<in> set h. rs_lis r < dn_next (ws_net s)) \<and>
        (\<forall>c \<in> set (dv_calls d). sl_ss c < length h \<and> rs_lis (h ! sl_ss c) = sl_lis c \<and> rs_addr (h ! sl_ss c) = sl_addr c) \<and>
        (\<forall>k p. map_of (ws_sessions s) k = Some p \<longrightarrow>
           p < length h \<and> rs_addr (h ! p) = k \<and> (running d p \<or> \<not> listening d (rs_lis (h ! p)))))"

lemma dev_invI:
  assumes "\<And>l. listening d l \<Longrightarrow> l < dn_next (ws_net (dv_srv d)) \<and> (\<exists>c \<in> set (dv_calls d). sl_lis c = l)"
    and "\<And>r. r \<in> set (ws_heap (dv_srv d)) \<Longrightarrow> rs_lis r < dn_next (ws_net (dv_srv d))"
    and "\<And>c. c \<in> set (dv_calls d) \<Longrightarrow> sl_ss c < length (ws_heap (dv_srv d)) \<and>
           rs_lis (ws_heap (dv_srv d) ! sl_ss c) = sl_lis c \<and> rs_addr (ws_heap (dv_srv d) ! sl_ss c) = sl_addr c"
    and "\<And>k p. map_of (ws_sessions (dv_srv d)) k = Some p \<Longrightarrow> p < length (ws_heap (dv_srv d)) \<and>
           rs_addr (ws_heap (dv_srv d) ! p) = k \<and> (running d p \<or> \<not> listening d (rs_lis (ws_heap (dv_srv d) ! p)))"
  shows "dev_inv d"
  unfolding dev_inv_def Let_def using assms by blast

lemma dev_invD:
  assumes "dev_inv d"
  shows "listening d l \<Longrightarrow> l < dn_next (ws_net (dv_srv d)) \<and> (\<exists>c \<in> set (dv_calls d). sl_lis c = l)"
    and "r \<in> set (ws_heap (dv_srv d)) \<Longrightarrow> rs_lis r < dn_next (ws_net (dv_srv d))"
    and "c \<in> set (dv_calls d) \<Longrightarrow> sl_ss c < length (ws_heap (dv_srv d)) \<and>
           rs_lis (ws_heap (dv_srv d) ! sl_ss c) = sl_lis c \<and> rs_addr (ws_heap (dv_srv d) ! sl_ss c) = sl_addr c"
    and "map_of (ws_sessions (dv_srv d)) k = Some p \<Longrightarrow> p < length (ws_heap (dv_srv d)) \<and>
           rs_addr (ws_heap (dv_srv d) ! p) = k \<and> (running d p \<or> \<not> listening d (rs_lis (ws_heap (dv_srv d) ! p)))"
  using assms unfolding dev_inv_def Let_def by blast+

lemma ws_close_simps [simp]:
  "ws_sessions (ws_close l s) = ws_sessions s" "ws_heap (ws_close l s) = ws_heap s"
  "ws_closed (ws_close l s) = ws_closed s" "dn_next (ws_net (ws_close l s)) = dn_next (ws_net s)"
  "dn_open (ws_net (ws_close l s)) = removeAll l (dn_open (ws_net s))"
  by (simp_all add: ws_close_def dn_close_def)

lemma heap_conns_simps [simp]:
  "ws_sessions (heap_conns p f s) = ws_sessions s" "ws_net (heap_conns p f s) = ws_net s"
  "ws_closed (heap_conns p f s) = ws_closed s" "length (ws_heap (heap_conns p f s)) = length (ws_heap s)"
  by (simp_all add: heap_conns_def)

lemma heap_conns_nth [simp]:
  "rs_lis (ws_heap (heap_conns p f s) ! q) = rs_lis (ws_heap s ! q) \<and>
   rs_addr (ws_heap (heap_conns p f s) ! q) = rs_addr (ws_heap s ! q)"
proof (cases "p < length (ws_heap s)")
  case True
  then show ?thesis by (cases "p = q") (simp_all add: heap_conns_def)
qed (simp add: heap_conns_def list_update_beyond)

lemma heap_conns_lis: "r \<in> set (ws_heap (heap_conns p f s)) \<Longrightarrow> \<exists>r' \<in> set (ws_heap s). rs_lis r' = rs_lis r"
proof -
  assume "r \<in> set (ws_heap (heap_conns p f s))"
  then obtain q where q: "q < length (ws_heap s)" "r = ws_heap (heap_conns p f s) ! q" by (auto simp: in_set_conv_nth)
  then show ?thesis by (intro bexI [of _ "ws_heap s ! q"]) simp_all
qed

lemma build_attempts_ok:
  "build_attempts i kind a n = (Inr (l, port), n') \<Longrightarrow> (\<And>j. j \<in> set (dn_open n) \<Longrightarrow> j < dn_next n) \<Longrightarrow>
     dn_open n' = l # dn_open n \<and> dn_next n \<le> l \<and> dn_next n' = Suc l \<and> listenerPort kind port \<noteq> 0"
proof (induction i kind a n rule: build_attempts.induct)
  case (2 i kind a n)
  have free: "removeAll (dn_next n) (dn_open n) = dn_open n" using 2(3) by (intro removeAll_id) auto
  show ?case
  proof (cases "dn_answer n (dn_next n) kind a")
    case (Inr q)
    show ?thesis
    proof (cases "listenerPort kind q = 0")
      case True
      let ?n = "dn_close (dn_next n) (n\<lparr>dn_open := dn_next n # dn_open n, dn_next := Suc (dn_next n)\<rparr>)"
      have "dn_open ?n = dn_open n" "dn_next ?n = Suc (dn_next n)" by (simp_all add: dn_close_def free)
      then show ?thesis using 2(1) [OF Inr refl refl] 2(2,3) True Inr by (fastforce simp: Let_def intro: less_SucI)
    qed (use 2(2) Inr in \<open>auto simp: Let_def\<close>)
  qed (use 2(2) in simp)
qed simp

lemma build_attempts_err:
  "build_attempts i kind a n = (Inl e, n') \<Longrightarrow> (\<And>j. j \<in> set (dn_open n) \<Longrightarrow> j < dn_next n) \<Longrightarrow>
     dn_open n' = dn_open n \<and> dn_next n \<le> dn_next n'"
proof (induction i kind a n rule: build_attempts.induct)
  case (2 i kind a n)
  have free: "removeAll (dn_next n) (dn_open n) = dn_open n" using 2(3) by (intro removeAll_id) auto
  show ?case
  proof (cases "dn_answer n (dn_next n) kind a")
    case (Inr q)
    let ?n = "dn_close (dn_next n) (n\<lparr>dn_open := dn_next n # dn_open n, dn_next := Suc (dn_next n)\<rparr>)"
    have "dn_open ?n = dn_open n" "dn_next ?n = Suc (dn_next n)" by (simp_all add: dn_close_def free)
    then show ?thesis using 2(1) [OF Inr refl refl] 2(2,3) Inr
      by (fastforce simp: Let_def intro: less_SucI split: if_splits)
  qed (use 2(2) in simp)
qed simp

lemma StartReverseForward_ok:
  assumes "StartReverseForward fwd s = (Inr (c, ms), s')" and "\<And>j. j \<in> set (dn_open (ws_net s)) \<Longrightarrow> j < dn_next (ws_net s)"
  shows "sl_ss c = length (ws_heap s)"
    and "ws_heap s' = ws_heap s @ [\<lparr>rs_addr = sl_addr c, rs_lis = sl_lis c, rs_connMap = []\<rparr>]"
    and "ws_sessions s' = AList.update (sl_addr c) (length (ws_heap s)) (ws_sessions s)"
    and "dn_open (ws_net s') = sl_lis c # dn_open (ws_net s)"
    and "dn_next (ws_net s) \<le> sl_lis c" and "dn_next (ws_net s') = Suc (sl_lis c)" and "ws_closed s' = ws_closed s"
  using assms build_attempts_ok [of 3 _ "fm_addr fwd" "ws_net s"]
  by (auto simp: StartReverseForward_def buildListener_def Let_def split: if_splits sum.splits prod.splits)

lemma StartReverseForward_err:
  assumes "StartReverseForward fwd s = (Inl e, s')" and "\<And>j. j \<in> set (dn_open (ws_net s)) \<Longrightarrow> j < dn_next (ws_net s)"
  shows "ws_heap s' = ws_heap s \<and> ws_sessions s' = ws_sessions s \<and> dn_open (ws_net s') = dn_open (ws_net s) \<and>
         dn_next (ws_net s) \<le> dn_next (ws_net s') \<and> ws_closed s' = ws_closed s"
  using assms build_attempts_err [of 3 _ "fm_addr fwd" "ws_net s"]
  by (auto simp: StartReverseForward_def buildListener_def Let_def split: if_splits sum.splits prod.splits)

text \<open>How each group of steps keeps the invariant.\<close>

lemma dev_inv_start:
  assumes inv: "dev_inv d" and st: "StartReverseForward fwd (dv_srv d) = (Inr (c, ms), s')"
  shows "dev_inv (d\<lparr>dv_srv := s', dv_calls := c # dv_calls d\<rparr>)"
proof -
  note ok = StartReverseForward_ok [OF st, OF dev_invD(1) [OF inv, THEN conjunct1]]
  let ?d = "d\<lparr>dv_srv := s', dv_calls := c # dv_calls d\<rparr>"
  have run: "running d p \<Longrightarrow> running ?d p" for p by (auto simp: running_def)
  show ?thesis
  proof (rule dev_invI, goal_cases)
    case (1 l) then show ?case using dev_invD(1) [OF inv, of l] ok(5) by (auto simp: ok(4,6))
  next
    case (2 r) then show ?case using dev_invD(2) [OF inv, of r] ok(5) by (auto simp: ok(2,6))
  next
    case (3 c') then show ?case using dev_invD(3) [OF inv, of c'] by (auto simp: ok(1,2) nth_append)
  next
    case (4 k p)
    show ?case
    proof (cases "k = sl_addr c")
      case True
      then have "p = length (ws_heap (dv_srv d))" using 4 by (simp add: ok(3) update_conv')
      then show ?thesis using True by (simp add: ok(1,2) running_def)
    next
      case False
      then have p: "map_of (ws_sessions (dv_srv d)) k = Some p" using 4 by (simp add: ok(3) update_conv')
      have "p < length (ws_heap (dv_srv d))" using dev_invD(4) [OF inv p] by simp
      moreover from this have "rs_lis (ws_heap (dv_srv d) ! p) < dn_next (ws_net (dv_srv d))"
        by (intro dev_invD(2) [OF inv]) simp
      ultimately show ?thesis using dev_invD(4) [OF inv p] run [of p] ok(5) by (auto simp: ok(2,4) nth_append)
    qed
  qed
qed

lemma dev_inv_call_ends:
  assumes inv: "dev_inv d" and c: "c \<in> set (dv_calls d)"
    and s': "ws_heap s' = ws_heap (dv_srv d)" "ws_net s' = dn_close (sl_lis c) (ws_net (dv_srv d))"
    and q: "\<And>k p. map_of (ws_sessions s') k = Some p \<Longrightarrow> map_of (ws_sessions (dv_srv d)) k = Some p"
  shows "dev_inv (d\<lparr>dv_srv := s', dv_calls := remove1 c (dv_calls d)\<rparr>)" (is "dev_inv ?d")
proof -
  have keep: "x \<in> set (dv_calls d) \<Longrightarrow> x \<noteq> c \<Longrightarrow> x \<in> set (remove1 c (dv_calls d))" for x by simp
  have net: "dn_open (ws_net s') = removeAll (sl_lis c) (dn_open (ws_net (dv_srv d)))"
    "dn_next (ws_net s') = dn_next (ws_net (dv_srv d))" by (simp_all add: s' dn_close_def)
  show ?thesis
  proof (rule dev_invI, goal_cases)
    case (1 l) then show ?case using dev_invD(1) [OF inv, of l] keep by (fastforce simp: net)
  next
    case (2 r) then show ?case using dev_invD(2) [OF inv, of r] by (simp add: s' dn_close_def)
  next
    case (3 x) then show ?case using dev_invD(3) [OF inv, of x] notin_set_remove1 by (fastforce simp: s')
  next
    case (4 k p)
    then have p: "map_of (ws_sessions (dv_srv d)) k = Some p" using q by simp
    have "running ?d p \<or> rs_lis (ws_heap (dv_srv d) ! p) = sl_lis c" if r: "running d p"
    proof -
      obtain c' where c': "c' \<in> set (dv_calls d)" "sl_ss c' = p" using r by (auto simp: running_def)
      show ?thesis using c' dev_invD(3) [OF inv c] keep [OF c'(1)] by (cases "c' = c") (auto simp: running_def)
    qed
    then show ?case using dev_invD(4) [OF inv p] by (auto simp: s'(1) net)
  qed
qed

lemma dev_inv_conns:
  assumes inv: "dev_inv d" and calls: "\<And>x. x \<in> set cs \<Longrightarrow> \<exists>c \<in> set (dv_calls d). sl_ss x = sl_ss c \<and> sl_lis x = sl_lis c \<and> sl_addr x = sl_addr c"
    and conv: "\<And>c. c \<in> set (dv_calls d) \<Longrightarrow> \<exists>x \<in> set cs. sl_ss x = sl_ss c \<and> sl_lis x = sl_lis c"
  shows "dev_inv (d\<lparr>dv_srv := heap_conns p f (dv_srv d), dv_calls := cs, dv_streams := xs\<rparr>)" (is "dev_inv ?d")
proof (rule dev_invI, goal_cases)
  case (1 l) then show ?case using dev_invD(1) [OF inv, of l] conv by fastforce
next
  case (2 r) then show ?case using dev_invD(2) [OF inv] heap_conns_lis by fastforce
next
  case (3 x) then show ?case using dev_invD(3) [OF inv] calls by fastforce
next
  case (4 k q)
  have "running d q \<Longrightarrow> running ?d q" using conv by (fastforce simp: running_def)
  then show ?case using dev_invD(4) [OF inv, of k q] 4 by auto
qed

lemma dev_inv_stop:
  assumes inv: "dev_inv d" and st: "StopReverseForward fwd (dv_srv d) = (e, s')"
  shows "dev_inv (d\<lparr>dv_srv := s'\<rparr>)"
proof (cases "s' = dv_srv d")
  case False
  then obtain l k where s': "ws_heap s' = ws_heap (dv_srv d)" "ws_sessions s' = AList.delete k (ws_sessions (dv_srv d))"
      "ws_net s' = dn_close l (ws_net (dv_srv d))"
    using st by (auto simp: StopReverseForward_def Let_def ws_close_def split: sum.splits option.splits)
  show ?thesis
  proof (rule dev_invI, goal_cases)
    case (4 k' p)
    then have "map_of (ws_sessions (dv_srv d)) k' = Some p" by (simp add: s' delete_conv' split: if_splits)
    then show ?case using dev_invD(4) [OF inv] by (auto simp: s' dn_close_def running_def)
  qed (use dev_invD(1-3) [OF inv] in \<open>auto simp: s' dn_close_def\<close>)
qed (use inv in simp)

lemma map_of_delete_SomeD: "map_of (AList.delete a xs) k = Some v \<Longrightarrow> map_of xs k = Some v"
  by (simp add: delete_conv' split: if_splits)

lemma dev_inv_step: "dev_step d d' \<Longrightarrow> dev_inv d \<Longrightarrow> dev_inv d'"
proof (induction rule: dev_step.induct)
  case (start_err fwd d e s')
  note inv = start_err(2)
  note er = StartReverseForward_err [OF start_err(1), OF dev_invD(1) [OF inv, THEN conjunct1]]
  show ?case
    by (rule dev_invI) (use er dev_invD [OF inv] in \<open>auto simp: running_def intro: less_le_trans\<close>)
next
  case (accept_ok c d conn c' ms s')
  then have "s' = heap_conns (sl_ss c) (AList.update (sl_cid c + 1) conn) (dv_srv d)" "c' = c\<lparr>sl_cid := sl_cid c + 1\<rparr>"
    by (auto simp: accept_loop_def Let_def)
  moreover have "\<exists>y \<in> set (dv_calls d). sl_ss x = sl_ss y \<and> sl_lis x = sl_lis y \<and> sl_addr x = sl_addr y"
    if "x \<in> set (c' # remove1 c (dv_calls d))" for x
    using that accept_ok(1) calculation(2) notin_set_remove1 by (fastforce)
  moreover have "\<exists>x \<in> set (c' # remove1 c (dv_calls d)). sl_ss x = sl_ss y \<and> sl_lis x = sl_lis y" if "y \<in> set (dv_calls d)" for y
    using that calculation(2) by (cases "y = c") auto
  ultimately show ?case using dev_inv_conns [OF accept_ok(4), where cs = "c' # remove1 c (dv_calls d)" and xs = "dv_streams d"] by simp
next
  case (accept_send_err c d conn e ms s')
  let ?s1 = "heap_conns (sl_ss c) (AList.update (sl_cid c + 1) conn) (dv_srv d)"
  have s': "s' = ws_close (sl_lis c) (?s1\<lparr>ws_sessions := AList.delete (sl_addr c) (ws_sessions ?s1)\<rparr>)"
    using accept_send_err(3) by (simp add: accept_loop_def Let_def)
  have "dev_inv (d\<lparr>dv_srv := ?s1\<rparr>)"
    using dev_inv_conns [OF accept_send_err(4), where cs = "dv_calls d" and xs = "dv_streams d"] by auto
  from dev_inv_call_ends [OF this, of c s'] show ?case
    using accept_send_err(1) map_of_delete_SomeD [of "sl_addr c" "ws_sessions (dv_srv d)"]
    by (simp add: s' ws_close_def)
next
  case (accept_err c d e sendErr ms s')
  then have s': "s' = ws_close (sl_lis c) (dv_srv d)" by (simp add: accept_loop_def)
  show ?case
    using dev_inv_call_ends [OF accept_err(3,1), of s'] by (simp add: s' ws_close_def)
next
  case (stream_begin fwd d x)
  then show ?case unfolding dev_inv_def running_def by simp
next
  case (stream_end p cID conn d)
  then show ?case using dev_inv_conns [OF stream_end(2), where cs = "dv_calls d"] by (auto simp: ReverseForward_done_def)
qed (simp_all add: dev_inv_start dev_inv_stop)

lemma dev_reach_inv: "dev_reach n d \<Longrightarrow> dev_inv d"
proof (induction rule: dev_reach.induct)
  case dev_start
  then show ?case by (simp add: dev_inv_def New_def)
qed (rule dev_inv_step)


section \<open>Naming connections\<close>

text \<open>Every running call's session is recorded, if at all, under the name its messages carry.\<close>

definition well_named :: "srf_call \<Rightarrow> bool" where
  "well_named c \<longleftrightarrow> (case networkDescription (fm_kind (sl_fwd c)) of
     Inl _ \<Rightarrow> False | Inr kind \<Rightarrow> sl_addr c = kind @ '':'' @ fm_addr (sl_fwd c))"

lemma StartReverseForward_named: "StartReverseForward fwd s = (Inr (c, ms), s') \<Longrightarrow> well_named c"
  by (auto simp: StartReverseForward_def well_named_def Let_def networkDescription_def
      split: if_splits sum.splits prod.splits fkind.splits)

lemma well_named_cid [simp]: "well_named (c\<lparr>sl_cid := i\<rparr>) = well_named c"
  by (simp add: well_named_def split: sum.splits)

lemma dev_step_named: "dev_step d d' \<Longrightarrow> Ball (set (dv_calls d)) well_named \<Longrightarrow> Ball (set (dv_calls d')) well_named"
proof (induction rule: dev_step.induct)
  case (accept_ok c d conn c' ms s')
  then have "c' = c\<lparr>sl_cid := sl_cid c + 1\<rparr>" by (auto simp: accept_loop_def Let_def)
  then have "well_named c'" using accept_ok by simp
  then show ?case using accept_ok by (auto dest: notin_set_remove1)
qed (auto dest: StartReverseForward_named notin_set_remove1)

lemma dev_reach_named: "dev_reach n d \<Longrightarrow> c \<in> set (dv_calls d) \<Longrightarrow> well_named c"
proof (induction arbitrary: c rule: dev_reach.induct)
  case (dev_next d d')
  then show ?case using dev_step_named [OF dev_next(2)] by blast
qed simp

text \<open>A sequence of accepted connections: the messages sent and the state after.\<close>

fun accept_all :: "nat list \<Rightarrow> srf_call \<Rightarrow> WaterfallServer \<Rightarrow> srf_call \<times> ForwardMessage list \<times> WaterfallServer" where
  "accept_all [] c s = (c, [], s)"
| "accept_all (x # xs) c s =
     (case accept_loop (Inr x) None c s of
        (Inr c', ms, s') \<Rightarrow> (case accept_all xs c' s' of (c'', ms', s'') \<Rightarrow> (c'', ms @ ms', s''))
      | (Inl _, ms, s') \<Rightarrow> (c, ms, s'))"

lemma accept_loop_ok:
  "accept_loop (Inr x) None c s =
     (Inr (c\<lparr>sl_cid := sl_cid c + 1\<rparr>), [open_msg c (sl_cid c + 1)], heap_conns (sl_ss c) (AList.update (sl_cid c + 1) x) s)"
  by (simp add: accept_loop_def Let_def)

lemma open_msg_cid [simp]: "open_msg (c\<lparr>sl_cid := i\<rparr>) = open_msg c"
  by (simp add: open_msg_def fun_eq_iff)

lemma connMap_heap_conns [simp]:
  "p < length (ws_heap s) \<Longrightarrow> rs_connMap (ws_heap (heap_conns p f s) ! p) = f (rs_connMap (ws_heap s ! p))"
  by (simp add: heap_conns_def)

lemma word_index_inj: "i < 2 ^ 64 \<Longrightarrow> j < 2 ^ 64 \<Longrightarrow> (of_nat i :: 64 word) = of_nat j \<longleftrightarrow> i = j"
proof -
  assume "i < 2 ^ 64" "j < 2 ^ 64"
  then have "unat (of_nat i :: 64 word) = i" "unat (of_nat j :: 64 word) = j" by (simp_all add: unat_of_nat)
  then show ?thesis by metis
qed

lemma accept_all_spec:
  assumes "accept_all xs c s = (c', ms, s')" and "sl_cid c = of_nat k" and "k + length xs < 2 ^ 64"
    and "sl_ss c < length (ws_heap s)"
  shows "ms = map (\<lambda>i. open_msg c (of_nat (k + Suc i))) [0..<length xs] \<and> ws_sessions s' = ws_sessions s \<and>
         (\<forall>i < length xs. map_of (rs_connMap (ws_heap s' ! sl_ss c)) (of_nat (k + Suc i)) = Some (xs ! i)) \<and>
         (\<forall>j \<le> k. map_of (rs_connMap (ws_heap s' ! sl_ss c)) (of_nat j) = map_of (rs_connMap (ws_heap s ! sl_ss c)) (of_nat j))"
  using assms
proof (induction xs arbitrary: c s ms k)
  case (Cons x xs)
  let ?c = "c\<lparr>sl_cid := sl_cid c + 1\<rparr>" and ?s = "heap_conns (sl_ss c) (AList.update (sl_cid c + 1) x) s"
  obtain ms1 where ms: "ms = open_msg c (of_nat (Suc k)) # ms1" and r: "accept_all xs ?c ?s = (c', ms1, s')"
    using Cons.prems(1,2) by (auto simp: accept_loop_ok add.commute split: prod.splits)
  have k: "sl_cid ?c = of_nat (Suc k)" "Suc k + length xs < 2 ^ 64" "sl_ss ?c < length (ws_heap ?s)"
    using Cons.prems by (simp_all add: add.commute)
  note IH = Cons.IH [OF r k, simplified]
  have "map (\<lambda>i. open_msg c (of_nat (k + Suc i))) [0..<length (x # xs)] =
      open_msg c (of_nat (Suc k)) # map (\<lambda>i. open_msg c (of_nat (Suc k + Suc i))) [0..<length xs]"
    by (simp add: upt_conv_Cons map_Suc_upt [symmetric] del: upt_Suc)
  moreover have "map_of (rs_connMap (ws_heap s' ! sl_ss c)) (of_nat (Suc k)) = Some x"
    using IH Cons.prems(2,4) by (auto simp: update_conv add.commute)
  moreover have "map_of (rs_connMap (ws_heap s' ! sl_ss c)) (of_nat j) = map_of (rs_connMap (ws_heap s ! sl_ss c)) (of_nat j)"
    if "j \<le> k" for j
    using IH that Cons.prems(2-4) word_index_inj [of j "Suc k"] by (auto simp: update_conv' add.commute)
  ultimately show ?case
    using IH by (auto simp: ms less_Suc_eq_0_disj nth_Cons split: nat.splits)
qed simp

lemma accept_all_lis: "accept_all xs c s = (c', ms, s') \<Longrightarrow> rs_lis (ws_heap s' ! p) = rs_lis (ws_heap s ! p)"
proof (induction xs arbitrary: c s ms)
  case (Cons x xs)
  let ?c = "c\<lparr>sl_cid := sl_cid c + 1\<rparr>" and ?s = "heap_conns (sl_ss c) (AList.update (sl_cid c + 1) x) s"
  obtain ms1 where "accept_all xs ?c ?s = (c', ms1, s')"
    using Cons.prems by (auto simp: accept_loop_ok split: prod.splits)
  from Cons.IH [OF this] show ?case by simp
qed simp

lemma open_message_found:
  assumes "well_named c" and "sl_cid c = 0" and "map_of (ws_sessions s) (sl_addr c) = Some (sl_ss c)"
    and "sl_ss c < length (ws_heap s)" and "CHR ''/'' \<notin> set (fm_addr (sl_fwd c))" and "length conns < 2 ^ 64"
    and "accept_all conns c s = (c', ms, s')" and "i < length conns"
  shows "length ms = length conns" and "ms ! i = open_msg c (of_nat (Suc i))"
    and "ReverseForward (ms ! i) s' = Inr (sl_ss c, of_nat (Suc i), conns ! i)"
proof -
  have sp: "ms = map (\<lambda>i. open_msg c (of_nat (Suc i))) [0..<length conns]" "ws_sessions s' = ws_sessions s"
    "map_of (rs_connMap (ws_heap s' ! sl_ss c)) (of_nat (Suc i)) = Some (conns ! i)"
    using accept_all_spec [OF assms(7), of 0] assms(2,4,6,8) by (simp_all del: of_nat_Suc)
  obtain kind where kind: "networkDescription (fm_kind (sl_fwd c)) = Inr kind" "sl_addr c = kind @ '':'' @ fm_addr (sl_fwd c)"
    using assms(1) by (auto simp: well_named_def split: sum.splits)
  have "Suc i < 2 ^ 64" using assms(6,8) by linarith
  then have u: "unat (of_nat (Suc i) :: 64 word) = Suc i" by (simp add: unat_of_nat del: of_nat_Suc)
  show m: "ms ! i = open_msg c (of_nat (Suc i))" "length ms = length conns" using sp assms(8) by simp_all
  have "splitN 2 (CHR ''/'') (fm_addr (ms ! i)) = [fm_addr (sl_fwd c), show_nat (Suc i)]"
    using splitN_two_sep [OF assms(5)] by (simp add: m open_msg_def u del: of_nat_Suc)
  moreover have "parse_uint64 (show_nat (Suc i)) = Inr (of_nat (Suc i))" by (rule parse_uint64_show_nat) fact
  ultimately show "ReverseForward (ms ! i) s' = Inr (sl_ss c, of_nat (Suc i), conns ! i)"
    using sp assms(3,8) kind by (simp add: ReverseForward_def m open_msg_def del: of_nat_Suc)
qed


section \<open>Properties\<close>

text \<open>
  (C15) Listeners on the device. In every reachable state, under every interleaving of the calls, an open
  listener belongs to a running call of \<open>StartReverseForward\<close>, which closes it when it returns; a session
  of the table is recorded under its own address, and its call is running or its listener is closed.
\<close>

theorem reverse_no_leaked_listener:
  assumes "dev_reach n d"
  shows "(\<forall>l. listening d l \<longrightarrow> (\<exists>c \<in> set (dv_calls d). sl_lis c = l)) \<and>
         (\<forall>k p. map_of (ws_sessions (dv_srv d)) k = Some p \<longrightarrow>
            p < length (ws_heap (dv_srv d)) \<and> rs_addr (ws_heap (dv_srv d) ! p) = k \<and>
            (running d p \<or> \<not> listening d (rs_lis (ws_heap (dv_srv d) ! p))))"
  using dev_invD(1,4) [OF dev_reach_inv [OF assms]] by blast

definition device_kernel :: device_net where
  "device_kernel = \<lparr>dn_open = [], dn_next = 0, dn_answer = (\<lambda>i kind addr. Inr (40000 + i))\<rparr>"

definition fwd9000 :: ForwardMessage where
  "fwd9000 = zeroForwardMessage\<lparr>fm_kind := TCP, fm_addr := ''localhost:9000''\<rparr>"

definition call9000 :: srf_call where
  "call9000 = \<lparr>sl_fwd = fwd9000, sl_addr = ''tcp:localhost:9000'', sl_ss = 0, sl_lis = 0, sl_cid = 0\<rparr>"

definition srv9000 :: WaterfallServer where
  "srv9000 = (New device_kernel)\<lparr>ws_sessions := [(''tcp:localhost:9000'', 0)],
     ws_heap := [\<lparr>rs_addr = ''tcp:localhost:9000'', rs_lis = 0, rs_connMap = []\<rparr>],
     ws_net := device_kernel\<lparr>dn_open := [0], dn_next := 1\<rparr>\<rparr>"

lemma start9000: "StartReverseForward fwd9000 (New device_kernel) = (Inr (call9000, []), srv9000)"
  by (simp add: StartReverseForward_def fwd9000_def call9000_def srv9000_def New_def device_kernel_def
      zeroForwardMessage_def networkDescription_def buildListener_def numeral_3_eq_3 listenerPort_def Let_def)

definition dev9000 :: device where
  "dev9000 = \<lparr>dv_srv = srv9000, dv_calls = [call9000], dv_streams = []\<rparr>"

lemma reach9000: "dev_reach device_kernel dev9000"
proof -
  let ?d = "\<lparr>dv_srv = New device_kernel, dv_calls = [], dv_streams = []\<rparr>"
  have "dev_reach device_kernel ?d" by (rule dev_start) (simp add: device_kernel_def)
  from dev_next [OF this start_ok [of fwd9000 ?d, simplified, OF start9000]]
  show ?thesis by (simp add: dev9000_def)
qed

theorem reverse_no_leaked_listener_witness:
  "listening dev9000 0 \<and> (\<exists>c \<in> set (dv_calls dev9000). sl_lis c = 0) \<and> running dev9000 0"
  using reverse_no_leaked_listener [OF reach9000]
  by (simp add: dev9000_def srv9000_def call9000_def device_kernel_def running_def)

text \<open>
  Every connection is found. A call of \<open>StartReverseForward\<close> whose address has no \<open>/\<close> accepts any number
  of connections below \<open>2 ^ 64\<close>; as long as its session stays in the table, \<open>ReverseForward\<close> with the
  \<open>i\<close>-th message that the call sent yields exactly the \<open>i\<close>-th connection.
\<close>

theorem open_messages_find_connections:
  assumes "dev_reach n d" and "c \<in> set (dv_calls d)" and "sl_cid c = 0"
    and "map_of (ws_sessions (dv_srv d)) (sl_addr c) = Some (sl_ss c)"
    and "CHR ''/'' \<notin> set (fm_addr (sl_fwd c))" and "length conns < 2 ^ 64"
    and "accept_all conns c (dv_srv d) = (c', ms, s')" and "i < length conns"
  shows "length ms = length conns \<and> ReverseForward (ms ! i) s' = Inr (sl_ss c, of_nat (Suc i), conns ! i)"
proof -
  have p: "sl_ss c < length (ws_heap (dv_srv d))" using dev_invD(4) [OF dev_reach_inv [OF assms(1)] assms(4)] by simp
  from open_message_found [OF dev_reach_named [OF assms(1,2)] assms(3,4) p assms(5-8)] show ?thesis by blast
qed

theorem open_messages_find_connections_witness:
  "let (c', ms, s') = accept_all [70, 71] call9000 srv9000
   in ReverseForward (ms ! 0) s' = Inr (0, 1, 70) \<and> ReverseForward (ms ! 1) s' = Inr (0, 2, 71)"
proof -
  obtain c' ms s' where a: "accept_all [70, 71] call9000 srv9000 = (c', ms, s')" by (metis prod_cases3)
  have "call9000 \<in> set (dv_calls dev9000)" "sl_cid call9000 = 0" "length [70, 71 :: nat] < 2 ^ 64"
    "map_of (ws_sessions (dv_srv dev9000)) (sl_addr call9000) = Some (sl_ss call9000)"
    "CHR ''/'' \<notin> set (fm_addr (sl_fwd call9000))" "dv_srv dev9000 = srv9000"
    by (simp_all add: dev9000_def srv9000_def call9000_def fwd9000_def)
  then show ?thesis
    using open_messages_find_connections [OF reach9000, of call9000 "[70, 71]" c' ms s' 0]
      open_messages_find_connections [OF reach9000, of call9000 "[70, 71]" c' ms s' 1] a
    by (simp add: Let_def call9000_def)
qed

text \<open>
  \<open>StopReverseForward\<close>. Stopping a recorded session removes it from the table, closes its listener and
  every connection that waits for a stream, and leaves all other sessions and listeners as they were.
\<close>

theorem StopReverseForward_effect:
  assumes "dev_reach n d" and "networkDescription (fm_kind fwd) = Inr kind"
    and "map_of (ws_sessions (dv_srv d)) (kind @ '':'' @ fm_addr fwd) = Some p"
    and "StopReverseForward fwd (dv_srv d) = (e, s')"
  shows "e = None \<and> map_of (ws_sessions s') = (map_of (ws_sessions (dv_srv d)))(kind @ '':'' @ fm_addr fwd := None) \<and>
         ws_heap s' = ws_heap (dv_srv d) \<and>
         (\<forall>l. l \<in> set (dn_open (ws_net s')) \<longleftrightarrow> listening d l \<and> l \<noteq> rs_lis (ws_heap (dv_srv d) ! p)) \<and>
         snd ` set (rs_connMap (ws_heap (dv_srv d) ! p)) \<subseteq> set (ws_closed s')"
  using assms by (auto simp: StopReverseForward_def Let_def delete_conv' image_iff) (metis snd_conv)

theorem StopReverseForward_effect_witness:
  "let s' = snd (StopReverseForward fwd9000 srv9000)
   in \<not> 0 \<in> set (dn_open (ws_net s')) \<and> map_of (ws_sessions s') ''tcp:localhost:9000'' = None"
proof -
  have "networkDescription (fm_kind fwd9000) = Inr ''tcp''" by (simp add: fwd9000_def networkDescription_def)
  moreover have "map_of (ws_sessions (dv_srv dev9000)) (''tcp'' @ '':'' @ fm_addr fwd9000) = Some 0"
    by (simp add: dev9000_def srv9000_def fwd9000_def)
  ultimately show ?thesis
    using StopReverseForward_effect [OF reach9000 _ _ prod.collapse [symmetric], of fwd9000 "''tcp''" 0]
    by (simp add: dev9000_def srv9000_def fwd9000_def)
qed

lemma build_unix: "\<exists>e. fst (build_attempts i ''unix'' a n) = Inl e"
  by (induction i "''unix''" a n rule: build_attempts.induct) (auto simp: listenerPort_def Let_def split: sum.splits)

text \<open>
  Reverse forwarding of a Unix socket never starts. The port of a Unix listener's address is 0, which
  the code takes for a failed bind: every attempt is closed again, and after three the request fails,
  whatever the kernel answers. No listener is left behind.
\<close>

theorem unix_reverse_forward_fails:
  assumes "dev_reach n d" and "fm_kind fwd = UNIX"
  shows "\<exists>e s'. StartReverseForward fwd (dv_srv d) = (Inl e, s') \<and>
           ws_sessions s' = ws_sessions (dv_srv d) \<and> dn_open (ws_net s') = dn_open (ws_net (dv_srv d))"
proof -
  have "\<exists>e s'. StartReverseForward fwd (dv_srv d) = (Inl e, s')"
    using build_unix [of 3 "fm_addr fwd" "ws_net (dv_srv d)"] assms(2)
    by (auto simp: StartReverseForward_def networkDescription_def buildListener_def split: prod.splits)
  then obtain e s' where r: "StartReverseForward fwd (dv_srv d) = (Inl e, s')" by blast
  from StartReverseForward_err [OF this] dev_invD(1) [OF dev_reach_inv [OF assms(1)]] show ?thesis
    by (auto simp: r)
qed

theorem unix_reverse_forward_fails_witness:
  "\<exists>e s'. StartReverseForward (zeroForwardMessage\<lparr>fm_kind := UNIX, fm_addr := ''@svc''\<rparr>) srv9000 = (Inl e, s')"
  using unix_reverse_forward_fails [OF reach9000, of "zeroForwardMessage\<lparr>fm_kind := UNIX, fm_addr := ''@svc''\<rparr>"]
  by (auto simp: dev9000_def)

text \<open>
  A failed \<open>Accept\<close> leaves the address occupied. When the accept loop of a recorded session ends with an
  error, the listener is closed but the table keeps the session: any later request to forward the same
  address is refused as already forwarded, although nothing listens there.
\<close>

theorem accept_error_keeps_session:
  assumes "dev_reach n d" and "c \<in> set (dv_calls d)"
    and "map_of (ws_sessions (dv_srv d)) (sl_addr c) = Some (sl_ss c)"
    and "accept_loop (Inl e) sendErr c (dv_srv d) = (r, ms, s')"
    and "fwd = zeroForwardMessage\<lparr>fm_op := OPEN, fm_kind := fm_kind (sl_fwd c), fm_addr := fm_addr (sl_fwd c)\<rparr>"
  shows "sl_lis c \<notin> set (dn_open (ws_net s')) \<and>
         StartReverseForward fwd s' = (Inl (StatusErr AlreadyExists ''address already being forwarded''), s')"
  using assms(3-5) dev_reach_named [OF assms(1,2)]
  by (auto simp: accept_loop_def StartReverseForward_def well_named_def split: sum.splits)

theorem accept_error_keeps_session_witness:
  "fst (StartReverseForward fwd9000 (snd (snd (accept_loop (Inl EOF) None call9000 srv9000)))) =
     Inl (StatusErr AlreadyExists ''address already being forwarded'')"
proof -
  have "call9000 \<in> set (dv_calls dev9000)" "map_of (ws_sessions (dv_srv dev9000)) (sl_addr call9000) = Some (sl_ss call9000)"
    "dv_srv dev9000 = srv9000"
    "fwd9000 = zeroForwardMessage\<lparr>fm_op := OPEN, fm_kind := fm_kind (sl_fwd call9000), fm_addr := fm_addr (sl_fwd call9000)\<rparr>"
    by (simp_all add: dev9000_def srv9000_def call9000_def fwd9000_def zeroForwardMessage_def)
  then show ?thesis
    using accept_error_keeps_session [OF reach9000, of call9000 EOF None] by (metis prod.collapse fst_conv)
qed

end
