(* ===== verification/QemuListen.thy ===== *)
theory QemuListen
  imports QemuConn
begin

text \<open>
  Listening over a qemu pipe, from \<open>net/qemu/qemu.go\<close>: the two handshakes, \<open>ConnBuilder.Accept\<close> on the host,
  which speaks first, and \<open>PipeConnBuilder.Accept\<close> on the guest, which listens first; \<open>Pipe.Accept\<close>, which names
  the service to the emulator; and the constructors. What the underlying listener and the device deliver
  is a list, and a call that is still waiting when the list ends has no result. The sleeps between
  attempts are not modelled.
\<close>

section \<open>Handshakes\<close>

definition rdyMsg :: bytes where
  "rdyMsg = bytes_of ''rdy''"

record raw =
  rw_in :: source
  rw_out :: sink

datatype 'a accepting = Waiting | AcceptErr go_error | Accepted 'a

text \<open>
  \<open>ConnBuilder.Accept\<close>. The second result counts the connections that were closed.
\<close>

fun ConnBuilder_Accept :: "raw result list \<Rightarrow> qconn accepting \<times> nat" where
  "ConnBuilder_Accept [] = (Waiting, 0)"
| "ConnBuilder_Accept (Inl e # _) = (AcceptErr e, 0)"
| "ConnBuilder_Accept (Inr conn # rest) =
     (case sink_write (rw_out conn) rdyMsg of
        ((_, Some e), _) \<Rightarrow> apsnd Suc (ConnBuilder_Accept rest)
      | ((_, None), out) \<Rightarrow>
          (case readFull (rw_in conn) (length rdyMsg) of
             ((_, Some e), _) \<Rightarrow> apsnd Suc (ConnBuilder_Accept rest)
           | ((rdy, None), inp) \<Rightarrow>
               if rdy \<noteq> rdyMsg then apsnd Suc (ConnBuilder_Accept rest)
               else (Accepted (makeConn inp out), 0)))"

text \<open>\<open>PipeConnBuilder.Accept\<close>. The guest answers with what it read.\<close>

fun PipeConnBuilder_Accept :: "raw result list \<Rightarrow> qconn accepting \<times> nat" where
  "PipeConnBuilder_Accept [] = (Waiting, 0)"
| "PipeConnBuilder_Accept (Inl e # _) = (AcceptErr e, 0)"
| "PipeConnBuilder_Accept (Inr conn # rest) =
     (case readFull (rw_in conn) (length rdyMsg) of
        ((_, Some e), _) \<Rightarrow> apsnd Suc (PipeConnBuilder_Accept rest)
      | ((rdy, None), inp) \<Rightarrow>
          if rdy \<noteq> rdyMsg then apsnd Suc (PipeConnBuilder_Accept rest)
          else (case sink_write (rw_out conn) rdy of
                  ((_, Some e), _) \<Rightarrow> apsnd Suc (PipeConnBuilder_Accept rest)
                | ((_, None), out) \<Rightarrow> (Accepted (makeConn inp out), 0)))"


section \<open>Naming the service\<close>

definition svcName :: "string \<Rightarrow> bytes" where
  "svcName socketName = bytes_of (''pipe:unix:'' @ socketName)"

text \<open>
  \<open>withTimeout\<close>: the operation's result, or the timeout when it has none in time.
\<close>

definition withTimeout :: "(nat \<times> go_error option) option \<Rightarrow> nat \<times> go_error option" where
  "withTimeout r = (case r of Some x \<Rightarrow> x | None \<Rightarrow> (0, Some (Errorf ''handshake timeout'')))"

text \<open>
  The inner loop of \<open>Pipe.Accept\<close> on one opened device. The list holds the outcomes of the writes, \<open>None\<close> for a
  write that hangs; a write of \<open>n\<close> bytes sends the first \<open>n\<close> bytes. The result: whether the name was
  written, and the bytes that reached the emulator; \<open>None\<close> while a write is still to come.
\<close>

fun write_service :: "bytes \<Rightarrow> (nat \<times> go_error option) option list \<Rightarrow> (bool \<times> bytes) option" where
  "write_service buff [] = None"
| "write_service buff (r # rs) =
     (case withTimeout r of
        (n, Some e) \<Rightarrow> Some (False, take n buff)
      | (n, None) \<Rightarrow>
          if drop n buff = [] then Some (True, take n buff)
          else (case rs of
                  [] \<Rightarrow> None
                | None # _ \<Rightarrow> None
                | Some (_, Some e) # _ \<Rightarrow> Some (False, take n buff)
                | Some (_, None) # rs' \<Rightarrow> map_option (apsnd (\<lambda>s. take n buff @ bytes_of ''0'' @ s)) (write_service (drop n buff) rs')))"

text \<open>
  \<open>Pipe.Accept\<close>: the outer loop. Each element is what opening the device gave: an error, or the outcomes
  of the writes on it. A closed pipe refuses at once. The accepted connection is given by the bytes that
  were sent on it.
\<close>

record Pipe =
  pp_socketName :: string
  pp_closed :: bool
  pp_useVsock :: bool

fun pipe_attempts :: "bytes \<Rightarrow> ((nat \<times> go_error option) option list) result list \<Rightarrow> bytes accepting" where
  "pipe_attempts buff [] = Waiting"
| "pipe_attempts buff (Inl e # _) = AcceptErr e"
| "pipe_attempts buff (Inr ws # rest) =
     (case write_service buff ws of
        None \<Rightarrow> Waiting
      | Some (True, sent) \<Rightarrow> Accepted sent
      | Some (False, _) \<Rightarrow> pipe_attempts buff rest)"

definition Pipe_Accept :: "Pipe \<Rightarrow> ((nat \<times> go_error option) option list) result list \<Rightarrow> bytes accepting" where
  "Pipe_Accept q opens =
     (if pp_closed q then AcceptErr ErrClosed else pipe_attempts (svcName (pp_socketName q) @ [0]) opens)"

definition Pipe_Close :: "Pipe \<Rightarrow> go_error option \<times> Pipe" where
  "Pipe_Close q = (None, q\<lparr>pp_closed := True\<rparr>)"

text \<open>\<open>MakePipe\<close>: the vsock driver is preferred; without either driver there is no pipe.\<close>

definition MakePipe :: "(string \<Rightarrow> go_error option) \<Rightarrow> string \<Rightarrow> Pipe result" where
  "MakePipe stat socketName =
     (if stat ''/dev/vsock'' = None then Inr \<lparr>pp_socketName = socketName, pp_closed = False, pp_useVsock = True\<rparr>
      else case stat ''/dev/qemu_pipe'' of
        Some e \<Rightarrow> Inl e
      | None \<Rightarrow> Inr \<lparr>pp_socketName = socketName, pp_closed = False, pp_useVsock = False\<rparr>)"

text \<open>
  \<open>MakeConnBuilder\<close>: the working directory is changed for the time of the listen when it is not the
  emulator's. \<open>chdir\<close>, \<open>remove\<close> and \<open>listen\<close> are the operating system; the state is the working directory.
\<close>

definition MakeConnBuilder ::
    "string result \<Rightarrow> (string \<Rightarrow> go_error option) \<Rightarrow> (string \<Rightarrow> go_error option) \<Rightarrow> (string \<Rightarrow> string \<Rightarrow> 'l result) \<Rightarrow>
     string \<Rightarrow> string \<Rightarrow> 'l result \<times> string option"
where
  "MakeConnBuilder getwd chdir remove listen emuDir socket =
     (case getwd of
        Inl e \<Rightarrow> (Inl (Errorf (''cannot get working directory: '' @ error_text e)), None)
      | Inr wd \<Rightarrow>
          (case (if wd \<noteq> emuDir then chdir emuDir else None) of
             Some e \<Rightarrow> (Inl (Errorf (''failed to chdir to '' @ emuDir @ '': '' @ error_text e)), Some wd)
           | None \<Rightarrow>
               (case (remove socket, listen emuDir socket) of
                  (rm, lis) \<Rightarrow>
                    if rm \<noteq> None \<and> rm \<noteq> Some NotExist
                    then (Inl (Errorf (''failed to remove old socket: '' @ error_text (the rm))), Some emuDir)
                    else (case lis of
                            Inl e \<Rightarrow> (Inl (Errorf (''failed to listen on unix socket '' @ socket @ '': '' @ error_text e)), Some emuDir)
                          | Inr l \<Rightarrow>
                              (case (if wd \<noteq> emuDir then chdir wd else None) of
                                 Some e \<Rightarrow> (Inl (Errorf (''failed to chdir to '' @ wd @ '': '' @ error_text e)), Some emuDir)
                               | None \<Rightarrow> (Inr l, Some wd))))))"


section \<open>Facts\<close>

text \<open>A connection on which the handshake completes: both directions of it.\<close>

definition ready :: "raw \<Rightarrow> bool" where
  "ready c \<longleftrightarrow> take (length rdyMsg) (src_bytes (rw_in c)) = rdyMsg \<and> snd (fst (sink_write (rw_out c) rdyMsg)) = None"

definition after_handshake :: "raw \<Rightarrow> qconn" where
  "after_handshake c =
     makeConn ((rw_in c)\<lparr>src_bytes := drop (length rdyMsg) (src_bytes (rw_in c))\<rparr>) (snd (sink_write (rw_out c) rdyMsg))"

lemma rdyMsg_len: "0 < length rdyMsg"
  by (simp add: rdyMsg_def bytes_of_def)

lemma readFull_ok: "readFull s n = ((d, None), s') \<longleftrightarrow> n \<le> length (src_bytes s) \<and> d = take n (src_bytes s) \<and> s' = s\<lparr>src_bytes := drop n (src_bytes s)\<rparr>"
  by (auto simp: readFull_def Let_def min_def split: if_splits)

lemma ConnBuilder_one:
  "ConnBuilder_Accept (Inr c # rest) = (if ready c then (Accepted (after_handshake c), 0) else apsnd Suc (ConnBuilder_Accept rest))"
proof (cases "sink_write (rw_out c) rdyMsg")
  case (Pair x out)
  obtain n e where x: "x = (n, e)" by fastforce
  obtain d e2 s where r: "readFull (rw_in c) (length rdyMsg) = ((d, e2), s)" by (metis prod.exhaust)
  show ?thesis
  proof (cases e)
    case None
    show ?thesis
    proof (cases e2)
      case e2: None
      then have rd: "d = take (length rdyMsg) (src_bytes (rw_in c))"
        "s = (rw_in c)\<lparr>src_bytes := drop (length rdyMsg) (src_bytes (rw_in c))\<rparr>"
        using r by (simp_all add: readFull_ok)
      show ?thesis using Pair x r None e2 by (simp add: ready_def after_handshake_def rd)
    next
      case (Some e3)
      then have "take (length rdyMsg) (src_bytes (rw_in c)) \<noteq> rdyMsg"
        using r by (auto simp: readFull_def Let_def split: if_splits)
      then show ?thesis using Pair x r None Some by (simp add: ready_def)
    qed
  qed (use Pair x in \<open>simp add: ready_def\<close>)
qed

lemma PipeConnBuilder_one:
  "PipeConnBuilder_Accept (Inr c # rest) = (if ready c then (Accepted (after_handshake c), 0) else apsnd Suc (PipeConnBuilder_Accept rest))"
proof -
  obtain d e2 s where r: "readFull (rw_in c) (length rdyMsg) = ((d, e2), s)" by (metis prod.exhaust)
  show ?thesis
  proof (cases e2)
    case e2: None
    then have rd: "d = take (length rdyMsg) (src_bytes (rw_in c))"
      "s = (rw_in c)\<lparr>src_bytes := drop (length rdyMsg) (src_bytes (rw_in c))\<rparr>"
      using r by (simp_all add: readFull_ok)
    obtain n e out where w: "sink_write (rw_out c) rdyMsg = ((n, e), out)" by (metis prod.exhaust)
    show ?thesis using r e2 w by (cases e) (auto simp: ready_def after_handshake_def rd)
  next
    case (Some e3)
    then have "take (length rdyMsg) (src_bytes (rw_in c)) \<noteq> rdyMsg"
      using r by (auto simp: readFull_def Let_def split: if_splits)
    then show ?thesis using r Some by (simp add: ready_def)
  qed
qed

lemma builders_skip:
  assumes "\<forall>b \<in> set bad. \<not> ready b"
  shows "ConnBuilder_Accept (map Inr bad @ rest) = apsnd ((+) (length bad)) (ConnBuilder_Accept rest)"
    and "PipeConnBuilder_Accept (map Inr bad @ rest) = apsnd ((+) (length bad)) (PipeConnBuilder_Accept rest)"
  using assms by (induction bad) (simp_all add: ConnBuilder_one PipeConnBuilder_one apsnd_def map_prod_def split_def
      del: ConnBuilder_Accept.simps(3) PipeConnBuilder_Accept.simps(3))


section \<open>Properties\<close>

text \<open>
  (C33) The handshake. Both sides return the first connection on which the ready message arrives and can
  be sent; every connection before it is closed, and none after it is touched. The returned connection reads
  what the peer sent after its ready message, and nothing is lost. An error of the listener is returned
  at once.
\<close>

theorem handshake_accepts_first_ready:
  assumes "\<forall>b \<in> set bad. \<not> ready b"
  shows "(ready c \<longrightarrow>
            ConnBuilder_Accept (map Inr bad @ Inr c # rest) = (Accepted (after_handshake c), length bad) \<and>
            PipeConnBuilder_Accept (map Inr bad @ Inr c # rest) = (Accepted (after_handshake c), length bad) \<and>
            rdyMsg @ src_bytes (qc_rb (after_handshake c)) = src_bytes (rw_in c)) \<and>
         ConnBuilder_Accept (map Inr bad @ Inl e # rest) = (AcceptErr e, length bad) \<and>
         PipeConnBuilder_Accept (map Inr bad @ Inl e # rest) = (AcceptErr e, length bad)"
proof -
  have "rdyMsg @ src_bytes (qc_rb (after_handshake c)) = src_bytes (rw_in c)" if "ready c"
    using that append_take_drop_id [of "length rdyMsg" "src_bytes (rw_in c)"]
    by (simp add: ready_def after_handshake_def makeConn_def)
  then show ?thesis
    by (simp add: builders_skip [OF assms] ConnBuilder_one PipeConnBuilder_one
        del: ConnBuilder_Accept.simps(3) PipeConnBuilder_Accept.simps(3))
qed

definition raw_with :: "bytes \<Rightarrow> raw" where
  "raw_with b = \<lparr>rw_in = \<lparr>src_bytes = b, src_err = EOF\<rparr>, rw_out = \<lparr>snk_bytes = [], snk_room = None, snk_err = EOF\<rparr>\<rparr>"

theorem handshake_accepts_first_ready_witness:
  "ConnBuilder_Accept [Inr (raw_with [1, 2]), Inr (raw_with (rdyMsg @ [7, 8]))] =
     (Accepted (after_handshake (raw_with (rdyMsg @ [7, 8]))), 1) \<and>
   src_bytes (qc_rb (after_handshake (raw_with (rdyMsg @ [7, 8])))) = [7, 8]"
proof -
  have b: "\<forall>b \<in> set [raw_with [1, 2]]. \<not> ready b" by (simp add: ready_def raw_with_def rdyMsg_def bytes_of_def)
  have c: "ready (raw_with (rdyMsg @ [7, 8]))" by (simp add: ready_def raw_with_def sink_write_open)
  show ?thesis using handshake_accepts_first_ready [OF b, of "raw_with (rdyMsg @ [7, 8])" "[]" EOF] c
    by (simp add: raw_with_def del: ConnBuilder_Accept.simps(3))
qed

lemma write_service_exact:
  assumes "\<forall>n. Some (n, None) \<in> set ws \<longrightarrow> length buff \<le> n" and "write_service buff ws = Some (True, sent)"
  shows "sent = buff"
  using assms by (cases ws) (auto simp: withTimeout_def split: option.splits prod.splits if_splits)

text \<open>
  The service name. If the device's writes report an error whenever they are short, as \<open>io.Writer\<close> demands,
  a connection that \<open>Pipe.Accept\<close> returns has been sent exactly the service's name with its terminating zero
  byte, however many attempts, timeouts and errors came before; and a pipe that is closed accepts nothing.
\<close>

theorem Pipe_Accept_names_service:
  assumes "\<forall>ws n. Inr ws \<in> set opens \<longrightarrow> Some (n, None) \<in> set ws \<longrightarrow> length (svcName (pp_socketName q)) + 1 \<le> n"
    and "Pipe_Accept q opens = Accepted sent"
  shows "sent = svcName (pp_socketName q) @ [0] \<and> Pipe_Accept (snd (Pipe_Close q)) opens = AcceptErr ErrClosed"
proof -
  have "pipe_attempts buff os = Accepted sent \<Longrightarrow> \<forall>ws n. Inr ws \<in> set os \<longrightarrow> Some (n, None) \<in> set ws \<longrightarrow> length buff \<le> n \<Longrightarrow> sent = buff"
    for buff os
  proof (induction buff os rule: pipe_attempts.induct)
    case (3 buff ws rest)
    then show ?case using write_service_exact [of ws buff] by (auto split: option.splits prod.splits bool.splits)
  qed simp_all
  from this [of "svcName (pp_socketName q) @ [0]" opens] show ?thesis
    using assms by (simp add: Pipe_Accept_def Pipe_Close_def split: if_splits)
qed

theorem Pipe_Accept_names_service_witness:
  "Pipe_Accept \<lparr>pp_socketName = ''s'', pp_closed = False, pp_useVsock = False\<rparr> [Inr [None], Inr [Some (12, None)]] =
     Accepted (svcName ''s'' @ [0])"
proof -
  let ?q = "\<lparr>pp_socketName = ''s'', pp_closed = False, pp_useVsock = False\<rparr>"
  let ?os = "[Inr [None], Inr [Some (12, None)]] :: ((nat \<times> go_error option) option list) result list"
  have l: "length (svcName ''s'') = 11" by (simp add: svcName_def bytes_of_def)
  then obtain sent where "Pipe_Accept ?q ?os = Accepted sent" by (simp add: Pipe_Accept_def withTimeout_def)
  then show ?thesis using Pipe_Accept_names_service [of ?os ?q sent] l by auto
qed

text \<open>
  The working directory. \<open>MakeConnBuilder\<close> listens in the emulator's directory and, when it succeeds, has
  restored the working directory. When the old socket cannot be removed or the listen fails, it
  returns an error and leaves the process in the emulator's directory.
\<close>

theorem MakeConnBuilder_directory:
  assumes "MakeConnBuilder (Inr wd) chdir remove listen emuDir socket = (r, now)"
    and "wd \<noteq> emuDir" and "chdir emuDir = None"
  shows "(case r of Inr l \<Rightarrow> now = Some wd \<and> listen emuDir socket = Inr l | Inl _ \<Rightarrow> now = Some emuDir)"
  using assms by (auto simp: MakeConnBuilder_def split: if_splits option.splits sum.splits)

theorem MakeConnBuilder_directory_witness:
  "MakeConnBuilder (Inr ''/home'') (\<lambda>_. None) (\<lambda>_. None) (\<lambda>_ _. Inl EOF :: nat result) ''/emu'' ''sock'' =
     (Inl (Errorf ''failed to listen on unix socket sock: EOF''), Some ''/emu'')"
  using MakeConnBuilder_directory [of "''/home''" "\<lambda>_. None" "\<lambda>_. None" "\<lambda>_ _. Inl EOF :: nat result" "''/emu''" "''sock''"]
  by (simp add: MakeConnBuilder_def)

end
