(* ===== verification/ControlSocket.thy ===== *)
theory ControlSocket
  imports GoIO Proto "HOL-Library.AList"
begin

text \<open>
  The control socket of \<open>net/qemu/control.go\<close>: connections that the host opens and closes by messages on a
  control connection. Connections are heap objects: \<open>open\<close> wraps the device's connection in a
  \<open>ControlSocketConn\<close>, sends the identity on it, and wraps it once more for the table; closing an object closes
  the one under it and reports to the control socket. The control socket itself is the object with
  descriptor 0. The theorems say what a close does, once and repeatedly, and what it sends.
\<close>

section \<open>State\<close>

record ControlSocketConn =
  cc_fd :: "32 word"
  cc_under :: "nat option"
  cc_closedReads :: bool
  cc_closedWrites :: bool
  cc_closed :: bool
  cc_rdChan :: bool
  cc_wrChan :: bool

text \<open>
  \<open>ct_sent\<close>: the messages written to the control connection. \<open>ct_baseCloses\<close>: the objects that closed the
  device's connection, in order. \<open>ct_available\<close>: what waits for \<open>Accept\<close>.
\<close>

record ControlSocket =
  ct_heap :: "ControlSocketConn list"
  ct_m :: "(32 word \<times> nat) list"
  ct_c :: "nat option"
  ct_sent :: "SocketControl list"
  ct_baseCloses :: "nat list"
  ct_pipeClosed :: bool
  ct_available :: "(nat \<times> go_error option) list"

definition MakeControlSocket :: ControlSocket where
  "MakeControlSocket = \<lparr>ct_heap = [], ct_m = [], ct_c = None, ct_sent = [], ct_baseCloses = [],
     ct_pipeClosed = False, ct_available = []\<rparr>"

definition makeControlSocketConn :: "nat option \<Rightarrow> 32 word \<Rightarrow> ControlSocketConn" where
  "makeControlSocketConn below fd = \<lparr>cc_fd = fd, cc_under = below, cc_closedReads = False, cc_closedWrites = False,
     cc_closed = False, cc_rdChan = False, cc_wrChan = False\<rparr>"

definition upd :: "nat \<Rightarrow> (ControlSocketConn \<Rightarrow> ControlSocketConn) \<Rightarrow> ControlSocket \<Rightarrow> ControlSocket" where
  "upd p f s = s\<lparr>ct_heap := (ct_heap s)[p := f (ct_heap s ! p)]\<rparr>"


section \<open>Operations\<close>

text \<open>\<open>CloseRead\<close> and \<open>CloseWrite\<close>: the second call is refused, so the channels are closed once.\<close>

definition ctl_CloseRead :: "nat \<Rightarrow> ControlSocket \<Rightarrow> go_error option \<times> ControlSocket" where
  "ctl_CloseRead p s =
     (if cc_closedReads (ct_heap s ! p) then (Some ErrClosed, s)
      else (None, upd p (\<lambda>c. c\<lparr>cc_closedReads := True, cc_rdChan := True\<rparr>) s))"

definition ctl_CloseWrite :: "nat \<Rightarrow> ControlSocket \<Rightarrow> go_error option \<times> ControlSocket" where
  "ctl_CloseWrite p s =
     (if cc_closedWrites (ct_heap s ! p) then (Some ErrClosed, s)
      else (None, upd p (\<lambda>c. c\<lparr>cc_closedWrites := True, cc_wrChan := True\<rparr>) s))"

text \<open>
  \<open>Write\<close> of the control connection: a message, refused once its write side is closed. Every connection
  that can be closed was opened by a message on the control connection, so there is one.
\<close>

definition control_Write :: "SocketControl \<Rightarrow> ControlSocket \<Rightarrow> go_error option \<times> ControlSocket" where
  "control_Write m s =
     (case ct_c s of
        None \<Rightarrow> (Some ErrClosed, s)
      | Some c \<Rightarrow>
          if cc_closedWrites (ct_heap s ! c) then (Some ErrClosed, s)
          else (None, s\<lparr>ct_sent := ct_sent s @ [m]\<rparr>))"

text \<open>
  \<open>Close\<close> of a connection together with \<open>close\<close> of the control socket, which it calls. The recursion goes to
  the object below, and, for descriptor 0, to every connection of the table; the first argument bounds
  its depth.
\<close>

fun ctl_Close :: "nat \<Rightarrow> nat \<Rightarrow> ControlSocket \<Rightarrow> go_error option \<times> ControlSocket" where
  "ctl_Close 0 p s = (None, s)"
| "ctl_Close (Suc n) p s =
     (if cc_closed (ct_heap s ! p) then (Some ErrClosed, s)
      else
        let fd = cc_fd (ct_heap s ! p);
            s1 = upd p (\<lambda>c. c\<lparr>cc_closed := True\<rparr>) s;
            s2 = snd (ctl_CloseRead p (snd (ctl_CloseWrite p s1)));
            s3 = (case cc_under (ct_heap s ! p) of
                    None \<Rightarrow> s2\<lparr>ct_baseCloses := ct_baseCloses s2 @ [p]\<rparr>
                  | Some q \<Rightarrow> snd (ctl_Close n q s2));
            s4 = s3\<lparr>ct_m := AList.delete fd (ct_m s3)\<rparr>;
            s5 = (if fd = 0 then fold (\<lambda>q s. snd (ctl_Close n q s)) (map snd (ct_m s4)) s4 else s4)
        in (None, snd (control_Write \<lparr>sc_sort = Shut, sc_fd = fd\<rparr> s5)))"

text \<open>Three levels: the control connection, the connections of the table, the connections under those.\<close>

definition conn_Close :: "nat \<Rightarrow> ControlSocket \<Rightarrow> go_error option \<times> ControlSocket" where
  "conn_Close p s = ctl_Close 3 p s"

text \<open>
  \<open>open\<close>: the device's connection or its error, and the outcome of sending the identity. The object is
  returned in any case.
\<close>

definition ctl_open :: "go_error option \<Rightarrow> go_error option \<Rightarrow> 32 word \<Rightarrow> ControlSocket \<Rightarrow> (nat \<times> go_error option) \<times> ControlSocket" where
  "ctl_open acceptErr identErr fd s =
     (let p = length (ct_heap s);
          s1 = s\<lparr>ct_heap := ct_heap s @ [makeControlSocketConn None fd]\<rparr>
      in case acceptErr of
           Some e \<Rightarrow> ((p, Some e), s1)
         | None \<Rightarrow>
             (case identErr of
                Some e \<Rightarrow> ((p, Some e), s1)
              | None \<Rightarrow>
                  if fd = 0 then ((p, None), s1\<lparr>ct_c := Some p\<rparr>)
                  else ((Suc p, None),
                        s1\<lparr>ct_heap := ct_heap s1 @ [makeControlSocketConn (Some p) fd],
                           ct_m := AList.update fd (Suc p) (ct_m s1)\<rparr>)))"

definition ctl_Open :: "go_error option \<Rightarrow> go_error option \<Rightarrow> 32 word \<Rightarrow> ControlSocket \<Rightarrow> ControlSocket" where
  "ctl_Open acceptErr identErr fd s =
     (case ctl_open acceptErr identErr fd s of (r, s') \<Rightarrow> s'\<lparr>ct_available := ct_available s' @ [r]\<rparr>)"

text \<open>One message of the control connection, as the handler's loop treats it.\<close>

definition handle_control :: "go_error option \<Rightarrow> go_error option \<Rightarrow> SocketControl \<Rightarrow> ControlSocket \<Rightarrow> ControlSocket" where
  "handle_control acceptErr identErr m s =
     (case sc_sort m of
        Open \<Rightarrow> ctl_Open acceptErr identErr (sc_fd m) s
      | Shut \<Rightarrow> (case map_of (ct_m s) (sc_fd m) of None \<Rightarrow> s | Some p \<Rightarrow> snd (conn_Close p s))
      | Identity \<Rightarrow> s)"

text \<open>
  \<open>controlSocketHandler\<close>: the messages until a read fails, then the control connection is closed.
  \<open>Accept\<close>: the control connection is opened by the first call; \<open>None\<close> while nothing is available.
\<close>

definition controlSocketHandler :: "(go_error option \<times> go_error option \<times> SocketControl) list \<Rightarrow> ControlSocket \<Rightarrow> ControlSocket" where
  "controlSocketHandler ms s =
     (let s1 = fold (\<lambda>(a, i, m). handle_control a i m) ms s
      in case ct_c s1 of None \<Rightarrow> s1 | Some c \<Rightarrow> snd (conn_Close c s1))"

definition nextConnection :: "ControlSocket \<Rightarrow> (nat \<times> go_error option) option \<times> ControlSocket" where
  "nextConnection s =
     (case ct_available s of [] \<Rightarrow> (None, s) | r # rs \<Rightarrow> (Some r, s\<lparr>ct_available := rs\<rparr>))"

definition ctl_Accept :: "go_error option \<Rightarrow> go_error option \<Rightarrow> ControlSocket \<Rightarrow> (nat \<times> go_error option) option \<times> ControlSocket" where
  "ctl_Accept acceptErr identErr s =
     (if ct_c s = None then
        (case ctl_open acceptErr identErr 0 s of
           ((p, Some e), s') \<Rightarrow> (Some (p, Some e), s')
         | ((p, None), s') \<Rightarrow> nextConnection (s'\<lparr>ct_c := Some p\<rparr>))
      else nextConnection s)"

text \<open>\<open>Close\<close> of the control socket, which dereferences the control connection.\<close>

definition socket_Close :: "ControlSocket \<Rightarrow> ControlSocket outcome" where
  "socket_Close s =
     (case ct_c s of None \<Rightarrow> Panic | Some c \<Rightarrow> Return ((snd (conn_Close c s))\<lparr>ct_pipeClosed := True\<rparr>))"

text \<open>
  \<open>Read\<close> is the read of the buffer below, \<open>rd\<close>; it does not look at \<open>closedReads\<close>. \<open>closeConn\<close>, the goroutine that
  \<open>open\<close> starts for the object on the device's connection: \<open>None\<close> while it waits for both half-closes.
\<close>

definition ctl_Read :: "(nat \<Rightarrow> nat \<Rightarrow> bytes \<times> go_error option) \<Rightarrow> nat \<Rightarrow> nat \<Rightarrow> ControlSocket \<Rightarrow> bytes \<times> go_error option" where
  "ctl_Read rd p n s = rd p n"

definition ctl_closeConn :: "nat \<Rightarrow> ControlSocket \<Rightarrow> ControlSocket option" where
  "ctl_closeConn p s =
     (if cc_rdChan (ct_heap s ! p) \<and> cc_wrChan (ct_heap s ! p)
      then Some (s\<lparr>ct_baseCloses := ct_baseCloses s @ [p]\<rparr>) else None)"

text \<open>The addresses, and the three deadline methods, which are all refused.\<close>

definition ctl_ConnAddr :: "ControlSocketConn \<Rightarrow> string" where
  "ctl_ConnAddr c = []"

definition ctl_Addr :: "string \<Rightarrow> string" where
  "ctl_Addr socketName = socketName"

definition ctl_SetDeadline :: "ControlSocketConn \<Rightarrow> go_error option" where
  "ctl_SetDeadline c = Some ErrNotImplemented"



section \<open>Closing a connection\<close>

text \<open>
  A connection of the table with the one under it, which \<open>open\<close> made just before.
\<close>

definition conn_ok :: "ControlSocket \<Rightarrow> 32 word \<Rightarrow> nat \<Rightarrow> bool" where
  "conn_ok s fd q \<longleftrightarrow>
     fd \<noteq> 0 \<and> 0 < q \<and> q < length (ct_heap s) \<and>
     cc_fd (ct_heap s ! q) = fd \<and> cc_under (ct_heap s ! q) = Some (q - 1) \<and> \<not> cc_closed (ct_heap s ! q) \<and>
     cc_fd (ct_heap s ! (q - 1)) = fd \<and> cc_under (ct_heap s ! (q - 1)) = None \<and> \<not> cc_closed (ct_heap s ! (q - 1))"

definition control_open :: "ControlSocket \<Rightarrow> bool" where
  "control_open s \<longleftrightarrow> (case ct_c s of None \<Rightarrow> False | Some c \<Rightarrow> \<not> cc_closedWrites (ct_heap s ! c))"

lemma upd_simps [simp]:
  "ct_m (upd p f s) = ct_m s" "ct_c (upd p f s) = ct_c s" "ct_sent (upd p f s) = ct_sent s"
  "ct_baseCloses (upd p f s) = ct_baseCloses s" "length (ct_heap (upd p f s)) = length (ct_heap s)"
  "p < length (ct_heap s) \<Longrightarrow> ct_heap (upd p f s) ! p = f (ct_heap s ! p)"
  "r \<noteq> p \<Longrightarrow> ct_heap (upd p f s) ! r = ct_heap s ! r"
  by (simp_all add: upd_def)

lemma control_Write_eq:
  "control_Write m s = (if control_open s then (None, s\<lparr>ct_sent := ct_sent s @ [m]\<rparr>) else (Some ErrClosed, s))"
  by (simp add: control_Write_def control_open_def split: option.splits)

text \<open>The flags of an object after \<open>Close\<close>, as far as the object itself is concerned.\<close>

definition shut :: "nat \<Rightarrow> ControlSocket \<Rightarrow> ControlSocket" where
  "shut p s = upd p (\<lambda>c. c\<lparr>cc_closed := True, cc_closedReads := True, cc_closedWrites := True,
                           cc_rdChan := cc_rdChan c \<or> \<not> cc_closedReads c, cc_wrChan := cc_wrChan c \<or> \<not> cc_closedWrites c\<rparr>) s"

lemma shut_eq:
  assumes "p < length (ct_heap s)"
  shows "snd (ctl_CloseRead p (snd (ctl_CloseWrite p (upd p (\<lambda>c. c\<lparr>cc_closed := True\<rparr>) s)))) = shut p s"
proof -
  have h: "(ct_heap s)[p := x, p := y] = (ct_heap s)[p := y]" for x y by simp
  show ?thesis
    using assms by (cases "ct_heap s ! p") (auto simp: ctl_CloseRead_def ctl_CloseWrite_def shut_def upd_def h)
qed

lemma shut_simps [simp]:
  "ct_m (shut p s) = ct_m s" "ct_c (shut p s) = ct_c s" "ct_sent (shut p s) = ct_sent s"
  "ct_baseCloses (shut p s) = ct_baseCloses s" "length (ct_heap (shut p s)) = length (ct_heap s)"
  "r \<noteq> p \<Longrightarrow> ct_heap (shut p s) ! r = ct_heap s ! r"
  "p < length (ct_heap s) \<Longrightarrow> cc_closed (ct_heap (shut p s) ! p) \<and> cc_closedWrites (ct_heap (shut p s) ! p)"
  by (simp_all add: shut_def)

lemma control_open_frame [simp]:
  "control_open (s\<lparr>ct_m := m\<rparr>) = control_open s" "control_open (s\<lparr>ct_sent := x\<rparr>) = control_open s"
  "control_open (s\<lparr>ct_baseCloses := b\<rparr>) = control_open s"
  "ct_c s = Some c \<Longrightarrow> c \<noteq> p \<Longrightarrow> control_open (shut p s) = control_open s"
  by (simp_all add: control_open_def split: option.splits)

lemma ctl_Close_step:
  assumes "p < length (ct_heap s)" and "\<not> cc_closed (ct_heap s ! p)"
  shows "ctl_Close (Suc n) p s =
    (let fd = cc_fd (ct_heap s ! p);
         s3 = (case cc_under (ct_heap s ! p) of
                 None \<Rightarrow> (shut p s)\<lparr>ct_baseCloses := ct_baseCloses s @ [p]\<rparr>
               | Some q \<Rightarrow> snd (ctl_Close n q (shut p s)));
         s4 = s3\<lparr>ct_m := AList.delete fd (ct_m s3)\<rparr>;
         s5 = (if fd = 0 then fold (\<lambda>q s. snd (ctl_Close n q s)) (map snd (ct_m s4)) s4 else s4)
     in (None, snd (control_Write \<lparr>sc_sort = Shut, sc_fd = fd\<rparr> s5)))"
  unfolding ctl_Close.simps Let_def shut_eq [OF assms(1)] using assms(2) by (simp split: option.splits)

declare ctl_Close.simps(2) [simp del]

text \<open>Closing a table connection, at any depth that reaches the object under it.\<close>

lemma close_table_conn:
  assumes ok: "conn_ok s fd q" and c: "ct_c s = Some c" "c \<noteq> q" "c \<noteq> q - 1"
  shows "\<exists>s'. ctl_Close (Suc (Suc n)) q s = (None, s') \<and>
    ct_m s' = AList.delete fd (ct_m s) \<and> ct_c s' = Some c \<and> length (ct_heap s') = length (ct_heap s) \<and>
    cc_closed (ct_heap s' ! q) \<and> cc_closed (ct_heap s' ! (q - 1)) \<and>
    (\<forall>r. r \<noteq> q \<longrightarrow> r \<noteq> q - 1 \<longrightarrow> ct_heap s' ! r = ct_heap s ! r) \<and>
    ct_baseCloses s' = ct_baseCloses s @ [q - 1] \<and>
    ct_sent s' = ct_sent s @ (if control_open s then [\<lparr>sc_sort = Shut, sc_fd = fd\<rparr>, \<lparr>sc_sort = Shut, sc_fd = fd\<rparr>] else [])"
proof -
  obtain p where p: "q = Suc p" using ok by (cases q) (auto simp: conn_ok_def)
  let ?m = "\<lparr>sc_sort = Shut, sc_fd = fd\<rparr>"
  have q: "fd \<noteq> 0" "q < length (ct_heap s)" "cc_fd (ct_heap s ! q) = fd"
    "cc_under (ct_heap s ! q) = Some p" "\<not> cc_closed (ct_heap s ! q)" "cc_fd (ct_heap s ! p) = fd"
    "cc_under (ct_heap s ! p) = None" "\<not> cc_closed (ct_heap s ! p)"
    using ok by (auto simp: conn_ok_def p)
  let ?a = "(shut p (shut q s))\<lparr>ct_baseCloses := ct_baseCloses s @ [p], ct_m := AList.delete fd (ct_m s)\<rparr>"
  have "control_open (shut p (shut q s)) = control_open s" using c by (simp add: p)
  note co = this
  have e0: "ctl_Close (Suc n) p (shut q s) = (None, snd (control_Write ?m ?a))"
    using q ctl_Close_step [of p "shut q s" n] by (simp add: Let_def p)
  have e1: "ctl_Close (Suc (Suc n)) q s =
      (None, snd (control_Write ?m ((snd (control_Write ?m ?a))\<lparr>ct_m := AList.delete fd (ct_m (snd (control_Write ?m ?a)))\<rparr>)))"
    using q ctl_Close_step [of q s "Suc n"] e0 by (simp add: Let_def)
  have dd: "AList.delete fd (AList.delete fd (ct_m s)) = AList.delete fd (ct_m s)" by (simp add: AList.delete_eq)
  have fin: "ctl_Close (Suc (Suc n)) q s =
      (None, if control_open s then ?a\<lparr>ct_sent := ct_sent s @ [?m, ?m]\<rparr> else ?a)"
    by (simp add: e1 control_Write_eq co dd)
  show ?thesis by (intro exI conjI, rule fin) (use q c p in auto)
qed


section \<open>Reachable states\<close>

text \<open>
  The messages of the host, the calls of \<open>Accept\<close>, and what a user does with an accepted connection.
\<close>

inductive ctl_step :: "ControlSocket \<Rightarrow> ControlSocket \<Rightarrow> bool" where
  message: "ct_c s \<noteq> None \<Longrightarrow> ctl_step s (handle_control acceptErr identErr m s)"
| accept: "ctl_step s (snd (ctl_Accept acceptErr identErr s))"
| user_close: "map_of (ct_m s) fd = Some q \<Longrightarrow> ctl_step s (snd (conn_Close q s))"
| user_closeRead: "map_of (ct_m s) fd = Some q \<Longrightarrow> ctl_step s (snd (ctl_CloseRead q s))"
| user_closeWrite: "map_of (ct_m s) fd = Some q \<Longrightarrow> ctl_step s (snd (ctl_CloseWrite q s))"

inductive ctl_reach :: "ControlSocket \<Rightarrow> bool" where
  ctl_start: "ctl_reach MakeControlSocket"
| ctl_next: "ctl_reach s \<Longrightarrow> ctl_step s s' \<Longrightarrow> ctl_reach s'"

definition ctl_inv :: "ControlSocket \<Rightarrow> bool" where
  "ctl_inv s \<longleftrightarrow>
     distinct (map fst (ct_m s)) \<and> (ct_c s = None \<longrightarrow> ct_m s = []) \<and>
     (\<forall>c. ct_c s = Some c \<longrightarrow> c < length (ct_heap s) \<and> cc_fd (ct_heap s ! c) = 0 \<and> cc_under (ct_heap s ! c) = None) \<and>
     (\<forall>fd q. map_of (ct_m s) fd = Some q \<longrightarrow> conn_ok s fd q)"

lemma ctl_invD:
  assumes "ctl_inv s"
  shows "distinct (map fst (ct_m s))"
    and "ct_c s = Some c \<Longrightarrow> c < length (ct_heap s) \<and> cc_fd (ct_heap s ! c) = 0 \<and> cc_under (ct_heap s ! c) = None"
    and "map_of (ct_m s) fd = Some q \<Longrightarrow> conn_ok s fd q"
    and "map_of (ct_m s) fd = Some q \<Longrightarrow> ct_c s \<noteq> None"
  using assms by (auto simp: ctl_inv_def)

lemma conn_ok_control:
  assumes "conn_ok s fd q" and "cc_fd (ct_heap s ! c) = 0"
  shows "c \<noteq> q \<and> c \<noteq> q - 1"
  using assms by (auto simp: conn_ok_def)

lemma conn_ok_disjoint:
  assumes "conn_ok s fd q" and "conn_ok s fd' q'" and "fd \<noteq> fd'"
  shows "q' \<noteq> q \<and> q' \<noteq> q - 1 \<and> q' - 1 \<noteq> q \<and> q' - 1 \<noteq> q - 1"
  using assms by (auto simp: conn_ok_def)

lemma conn_ok_frame:
  assumes "conn_ok s fd q" and "length (ct_heap s) \<le> length (ct_heap s')"
    and "ct_heap s' ! q = ct_heap s ! q" and "ct_heap s' ! (q - 1) = ct_heap s ! (q - 1)"
  shows "conn_ok s' fd q"
  using assms by (auto simp: conn_ok_def)

lemma ctl_inv_close:
  assumes inv: "ctl_inv s" and q: "map_of (ct_m s) fd = Some q"
  shows "ctl_inv (snd (conn_Close q s))"
proof -
  obtain c where c: "ct_c s = Some c" using ctl_invD(4) [OF inv q] by blast
  note ok = ctl_invD(3) [OF inv q] and cc = ctl_invD(2) [OF inv c]
  have ne: "c \<noteq> q" "c \<noteq> q - 1" using conn_ok_control [OF ok] cc by blast+
  obtain s' where s': "conn_Close q s = (None, s')" "ct_m s' = AList.delete fd (ct_m s)" "ct_c s' = Some c"
    "length (ct_heap s') = length (ct_heap s)" "\<forall>r. r \<noteq> q \<longrightarrow> r \<noteq> q - 1 \<longrightarrow> ct_heap s' ! r = ct_heap s ! r"
    using close_table_conn [OF ok c ne, of 1] unfolding conn_Close_def by (auto simp: numeral_3_eq_3)
  have "conn_ok s' fd' q'" if m: "map_of (ct_m s') fd' = Some q'" for fd' q'
  proof -
    have m': "map_of (ct_m s) fd' = Some q'" "fd' \<noteq> fd" using m by (auto simp: s' delete_conv' split: if_splits)
    note d = conn_ok_disjoint [OF ok ctl_invD(3) [OF inv m'(1)]] m'(2)
    show ?thesis by (rule conn_ok_frame [OF ctl_invD(3) [OF inv m'(1)]]) (use d s' in auto)
  qed
  then show ?thesis
    using cc ne ctl_invD(1) [OF inv] s' by (simp add: ctl_inv_def distinct_delete)
qed

lemma ctl_inv_upd:
  assumes "ctl_inv s" and "\<And>c. cc_fd (f c) = cc_fd c \<and> cc_under (f c) = cc_under c \<and> cc_closed (f c) = cc_closed c"
  shows "ctl_inv (upd p f s)"
proof -
  have nth: "cc_fd (ct_heap (upd p f s) ! r) = cc_fd (ct_heap s ! r) \<and> cc_under (ct_heap (upd p f s) ! r) = cc_under (ct_heap s ! r) \<and>
      cc_closed (ct_heap (upd p f s) ! r) = cc_closed (ct_heap s ! r)" for r
  proof (cases "p < length (ct_heap s)")
    case True
    then show ?thesis using assms(2) by (cases "r = p") auto
  qed (simp add: upd_def list_update_beyond)
  then show ?thesis using assms(1) by (auto simp: ctl_inv_def conn_ok_def)
qed

lemma ctl_inv_alloc: "ctl_inv s \<Longrightarrow> ctl_inv (s\<lparr>ct_heap := ct_heap s @ xs\<rparr>)"
proof -
  assume inv: "ctl_inv s"
  have "conn_ok (s\<lparr>ct_heap := ct_heap s @ xs\<rparr>) fd q" if "conn_ok s fd q" for fd q
    by (rule conn_ok_frame [OF that]) (use that in \<open>auto simp: conn_ok_def nth_append\<close>)
  then show ?thesis using inv by (auto simp: ctl_inv_def nth_append)
qed

lemma ctl_inv_open:
  assumes inv: "ctl_inv s" and c: "fd = 0 \<or> ct_c s \<noteq> None"
  shows "ctl_inv (snd (ctl_open acceptErr identErr fd s))"
proof -
  let ?p = "length (ct_heap s)"
  have frame: "conn_ok (s'\<lparr>ct_m := m\<rparr>) = conn_ok s'" "conn_ok (s'\<lparr>ct_c := x\<rparr>) = conn_ok s'" for s' m x
    by (simp_all add: conn_ok_def fun_eq_iff)
  let ?s1 = "s\<lparr>ct_heap := ct_heap s @ [makeControlSocketConn None fd]\<rparr>"
  have inv1: "ctl_inv ?s1"
    by (rule ctl_inv_alloc [OF inv])
  have inv2: "ctl_inv (?s1\<lparr>ct_c := Some ?p\<rparr>)" if "fd = 0"
    using inv1 that by (auto simp: ctl_inv_def frame) (simp add: makeControlSocketConn_def)+
  let ?s2 = "?s1\<lparr>ct_heap := ct_heap ?s1 @ [makeControlSocketConn (Some ?p) fd]\<rparr>"
  have inv3: "ctl_inv (?s2\<lparr>ct_m := AList.update fd (Suc ?p) (ct_m s)\<rparr>)" if "fd \<noteq> 0"
  proof -
    have "conn_ok ?s2 fd (Suc ?p)" using that by (simp add: conn_ok_def makeControlSocketConn_def nth_append)
    moreover have "ctl_inv ?s2" using ctl_inv_alloc [OF inv1] by simp
    ultimately show ?thesis
      using c that unfolding ctl_inv_def by (auto simp: frame distinct_update update_conv')
  qed
  show ?thesis
    using inv1 inv2 inv3 by (auto simp: ctl_open_def Let_def split: option.splits)
qed

lemma ctl_inv_available: "ctl_inv (s\<lparr>ct_available := a\<rparr>) = ctl_inv s"
  by (simp add: ctl_inv_def conn_ok_def)

lemma ctl_inv_next: "ctl_inv s \<Longrightarrow> ctl_inv (snd (nextConnection s))"
  by (simp add: nextConnection_def ctl_inv_available split: list.splits)

lemma ctl_open_zero: "ctl_open a i 0 s = ((p, None), s') \<Longrightarrow> ct_c s' = Some p"
  by (auto simp: ctl_open_def Let_def split: option.splits)

lemma ctl_inv_step: "ctl_step s s' \<Longrightarrow> ctl_inv s \<Longrightarrow> ctl_inv s'"
proof (induction rule: ctl_step.induct)
  case (message s acceptErr identErr m)
  then show ?case
    using ctl_inv_open [OF message(2), of "sc_fd m" acceptErr identErr] ctl_inv_close [OF message(2)]
    by (auto simp: handle_control_def ctl_Open_def ctl_inv_available split: sort.splits option.splits prod.splits)
next
  case (accept s acceptErr identErr)
  obtain p e s1 where o: "ctl_open acceptErr identErr 0 s = ((p, e), s1)" by (metis prod.exhaust)
  have "ctl_inv s1" using ctl_inv_open [OF accept, of 0 acceptErr identErr] o by simp
  moreover have "e = None \<Longrightarrow> s1\<lparr>ct_c := Some p\<rparr> = s1" using ctl_open_zero o by fastforce
  ultimately show ?case
    using accept o ctl_inv_next by (cases e) (auto simp: ctl_Accept_def)
next
  case (user_closeRead s fd q)
  then show ?case by (auto simp: ctl_CloseRead_def intro: ctl_inv_upd)
next
  case (user_closeWrite s fd q)
  then show ?case by (auto simp: ctl_CloseWrite_def intro: ctl_inv_upd)
qed (rule ctl_inv_close)

lemma ctl_reach_inv: "ctl_reach s \<Longrightarrow> ctl_inv s"
proof (induction rule: ctl_reach.induct)
  case ctl_start
  show ?case by (simp add: ctl_inv_def MakeControlSocket_def)
qed (rule ctl_inv_step)

text \<open>Closing all connections of a table one after the other, with the control connection shut already.\<close>

lemma close_all:
  assumes "distinct (map fst ms)" and "\<And>fd q. (fd, q) \<in> set ms \<Longrightarrow> conn_ok s fd q"
    and "ct_c s = Some c" and "cc_fd (ct_heap s ! c) = 0" and "\<not> control_open s"
    and "s' = fold (\<lambda>q s. snd (ctl_Close 2 q s)) (map snd ms) s"
  shows "ct_c s' = Some c \<and> ct_sent s' = ct_sent s \<and> length (ct_heap s') = length (ct_heap s) \<and>
         ct_m s' = fold AList.delete (map fst ms) (ct_m s) \<and> \<not> control_open s' \<and>
         (\<forall>fd q. (fd, q) \<in> set ms \<longrightarrow> cc_closed (ct_heap s' ! q) \<and> cc_closed (ct_heap s' ! (q - 1))) \<and>
         (\<forall>r. (\<forall>fd q. (fd, q) \<in> set ms \<longrightarrow> r \<noteq> q \<and> r \<noteq> q - 1) \<longrightarrow> ct_heap s' ! r = ct_heap s ! r)"
  using assms
proof (induction ms arbitrary: s)
  case (Cons x ms)
  obtain fd q where x: "x = (fd, q)" by fastforce
  have ok: "conn_ok s fd q" using Cons.prems(2) by (simp add: x)
  have ne: "c \<noteq> q" "c \<noteq> q - 1" using conn_ok_control [OF ok Cons.prems(4)] by blast+
  obtain s1 where c2: "ctl_Close 2 q s = (None, s1)" and s1: "ct_m s1 = AList.delete fd (ct_m s)" "ct_c s1 = Some c"
    "length (ct_heap s1) = length (ct_heap s)" "cc_closed (ct_heap s1 ! q)" "cc_closed (ct_heap s1 ! (q - 1))"
    "\<forall>r. r \<noteq> q \<longrightarrow> r \<noteq> q - 1 \<longrightarrow> ct_heap s1 ! r = ct_heap s ! r" and snt: "ct_sent s1 = ct_sent s"
    using close_table_conn [OF ok Cons.prems(3) ne, of 0] Cons.prems(5) by (auto simp: numeral_2_eq_2)
  have dis: "q' \<noteq> q \<and> q' \<noteq> q - 1 \<and> q' - 1 \<noteq> q \<and> q' - 1 \<noteq> q - 1" "conn_ok s fd' q'" if "(fd', q') \<in> set ms" for fd' q'
  proof -
    show ok': "conn_ok s fd' q'" using Cons.prems(2) that by simp
    have "fd \<noteq> fd'" using Cons.prems(1) that by (auto simp: x image_iff)
    then show "q' \<noteq> q \<and> q' \<noteq> q - 1 \<and> q' - 1 \<noteq> q \<and> q' - 1 \<noteq> q - 1" using conn_ok_disjoint [OF ok ok'] by simp
  qed
  have "conn_ok s1 fd' q'" if "(fd', q') \<in> set ms" for fd' q'
    by (rule conn_ok_frame [OF dis(2) [OF that]]) (use dis(1) [OF that] s1 in auto)
  moreover have "\<not> control_open s1" "cc_fd (ct_heap s1 ! c) = 0"
    using Cons.prems(3-5) s1 ne by (auto simp: control_open_def)
  ultimately have IH: "ct_c s' = Some c \<and> ct_sent s' = ct_sent s1 \<and> length (ct_heap s') = length (ct_heap s1) \<and>
         ct_m s' = fold AList.delete (map fst ms) (ct_m s1) \<and> \<not> control_open s' \<and>
         (\<forall>fd q. (fd, q) \<in> set ms \<longrightarrow> cc_closed (ct_heap s' ! q) \<and> cc_closed (ct_heap s' ! (q - 1))) \<and>
         (\<forall>r. (\<forall>fd q. (fd, q) \<in> set ms \<longrightarrow> r \<noteq> q \<and> r \<noteq> q - 1) \<longrightarrow> ct_heap s' ! r = ct_heap s1 ! r)"
    using Cons.prems(1,6) c2 s1(2) by (intro Cons.IH) (simp_all add: x)
  have "ct_heap s' ! q = ct_heap s1 ! q" "ct_heap s' ! (q - 1) = ct_heap s1 ! (q - 1)"
    using IH dis(1) by metis+
  then show ?case using IH s1 snt by (auto simp: x)
qed simp

lemma fold_delete_keys: "fold AList.delete (map fst ms) ms = []"
proof -
  have "set (fold AList.delete ks xs) = {p \<in> set xs. fst p \<notin> set ks}" for ks and xs :: "('a \<times> 'b) list"
    by (induction ks arbitrary: xs) (auto simp: AList.delete_eq)
  from this [of "map fst ms" ms] show ?thesis by (metis (mono_tags, lifting) Collect_empty_eq image_eqI set_empty list.set_map)
qed


section \<open>Properties\<close>

text \<open>
  Closing a connection. In every reachable state, closing a connection of the table removes it from the
  table, closes it, the connection under it and the device's connection, which is closed once; any further
  close is refused and changes nothing. The host is told twice: the connection and the one under it both report
  the close, so two close messages with the same descriptor are sent.
\<close>

theorem close_connection:
  assumes "ctl_reach s" and "map_of (ct_m s) fd = Some q" and "control_open s" and "conn_Close q s = (e, s')"
  shows "e = None \<and> map_of (ct_m s') = (map_of (ct_m s))(fd := None) \<and>
         cc_closed (ct_heap s' ! q) \<and> cc_closed (ct_heap s' ! (q - 1)) \<and>
         ct_baseCloses s' = ct_baseCloses s @ [q - 1] \<and>
         ct_sent s' = ct_sent s @ [\<lparr>sc_sort = Shut, sc_fd = fd\<rparr>, \<lparr>sc_sort = Shut, sc_fd = fd\<rparr>] \<and>
         conn_Close q s' = (Some ErrClosed, s')"
proof -
  have inv: "ctl_inv s" by (rule ctl_reach_inv [OF assms(1)])
  obtain c where c: "ct_c s = Some c" using ctl_invD(4) [OF inv assms(2)] by blast
  note ok = ctl_invD(3) [OF inv assms(2)]
  have ne: "c \<noteq> q" "c \<noteq> q - 1" using conn_ok_control [OF ok] ctl_invD(2) [OF inv c] by blast+
  obtain s1 where s1: "ctl_Close (Suc (Suc 1)) q s = (None, s1)" "ct_m s1 = AList.delete fd (ct_m s)"
    "cc_closed (ct_heap s1 ! q)" "cc_closed (ct_heap s1 ! (q - 1))" "ct_baseCloses s1 = ct_baseCloses s @ [q - 1]"
    "ct_sent s1 = ct_sent s @ [\<lparr>sc_sort = Shut, sc_fd = fd\<rparr>, \<lparr>sc_sort = Shut, sc_fd = fd\<rparr>]"
    using close_table_conn [OF ok c ne, of 1] assms(3) by auto
  have "s' = s1" "e = None" using assms(4) s1(1) by (simp_all add: conn_Close_def numeral_3_eq_3)
  moreover have "conn_Close q s1 = (Some ErrClosed, s1)"
    using s1(3) by (simp add: conn_Close_def numeral_3_eq_3 ctl_Close.simps(2))
  ultimately show ?thesis using s1 assms(3) by (simp add: delete_conv')
qed

definition ctl_demo :: ControlSocket where
  "ctl_demo = handle_control None None \<lparr>sc_sort = Open, sc_fd = 7\<rparr> (snd (ctl_Accept None None MakeControlSocket))"

lemma ctl_demo_reach: "ctl_reach ctl_demo"
  unfolding ctl_demo_def
  by (intro ctl_next [OF ctl_next [OF ctl_start accept] message])
    (simp add: ctl_Accept_def MakeControlSocket_def ctl_open_def nextConnection_def)

theorem close_connection_witness:
  "ct_sent (snd (conn_Close 2 ctl_demo)) = [\<lparr>sc_sort = Shut, sc_fd = 7\<rparr>, \<lparr>sc_sort = Shut, sc_fd = 7\<rparr>]"
proof -
  have "map_of (ct_m ctl_demo) 7 = Some 2" "control_open ctl_demo" "ct_sent ctl_demo = []"
    by (simp_all add: ctl_demo_def ctl_Accept_def MakeControlSocket_def ctl_open_def nextConnection_def handle_control_def
        ctl_Open_def Let_def makeControlSocketConn_def control_open_def)
  then show ?thesis using close_connection [OF ctl_demo_reach, of 7 2] by (metis append_Nil prod.collapse)
qed

text \<open>
  The two half-closes of an accepted connection do not end it: nobody waits for them on the object that
  \<open>Accept\<close> returns, the object under it stays open in both directions, and the device's connection is not
  closed; \<open>Close\<close> is needed. A read after \<open>CloseRead\<close> is still served.
\<close>

theorem half_closes_keep_connection:
  assumes "ctl_reach s" and "map_of (ct_m s) fd = Some q"
    and "s' = snd (ctl_CloseWrite q (snd (ctl_CloseRead q s)))" and "ctl_closeConn (q - 1) s = None"
  shows "ctl_closeConn (q - 1) s' = None \<and> ct_baseCloses s' = ct_baseCloses s \<and> map_of (ct_m s') fd = Some q \<and>
         ct_sent s' = ct_sent s \<and> ctl_Read rd q n s' = ctl_Read rd q n s"
proof -
  have ok: "conn_ok s fd q" by (rule ctl_invD(3) [OF ctl_reach_inv [OF assms(1)] assms(2)])
  then have ne: "q - 1 \<noteq> q" by (auto simp: conn_ok_def)
  have "ct_heap s' ! (q - 1) = ct_heap s ! (q - 1)" "ct_m s' = ct_m s" "ct_sent s' = ct_sent s" "ct_baseCloses s' = ct_baseCloses s"
    using ne by (simp_all add: assms(3) ctl_CloseRead_def ctl_CloseWrite_def)
  then show ?thesis using assms(2,4) by (simp add: ctl_closeConn_def ctl_Read_def split: if_splits)
qed



end
