(* ===== verification/MuxListener.thy ===== *)
theory MuxListener
  imports Stream
begin

text \<open>
  The multiplexer of \<open>mux/mux.go\<close> and \<open>mux/conn.go\<close>: one connection is served by a gRPC server whose listener
  gives it out once, and every stream a client opens on it is a connection of the outer listener. The streams
  themselves are those of the theory \<open>Stream\<close>. A call that blocks has the result \<open>None\<close>.
\<close>

section \<open>The listener with one connection\<close>

record singletonListener =
  sg_chan :: bool
  sg_closed :: bool
  sg_connCloses :: nat

definition newSingleton :: singletonListener where
  "newSingleton = \<lparr>sg_chan = True, sg_closed = False, sg_connCloses = 0\<rparr>"

text \<open>\<open>sg_chan\<close>: the channel holds the connection. A closed channel still delivers what it holds.\<close>

definition singleton_Accept :: "singletonListener \<Rightarrow> unit result option \<times> singletonListener" where
  "singleton_Accept sl =
     (if sg_chan sl then (Some (Inr ()), sl\<lparr>sg_chan := False\<rparr>)
      else if sg_closed sl then (Some (Inl (Errorf ''can't accept - listener closed'')), sl)
      else (None, sl))"

definition singleton_Close :: "singletonListener \<Rightarrow> go_error option \<times> singletonListener" where
  "singleton_Close sl =
     (if sg_closed sl then (Some (Errorf ''alredy closed''), sl)
      else (None, sl\<lparr>sg_closed := True, sg_connCloses := Suc (sg_connCloses sl)\<rparr>))"


section \<open>The listener of streams\<close>

text \<open>
  \<open>ls_waiting\<close>: the handlers of \<open>NewStream\<close> that wait in a send on the unbuffered channel, oldest first.
\<close>

record Listener =
  ls_control :: singletonListener
  ls_stopped :: bool
  ls_strmsClosed :: bool
  ls_waiting :: "nat list"

definition NewListener :: Listener where
  "NewListener = \<lparr>ls_control = newSingleton, ls_stopped = False, ls_strmsClosed = False, ls_waiting = []\<rparr>"

text \<open>A send on a closed channel panics, and so does a send that waits while the channel is closed.\<close>

definition NewStream :: "nat \<Rightarrow> Listener \<Rightarrow> Listener outcome" where
  "NewStream strm l = (if ls_strmsClosed l then Panic else Return (l\<lparr>ls_waiting := ls_waiting l @ [strm]\<rparr>))"

definition Listener_Accept :: "Listener \<Rightarrow> nat result option \<times> Listener" where
  "Listener_Accept l =
     (case ls_waiting l of
        s # ss \<Rightarrow> (Some (Inr s), l\<lparr>ls_waiting := ss\<rparr>)
      | [] \<Rightarrow>
          if ls_strmsClosed l then (Some (Inl (Errorf ''error receiving next stream: grpc server stopped'')), l)
          else (None, l))"

definition Listener_Close :: "Listener \<Rightarrow> (go_error option \<times> Listener) outcome" where
  "Listener_Close l =
     (case singleton_Close (ls_control l) of
        (Some e, c) \<Rightarrow> Return (Some e, l\<lparr>ls_control := c\<rparr>)
      | (None, c) \<Rightarrow>
          if ls_waiting l \<noteq> [] then Panic
          else Return (None, l\<lparr>ls_control := c, ls_stopped := True, ls_strmsClosed := True\<rparr>))"

text \<open>
  \<open>ConnBuilder.Accept\<close> on the client's side: a new stream wrapped as a connection, or the error.
\<close>

definition mux_dial :: "go_error option \<Rightarrow> Message list \<Rightarrow> go_error \<Rightarrow> nat list \<Rightarrow> Message sender \<Rightarrow> Message rwc result" where
  "mux_dial err ms fin sched snd1 = (case err of Some e \<Rightarrow> Inl e | None \<Rightarrow> Inr (NewReadWriteCloser ms fin sched snd1))"

text \<open>
  \<open>Conn\<close>: closing one side of a connection that has no sides closes it. \<open>half\<close>: the closer below can close
  its sides.
\<close>

definition mux_conn_CloseRead :: "bool \<Rightarrow> ('c \<Rightarrow> go_error option \<times> 'c) \<Rightarrow> ('c \<Rightarrow> go_error option \<times> 'c) \<Rightarrow> 'c \<Rightarrow> go_error option \<times> 'c" where
  "mux_conn_CloseRead half closeRead close c = (if half then closeRead c else close c)"

definition mux_conn_CloseWrite :: "bool \<Rightarrow> ('c \<Rightarrow> go_error option \<times> 'c) \<Rightarrow> ('c \<Rightarrow> go_error option \<times> 'c) \<Rightarrow> 'c \<Rightarrow> go_error option \<times> 'c" where
  "mux_conn_CloseWrite half closeWrite close c = (if half then closeWrite c else close c)"


text \<open>The other methods of \<open>Conn\<close> hand on to the connection below, or refuse.\<close>

definition mux_conn_Read :: "('c \<Rightarrow> nat \<Rightarrow> ((bytes \<times> go_error option) \<times> 'c) option) \<Rightarrow> 'c \<Rightarrow> nat \<Rightarrow> ((bytes \<times> go_error option) \<times> 'c) option" where
  "mux_conn_Read rd c n = rd c n"

definition mux_conn_Write :: "('c \<Rightarrow> bytes \<Rightarrow> (nat \<times> go_error option) \<times> 'c) \<Rightarrow> 'c \<Rightarrow> bytes \<Rightarrow> (nat \<times> go_error option) \<times> 'c" where
  "mux_conn_Write wr c b = wr c b"

definition mux_conn_Close :: "('c \<Rightarrow> go_error option \<times> 'c) \<Rightarrow> 'c \<Rightarrow> go_error option \<times> 'c" where
  "mux_conn_Close close c = close c"

definition NewConn :: "'c \<Rightarrow> 'c" where
  "NewConn rwc = rwc"

text \<open>\<open>maddr\<close>: the network and the text of an address are its name.\<close>

definition maddr_Network :: "string \<Rightarrow> string" where
  "maddr_Network a = a"

definition maddr_String :: "string \<Rightarrow> string" where
  "maddr_String a = a"

definition mux_conn_Addr :: string where
  "mux_conn_Addr = ''muxconn''"

definition mux_SetDeadline :: go_error where
  "mux_SetDeadline = Errorf ''unimplemented SetDeadline''"

definition mux_SetReadDeadline :: go_error where
  "mux_SetReadDeadline = Errorf ''unimplemented SetReadDeadline''"

definition mux_SetWriteDeadline :: go_error where
  "mux_SetWriteDeadline = Errorf ''unimplemented SetWriteDeadline''"

definition singleton_Addr :: string where
  "singleton_Addr = ''singleton''"

definition Listener_Addr :: string where
  "Listener_Addr = ''mux''"

text \<open>
  The client's builder. gRPC dials when it needs a transport, and the dialer gives out the one connection
  every time: \<open>mb_dials\<close> counts that. \<open>Close\<close> closes the gRPC connection, and with it the transport.
\<close>

record mux_builder =
  mb_dials :: nat
  mb_connCloses :: nat
  mb_closed :: bool

definition NewConnBuilder :: "go_error option \<Rightarrow> mux_builder \<times> go_error option" where
  "NewConnBuilder dialErr = (\<lparr>mb_dials = 0, mb_connCloses = 0, mb_closed = False\<rparr>, dialErr)"

definition mux_dialer :: "mux_builder \<Rightarrow> go_error option \<times> mux_builder" where
  "mux_dialer b = (None, b\<lparr>mb_dials := Suc (mb_dials b)\<rparr>)"

definition mux_builder_Close :: "go_error option \<Rightarrow> mux_builder \<Rightarrow> go_error option \<times> mux_builder" where
  "mux_builder_Close err b = (err, b\<lparr>mb_closed := True\<rparr>)"


section \<open>Properties\<close>

datatype sg_op = DoAccept | DoClose

fun singleton_run :: "sg_op list \<Rightarrow> singletonListener \<Rightarrow> unit result option list \<times> singletonListener" where
  "singleton_run [] sl = ([], sl)"
| "singleton_run (DoAccept # os) sl = (case singleton_Accept sl of (r, sl') \<Rightarrow> apfst (Cons r) (singleton_run os sl'))"
| "singleton_run (DoClose # os) sl = singleton_run os (snd (singleton_Close sl))"

definition granted :: "unit result option list \<Rightarrow> nat" where
  "granted rs = length (filter (\<lambda>r. r = Some (Inr ())) rs)"

lemma granted_simps [simp]: "granted [] = 0" "granted (r # rs) = (if r = Some (Inr ()) then 1 else 0) + granted rs"
  by (simp_all add: granted_def)

lemma singleton_granted:
  "granted (fst (singleton_run os sl)) + (if sg_chan (snd (singleton_run os sl)) then 1 else 0) = (if sg_chan sl then 1 else 0) \<and>
   sg_connCloses (snd (singleton_run os sl)) = sg_connCloses sl + (if \<not> sg_closed sl \<and> DoClose \<in> set os then 1 else 0) \<and>
   (sg_closed (snd (singleton_run os sl)) \<longleftrightarrow> sg_closed sl \<or> DoClose \<in> set os)"
proof (induction os sl rule: singleton_run.induct)
  case (2 os sl)
  obtain r sl' where a: "singleton_Accept sl = (r, sl')" by fastforce
  from a have "sg_closed sl' = sg_closed sl" "sg_connCloses sl' = sg_connCloses sl"
    "(if r = Some (Inr ()) then 1 else 0) + (if sg_chan sl' then 1 else 0 :: nat) = (if sg_chan sl then 1 else 0)"
    by (auto simp: singleton_Accept_def split: if_splits)
  then show ?case using 2 [OF a [symmetric]] by (simp add: a apfst_def map_prod_def split_def)
next
  case (3 os sl)
  then show ?case by (auto simp: singleton_Close_def split: if_splits)
qed simp

text \<open>
  One connection only. Over any sequence of accepts and closes, in any order, the inner listener gives out
  its connection at most once, and exactly once when it was accepted at all; it closes the connection exactly once
  when it was closed at all; an accept after that never blocks.
\<close>

theorem singleton_accepts_once:
  assumes "singleton_run os newSingleton = (rs, sl)"
  shows "granted rs = (if sg_chan sl then 0 else 1) \<and> granted rs \<le> 1 \<and>
         sg_connCloses sl = (if DoClose \<in> set os then 1 else 0) \<and>
         (DoClose \<in> set os \<longrightarrow> fst (singleton_Accept sl) \<noteq> None)"
  using singleton_granted [of os newSingleton] assms
  by (auto simp: newSingleton_def singleton_Accept_def split: if_splits)

theorem singleton_accepts_once_witness:
  "granted (fst (singleton_run [DoAccept, DoAccept, DoClose, DoAccept, DoClose] newSingleton)) \<le> 1"
  using singleton_accepts_once [OF prod.collapse [symmetric], of "[DoAccept, DoAccept, DoClose, DoAccept, DoClose]"] by simp

text \<open>
  Closing the multiplexer while a client's stream waits to be accepted panics: the listener closes the
  channel on which the handler of that stream is sending. Without a waiting stream the close succeeds, a second
  close is an error, and a stream that arrives after the close panics as well.
\<close>

theorem close_with_waiting_stream:
  assumes "\<not> sg_closed (ls_control l)"
  shows "(ls_waiting l \<noteq> [] \<longrightarrow> Listener_Close l = Panic) \<and>
         (ls_waiting l = [] \<longrightarrow>
            (\<exists>l'. Listener_Close l = Return (None, l') \<and> Listener_Close l' = Return (Some (Errorf ''alredy closed''), l') \<and>
               fst (Listener_Accept l') = Some (Inl (Errorf ''error receiving next stream: grpc server stopped'')) \<and>
               NewStream strm l' = Panic))"
  using assms by (auto simp: Listener_Close_def singleton_Close_def Listener_Accept_def NewStream_def)

theorem close_with_waiting_stream_witness:
  "(case NewStream 3 NewListener of Return l \<Rightarrow> Listener_Close l = Panic | _ \<Rightarrow> False)"
  using close_with_waiting_stream [of "NewListener\<lparr>ls_waiting := [3]\<rparr>"]
  by (simp add: NewStream_def NewListener_def newSingleton_def)

text \<open>
  A multiplexed connection as a whole: the connection that the client's \<open>Accept\<close> makes of a stream can close its
  sides, so \<open>CloseWrite\<close> sends the closing message and keeps the reading side, and everything written before it
  reaches the reader at the other end, which then sees the end of the stream.
\<close>

theorem mux_conn_roundtrip:
  assumes "\<forall>b \<in> set bs. b \<noteq> []" and "\<forall>n \<in> set ns. 0 < n" and "length bs + length (concat bs) + 1 < length ns"
    and "mux_dial None ms fin sched \<lparr>sd_sent = [], sd_room = None, sd_err = e0\<rparr> = Inr c"
  shows "\<exists>c' r. mux_conn_CloseWrite True (rwc_CloseWrite mux_CloseMsg) (rwc_Close mux_CloseMsg)
        (fold (\<lambda>b c. snd (mux_conn_Write (rwc_Write mux_BuildMsg mux_SetBytes) c b)) bs c) = (None, c') \<and> \<not> rw_cr c' \<and>
     reads (mux_conn_Read (rwc_Read mux_GetBytes)) (NewReadWriteCloser (sd_sent (rw_w c')) e1 sched1 sd1) ns = Some (concat bs, Some EOF, r)"
proof -
  have c: "c = NewReadWriteCloser ms fin sched \<lparr>sd_sent = [], sd_room = None, sd_err = e0\<rparr>"
    using assms(4) by (simp add: mux_dial_def)
  have ws: "fold (\<lambda>b c. snd (mux_conn_Write (rwc_Write mux_BuildMsg mux_SetBytes) c b)) bs x = rwc_writes mux_BuildMsg mux_SetBytes x bs" for x
    by (induction bs arbitrary: x) (simp_all add: mux_conn_Write_def)
  have rd: "mux_conn_Read (rwc_Read mux_GetBytes) = rwc_Read mux_GetBytes"
    by (simp add: mux_conn_Read_def fun_eq_iff)
  have cr: "rw_cr (rwc_writes mux_BuildMsg mux_SetBytes x bs) = rw_cr x" for x
    by (induction bs arbitrary: x) (simp_all add: rwc_Write_def split: prod.splits)
  have "\<not> rw_cw c" "sd_room (rw_w c) = None" "sd_sent (rw_w c) = []" "\<not> rw_cr c"
    by (simp_all add: c NewReadWriteCloser_def)
  with mux.codec_roundtrip [of bs c ns "[]" e1 sched1 sd1] assms(1-3) obtain c' r where
    "rwc_CloseWrite mux_CloseMsg (rwc_writes mux_BuildMsg mux_SetBytes c bs) = (None, c')"
    "reads (rwc_Read mux_GetBytes) (NewReadWriteCloser (sd_sent (rw_w c')) e1 sched1 sd1) ns = Some (concat bs, Some EOF, r)"
    by auto
  moreover from this(1) have "rw_cr c' = rw_cr c" by (auto simp: rwc_CloseWrite_def cr split: prod.splits)
  ultimately show ?thesis using \<open>\<not> rw_cr c\<close> by (auto simp: ws rd mux_conn_CloseWrite_def)
qed

end
