(* ===== verification/Server.thy ===== *)
theory Server
  imports Proto
begin

text \<open>
  Small parts of the device's server: the session check of \<open>server/auth_interceptor.go\<close>, which stands
  before every call, the snapshot property of \<open>server/snapshot.go\<close>, and from \<open>server/server.go\<close> the
  calls \<open>Version\<close>, \<open>Echo\<close>, \<open>SnapshotShutdown\<close> and the part of \<open>Forward\<close> before the stream is joined with
  its connection. The client's side of \<open>Echo\<close> is \<open>client/client.go\<close>.
\<close>

section \<open>The session check\<close>

text \<open>
  Metadata of a call is a map from a lower-case key to its values. \<open>None\<close>: the context carries no
  metadata.
\<close>

type_synonym metadata = "(string \<times> string list) list"

definition sessionHdr :: string where
  "sessionHdr = ''x-session-id''"

definition authorize :: "string \<Rightarrow> metadata option \<Rightarrow> go_error option" where
  "authorize sessionID ctx =
     (if sessionID \<noteq> [] then
        (case ctx of
           None \<Rightarrow> Some (StatusErr Unauthenticated ''missing metadata'')
         | Some md \<Rightarrow>
             (case map_of md sessionHdr of
                None \<Rightarrow> Some (StatusErr Unauthenticated ''invalid x-session-id header'')
              | Some hdrSessionID \<Rightarrow>
                  if length hdrSessionID \<noteq> 1 then Some (StatusErr Unauthenticated ''invalid x-session-id header'')
                  else if sessionID \<noteq> hdrSessionID ! 0 then Some (StatusErr Unauthenticated ''bad x-session-id value'')
                  else None))
      else None)"

text \<open>A handler acts on the state of the server.\<close>

definition StreamServerInterceptor ::
    "string \<Rightarrow> metadata option \<Rightarrow> ('s \<Rightarrow> go_error option \<times> 's) \<Rightarrow> 's \<Rightarrow> go_error option \<times> 's"
where
  "StreamServerInterceptor sessionID ctx handler s =
     (case authorize sessionID ctx of Some e \<Rightarrow> (Some e, s) | None \<Rightarrow> handler s)"

definition UnaryServerInterceptor ::
    "string \<Rightarrow> metadata option \<Rightarrow> ('s \<Rightarrow> 'r result \<times> 's) \<Rightarrow> 's \<Rightarrow> 'r result \<times> 's"
where
  "UnaryServerInterceptor sessionID ctx handler s =
     (case authorize sessionID ctx of Some e \<Rightarrow> (Inl e, s) | None \<Rightarrow> handler s)"

lemma authorize_iff:
  "authorize sid ctx = None \<longleftrightarrow> sid = [] \<or> (\<exists>md. ctx = Some md \<and> map_of md sessionHdr = Some [sid])"
  by (auto simp: authorize_def length_Suc_conv split: option.splits)

lemma authorize_err: "authorize sid ctx = Some e \<Longrightarrow> \<exists>t. e = StatusErr Unauthenticated t"
  by (auto simp: authorize_def split: option.splits if_splits)


section \<open>Echo\<close>

text \<open>
  \<open>sendErr k\<close> is the outcome of the \<open>k\<close>-th send. The server returns what it sent and its error.
\<close>

fun server_Echo :: "(nat \<Rightarrow> go_error option) \<Rightarrow> nat \<Rightarrow> Message list \<Rightarrow> go_error \<Rightarrow> Message list \<times> go_error option" where
  "server_Echo sendErr k [] fin = ([], if fin = EOF then None else Some fin)"
| "server_Echo sendErr k (m # ms) fin =
     (case sendErr k of
        Some e \<Rightarrow> ([], Some e)
      | None \<Rightarrow> (case server_Echo sendErr (Suc k) ms fin of (out, e) \<Rightarrow> (m # out, e)))"

text \<open>
  The client's two goroutines: one reads the input in pieces of at most \<open>32 * 1024\<close> bytes and sends
  them, the other collects the payloads that arrive.
\<close>

definition echo_buf :: nat where
  "echo_buf = 32 * 1024"

function pieces :: "nat \<Rightarrow> bytes \<Rightarrow> bytes list" where
  "pieces n b = (if b = [] \<or> n = 0 then [] else take n b # pieces n (drop n b))"
  by auto
termination by (relation "measure (length \<circ> snd)") auto

declare pieces.simps [simp del]

definition echo_sends :: "bytes \<Rightarrow> Message list" where
  "echo_sends r = map (\<lambda>p. \<lparr>m_payload = p\<rparr>) (pieces echo_buf r)"

fun echo_recvs :: "Message list \<Rightarrow> go_error \<Rightarrow> bytes result" where
  "echo_recvs [] fin = (if fin = EOF then Inr [] else Inl fin)"
| "echo_recvs (m # ms) fin = (case echo_recvs ms fin of Inl e \<Rightarrow> Inl e | Inr b \<Rightarrow> Inr (m_payload m @ b))"

text \<open>
  \<open>Echo\<close> of the client against \<open>Echo\<close> of the server. A server that returns an error ends the client's
  stream with it.
\<close>

definition Echo :: "(nat \<Rightarrow> go_error option) \<Rightarrow> bytes \<Rightarrow> bytes result" where
  "Echo sendErr r =
     (case server_Echo sendErr 0 (echo_sends r) EOF of
        (out, e) \<Rightarrow> echo_recvs out (case e of None \<Rightarrow> EOF | Some e \<Rightarrow> e))"

lemma concat_pieces: "0 < n \<Longrightarrow> concat (pieces n b) = b"
  by (induction n b rule: pieces.induct) (subst pieces.simps, auto)

lemma pieces_bounds: "p \<in> set (pieces n b) \<Longrightarrow> p \<noteq> [] \<and> length p \<le> n"
proof (induction n b rule: pieces.induct)
  case (1 n b)
  show ?case using 1(2) 1(1) by (subst (asm) pieces.simps) (auto split: if_splits)
qed

lemma echo_recvs_concat: "echo_recvs ms EOF = Inr (concat (map m_payload ms))"
  by (induction ms) auto

lemma server_Echo_ok: "server_Echo (\<lambda>_. None) k ms EOF = (ms, None)"
  by (induction ms arbitrary: k) auto


section \<open>Version, snapshots, Forward\<close>

definition Version :: string where
  "Version = ''0.0''"

text \<open>Running \<open>getprop\<close> and \<open>setprop\<close> is outside the model: \<open>run\<close> gives output and error.\<close>

definition snapshotProp :: string where
  "snapshotProp = ''persist.devx.snapshot''"

definition SetSnapshotProp :: "(string list \<Rightarrow> string \<times> go_error option) \<Rightarrow> go_error option" where
  "SetSnapshotProp run = snd (run [''setprop'', snapshotProp, ''1''])"

text \<open>
  \<open>SnapshotShutdown\<close>: the property is set, whatever happens; the server stops once its calls have ended, and
  after five seconds at the latest. The result is the error of setting the property and what was started.
\<close>

datatype stop_request = GracefulStop | StopAfterSeconds nat

definition SnapshotShutdown :: "(string list \<Rightarrow> string \<times> go_error option) \<Rightarrow> go_error option \<times> stop_request list" where
  "SnapshotShutdown run = (SetSnapshotProp run, [GracefulStop, StopAfterSeconds 5])"

definition IsSnapshot :: "(string list \<Rightarrow> string \<times> go_error option) \<Rightarrow> bool result" where
  "IsSnapshot run =
     (case run [''getprop'', snapshotProp] of
        (out, Some e) \<Rightarrow> Inl e
      | (out, None) \<Rightarrow> Inr (prefix ''1'' out))"

text \<open>
  \<open>Forward\<close>: the network and the address that are dialled for the first message of the stream.
  \<open>dial\<close> is the network of the device.
\<close>

definition server_Forward ::
    "(string \<Rightarrow> string \<Rightarrow> 'c result) \<Rightarrow> ForwardMessage result \<Rightarrow> 'c result"
where
  "server_Forward dial recv =
     (case recv of
        Inl e \<Rightarrow> Inl e
      | Inr fwd \<Rightarrow>
          (case networkDescription (fm_kind fwd) of
             Inl e \<Rightarrow> Inl e
           | Inr kind \<Rightarrow> dial kind (fm_addr fwd)))"


section \<open>Properties\<close>

text \<open>
  No call without the session identifier. A server that was given a session identifier runs a
  handler exactly when the metadata of the call carries that identifier as the only value of its
  header; any other call returns an authentication error and leaves the state of the server alone. A
  server without an identifier runs every call.
\<close>

theorem interceptor_guards_handlers:
  shows "(if sid = [] \<or> (\<exists>md. ctx = Some md \<and> map_of md sessionHdr = Some [sid])
          then StreamServerInterceptor sid ctx h s = h s \<and> UnaryServerInterceptor sid ctx u s = u s
          else \<exists>t. StreamServerInterceptor sid ctx h s = (Some (StatusErr Unauthenticated t), s) \<and>
                   UnaryServerInterceptor sid ctx u s = (Inl (StatusErr Unauthenticated t), s))"
proof (cases "authorize sid ctx")
  case None
  then show ?thesis using authorize_iff [of sid ctx] by (simp add: StreamServerInterceptor_def UnaryServerInterceptor_def)
next
  case (Some e)
  then show ?thesis using authorize_iff [of sid ctx] authorize_err [OF Some]
    by (auto simp: StreamServerInterceptor_def UnaryServerInterceptor_def)
qed

lemma server_Echo_fails:
  "sendErr (k + i) = Some e \<Longrightarrow> (\<forall>j < i. sendErr (k + j) = None) \<Longrightarrow> i < length ms \<Longrightarrow>
     server_Echo sendErr k ms fin = (take i ms, Some e)"
proof (induction ms arbitrary: k i)
  case (Cons m ms)
  show ?case
  proof (cases i)
    case (Suc j)
    have "sendErr k = None" using Cons.prems(2) by (metis Suc add.right_neutral zero_less_Suc)
    moreover have "\<forall>x < j. sendErr (Suc k + x) = None"
      using Cons.prems(2) Suc by (metis Suc_less_eq add_Suc_shift)
    ultimately show ?thesis using Cons.IH [of "Suc k" j] Cons.prems(1,3) Suc by simp
  qed (use Cons.prems in simp)
qed simp

lemma echo_recvs_err: "e \<noteq> EOF \<Longrightarrow> echo_recvs ms e = Inl e"
  by (induction ms) auto

text \<open>
  Echo. Without a failing send the client gets back exactly the bytes it sent, for an input of any
  length, in messages that are not empty and fit its buffer; with a failing send it gets the error of
  the first one that failed.
\<close>

theorem Echo_returns_input:
  shows "Echo (\<lambda>_. None) r = Inr r \<and>
         (\<forall>m \<in> set (echo_sends r). m_payload m \<noteq> [] \<and> length (m_payload m) \<le> 32768) \<and>
         (\<forall>e i. e \<noteq> EOF \<longrightarrow> i < length (echo_sends r) \<longrightarrow> sendErr i = Some e \<longrightarrow> (\<forall>j < i. sendErr j = None) \<longrightarrow>
            Echo sendErr r = Inl e)"
proof (intro conjI ballI allI impI)
  show "Echo (\<lambda>_. None) r = Inr r"
    by (simp add: Echo_def server_Echo_ok echo_recvs_concat echo_sends_def comp_def concat_pieces echo_buf_def)
  show "m_payload m \<noteq> []" "length (m_payload m) \<le> 32768" if "m \<in> set (echo_sends r)" for m
    using that pieces_bounds [of _ echo_buf r] by (auto simp: echo_sends_def echo_buf_def)
  show "Echo sendErr r = Inl e"
    if "e \<noteq> EOF" "i < length (echo_sends r)" "sendErr i = Some e" "\<forall>j < i. sendErr j = None" for e i
    using that server_Echo_fails [of sendErr 0 i e "echo_sends r" EOF] by (simp add: Echo_def echo_recvs_err)
qed

lemma echo_sends_one: "r \<noteq> [] \<Longrightarrow> length r \<le> 32768 \<Longrightarrow> echo_sends r = [\<lparr>m_payload = r\<rparr>]"
  by (simp add: echo_sends_def echo_buf_def pieces.simps)

theorem Echo_returns_input_witness:
  "Echo (\<lambda>_. None) [1, 2, 3] = Inr [1, 2, 3] \<and> Echo (\<lambda>_. Some ErrClosed) [1, 2, 3] = Inl ErrClosed"
  using Echo_returns_input [of "[1, 2, 3]" "\<lambda>_. Some ErrClosed"] by (auto simp: echo_sends_one)

end
