(* ===== verification/HostTools.thy ===== *)
theory HostTools
  imports Server
begin

text \<open>
  The host's tools around the system: \<open>adb/adb.go\<close>, which runs the platform's adb and reads its output;
  \<open>bootstrap/bootstrap.go\<close>, which brings a server and a forwarder up; and \<open>forkfd/forkfd.go\<close>. Running a process is
  outside the model: \<open>adb\<close> gives the combined output and the error for an argument list. The effects of the
  bootstrap are recorded as a history, and every answer may depend on the history before it.
\<close>

section \<open>The adb device\<close>

record Device =
  dv_AdbPath :: string
  dv_DeviceName :: string
  dv_AdbServerPort :: string

type_synonym adb_runner = "string list \<Rightarrow> string \<times> go_error option"

definition deviceArgs :: "Device \<Rightarrow> string list" where
  "deviceArgs a = [''-s'', dv_DeviceName a] @ (if dv_AdbServerPort a \<noteq> [] then [''-P'', dv_AdbServerPort a] else [])"

text \<open>
  \<open>Shell\<close>. The exit status is printed by the command line itself and read from the end of the output; the
  slice from a position that was not found panics.
\<close>

definition parse_shell :: "string list \<Rightarrow> string \<Rightarrow> string outcome" where
  "parse_shell args o1 =
     (case str_last_index o1 ''ret='' of
        None \<Rightarrow> Panic
      | Some i \<Rightarrow>
          let r = drop i o1; o2 = trim_space (take (length o1 - length r) o1)
          in case atoi (trim_space (drop 4 r)) of
               Inl _ \<Rightarrow> Fail (Errorf (''error parsing return code '' @ r))
             | Inr ret \<Rightarrow>
                 if ret \<noteq> 0 then Fail (Errorf (''non-zero return code ['' @ str_join args '' '' @ ''] = '' @ o2))
                 else Return o2)"

definition Shell :: "adb_runner \<Rightarrow> Device \<Rightarrow> string list \<Rightarrow> string outcome" where
  "Shell adb a args =
     (case adb (deviceArgs a @ [''shell'', str_join args '' '' @ ''; echo ret=$?'']) of
        (o1, Some e) \<Rightarrow> Fail e
      | (o1, None) \<Rightarrow> parse_shell args o1)"

definition Device_Install :: "adb_runner \<Rightarrow> Device \<Rightarrow> string \<Rightarrow> string \<times> go_error option" where
  "Device_Install adb a apk = adb (deviceArgs a @ [''install'', ''-r'', ''-g'', apk])"

text \<open>\<open>connected\<close> and \<open>Connect\<close>. The runner is called again after the attempt to connect.\<close>

definition connected :: "adb_runner \<Rightarrow> Device \<Rightarrow> bool result" where
  "connected adb a =
     (case adb (deviceArgs a @ [''devices'']) of
        (ob, Some e) \<Rightarrow> Inl (Errorf (''got error running adb devices: '' @ ob @ '' '' @ error_text e))
      | (out, None) \<Rightarrow>
          Inr (list_ex (\<lambda>l. str_contains l (dv_DeviceName a) \<and> str_contains l ''device'') (split_on (CHR 0x0A) out)))"

definition Connect :: "adb_runner \<Rightarrow> adb_runner \<Rightarrow> Device \<Rightarrow> go_error option" where
  "Connect adb adb' a =
     (case connected adb a of
        Inl e \<Rightarrow> Some e
      | Inr True \<Rightarrow> None
      | Inr False \<Rightarrow>
          (case adb (deviceArgs a @ [''connect'', dv_DeviceName a]) of
             (out, Some e) \<Rightarrow> Some (Errorf (''error connecting to device: '' @ out @ '' '' @ error_text e))
           | (out, None) \<Rightarrow>
               (case connected adb' a of
                  Inl e \<Rightarrow> Some e
                | Inr c \<Rightarrow> if c then None else Some (Errorf (dv_DeviceName a @ '' not connected'')))))"

definition Device_Push :: "adb_runner \<Rightarrow> Device \<Rightarrow> string \<Rightarrow> string \<Rightarrow> go_error option" where
  "Device_Push adb a src dst =
     (case adb (deviceArgs a @ [''push'', src, dst]) of
        (out, Some e) \<Rightarrow> Some (Errorf (''error pushing '' @ src @ '' - '' @ out))
      | (out, None) \<Rightarrow> None)"

definition getprop :: "adb_runner \<Rightarrow> Device \<Rightarrow> string \<Rightarrow> string outcome" where
  "getprop adb a prop = obind (Shell adb a [''getprop'', prop]) (\<lambda>p. Return (trim_space p))"

definition QemuPipeDir :: "adb_runner \<Rightarrow> Device \<Rightarrow> string outcome" where
  "QemuPipeDir adb a = getprop adb a ''qemu.host.socket.dir''"

definition AbiList :: "adb_runner \<Rightarrow> Device \<Rightarrow> string outcome" where
  "AbiList adb a = getprop adb a ''ro.product.cpu.abilist''"

definition ForwardAbstract :: "adb_runner \<Rightarrow> Device \<Rightarrow> string \<Rightarrow> string \<Rightarrow> go_error option" where
  "ForwardAbstract adb a local remote =
     (case adb (deviceArgs a @ [''forward'', ''localabstract:'' @ local, ''localabstract:'' @ remote]) of
        (out, Some e) \<Rightarrow> Some (Errorf (''error forwarding '' @ local @ '' -> '' @ remote @ '' '' @ out))
      | (out, None) \<Rightarrow> None)"


text \<open>\<open>StartCmd\<close>: the error of starting adb is a parameter, the process is not waited for.\<close>

definition StartCmd :: "(string list \<Rightarrow> go_error option) \<Rightarrow> Device \<Rightarrow> string \<Rightarrow> go_error option" where
  "StartCmd spawn a script =
     (case spawn (deviceArgs a @ [''shell'', script]) of
        Some e \<Rightarrow> Some (Errorf (''error running script '' @ script @ '' '' @ error_text e))
      | None \<Rightarrow> None)"


section \<open>Bootstrap\<close>

record Result =
  rs_StartedServer :: bool
  rs_StartedForwarder :: bool

datatype boot_action = Ping | StartForwarder string string | StartServer string string | AdbForward string

record boot_env =
  be_ping :: "boot_action list \<Rightarrow> go_error option"
  be_abis :: "string outcome"
  be_socketExists :: bool
  be_startForwarder :: "boot_action list \<Rightarrow> go_error option"
  be_startServer :: "boot_action list \<Rightarrow> go_error option"
  be_forwardAbstract :: "boot_action list \<Rightarrow> go_error option"

text \<open>\<open>pingServer\<close>, once connected: the server must echo the greeting.\<close>

definition helloMsg :: string where
  "helloMsg = ''hello''"

definition pingServer :: "go_error option \<Rightarrow> bytes result \<Rightarrow> go_error option" where
  "pingServer dialErr echo =
     (case dialErr of
        Some e \<Rightarrow> Some e
      | None \<Rightarrow>
          (case echo of
             Inl e \<Rightarrow> Some e
           | Inr r \<Rightarrow> if r \<noteq> bytes_of helloMsg then Some (Errorf ''unexpected response message'') else None))"

definition ping :: "boot_env \<Rightarrow> boot_action list \<Rightarrow> go_error option \<times> boot_action list" where
  "ping env h = (be_ping env h, h @ [Ping])"

text \<open>\<open>retry\<close> over a function that acts on a history.\<close>

fun retry :: "('h \<Rightarrow> go_error option \<times> 'h) \<Rightarrow> nat \<Rightarrow> go_error option \<Rightarrow> 'h \<Rightarrow> go_error option \<times> 'h" where
  "retry fn 0 err h = (err, h)"
| "retry fn (Suc n) err h = (case fn h of (None, h') \<Rightarrow> (None, h') | (Some e, h') \<Rightarrow> retry fn n (Some e) h')"

text \<open>\<open>waterfallPath\<close>: the paths are a map in which a later entry replaces an earlier one.\<close>

fun arch_paths :: "string list \<Rightarrow> (string \<rightharpoonup> string) \<Rightarrow> (string \<rightharpoonup> string) result" where
  "arch_paths [] m = Inr m"
| "arch_paths (p # ps) m =
     (case split_on CHR '':'' p of
        [abi, path] \<Rightarrow> arch_paths ps (m(abi \<mapsto> path))
      | _ \<Rightarrow> Inl (Errorf (''can't parse server path '' @ p)))"

fun first_path :: "(string \<rightharpoonup> string) \<Rightarrow> string list \<Rightarrow> string option" where
  "first_path m [] = None"
| "first_path m (abi # abis) = (case m abi of Some p \<Rightarrow> Some p | None \<Rightarrow> first_path m abis)"

definition waterfallPath :: "string outcome \<Rightarrow> string list \<Rightarrow> string outcome" where
  "waterfallPath abis paths =
     obind abis (\<lambda>as.
       (case arch_paths paths Map.empty of
             Inl e \<Rightarrow> Fail e
           | Inr m \<Rightarrow>
               (case first_path m (split_on CHR '','' as) of
                  Some p \<Rightarrow> Return p
                | None \<Rightarrow> Fail (Errorf (''no valid server for architectures '' @ as @ '' got ['' @ str_join paths '' '' @ '']'')))))"

text \<open>
  \<open>startWaterfall\<close>: the binary and a script are pushed and the script is started. \<open>tempDir\<close> is the directory that
  \<open>ioutil.TempDir\<close> gives, which is empty when it fails (the error is not looked at), and \<open>write\<close> the file system.
\<close>

definition waterfallBinPath :: string where "waterfallBinPath = ''/data/local/tmp/waterfall''"
definition waterfallScriptPath :: string where "waterfallScriptPath = ''/data/local/tmp/waterfall.sh''"

definition waterfallSh :: "string \<Rightarrow> string \<Rightarrow> string" where
  "waterfallSh bin addr =
     str_join [''#!/system/bin/sh'', ''# start waterfall through adb'', ''# but make sure it does not die if adb dies'',
       ''waterfall_bin='' @ bin, ''addr='' @ addr, ''cd /data/local/tmp'', ''# prefer root if possible'',
       ''su -c nohup \"${waterfall_bin}\" --addr \"${addr}\" || nohup \"${waterfall_bin}\" --addr \"${addr}\"''] [CHR 0x0A]"

definition startWaterfall ::
    "adb_runner \<Rightarrow> (string list \<Rightarrow> go_error option) \<Rightarrow> (string \<Rightarrow> string \<Rightarrow> go_error option) \<Rightarrow> string \<Rightarrow> Device \<Rightarrow> string \<Rightarrow> string \<Rightarrow> go_error option"
where
  "startWaterfall adb spawn write tempDir a wtf addr =
     (case Device_Push adb a wtf waterfallBinPath of
        Some e \<Rightarrow> Some e
      | None \<Rightarrow>
          let name = (if tempDir = [] then ''waterfall.sh'' else tempDir @ ''/waterfall.sh'')
          in case write name (waterfallSh waterfallBinPath addr) of
               Some e \<Rightarrow> Some e
             | None \<Rightarrow>
                 (case Device_Push adb a name waterfallScriptPath of
                    Some e \<Rightarrow> Some e
                  | None \<Rightarrow> StartCmd spawn a waterfallScriptPath))"

definition startForwarder :: "(string list \<Rightarrow> go_error option) \<Rightarrow> string \<Rightarrow> string \<Rightarrow> string \<Rightarrow> go_error option" where
  "startForwarder spawn forwarderBin lisAddr connAddr = spawn [forwarderBin, ''-connect_addr'', connAddr, ''-listen_addr'', lisAddr]"

definition boot_verify :: "boot_env \<Rightarrow> bool \<Rightarrow> bool \<Rightarrow> boot_action list \<Rightarrow> Result outcome \<times> boot_action list" where
  "boot_verify env ss sf h =
     (case retry (ping env) 3 None h of
        (Some e, h') \<Rightarrow> (Fail e, h')
      | (None, h') \<Rightarrow> (Return \<lparr>rs_StartedServer = ss, rs_StartedForwarder = sf\<rparr>, h'))"

definition Bootstrap ::
    "boot_env \<Rightarrow> string \<Rightarrow> string list \<Rightarrow> string \<Rightarrow> string \<Rightarrow> Result outcome \<times> boot_action list"
where
  "Bootstrap env deviceName waterfallBin socketDir socketName =
     (let unixName = ''h2o_'' @ deviceName; lisAddr = ''unix:@'' @ unixName
      in case ping env [] of
           (None, h) \<Rightarrow> (Return \<lparr>rs_StartedServer = False, rs_StartedForwarder = False\<rparr>, h)
         | (Some _, h) \<Rightarrow>
             (case waterfallPath (be_abis env) waterfallBin of
                Fail e \<Rightarrow> (Fail e, h)
              | Panic \<Rightarrow> (Panic, h)
              | Return svr \<Rightarrow>
                  if socketDir \<noteq> [] then
                    let connAddr = ''qemu:'' @ socketDir @ '':'' @ socketName;
                        svrAddr = ''qemu-guest:'' @ socketName;
                        sf = (\<not> be_socketExists env);
                        fwdErr = (if sf then be_startForwarder env h else None);
                        h1 = (if sf then h @ [StartForwarder lisAddr connAddr] else h)
                    in (case fwdErr of
                          Some e \<Rightarrow> (Fail e, h1)
                        | None \<Rightarrow>
                            (case retry (ping env) 3 None h1 of
                               (None, h2) \<Rightarrow> (Return \<lparr>rs_StartedServer = False, rs_StartedForwarder = sf\<rparr>, h2)
                             | (Some _, h2) \<Rightarrow>
                                 (case be_startServer env h2 of
                                    Some e \<Rightarrow> (Fail e, h2 @ [StartServer svr svrAddr])
                                  | None \<Rightarrow> boot_verify env True sf (h2 @ [StartServer svr svrAddr]))))
                  else
                    (case be_forwardAbstract env h of
                       Some e \<Rightarrow> (Fail (Errorf (''error forwarding through adb: '' @ error_text e)), h @ [AdbForward unixName])
                     | None \<Rightarrow>
                         (case ping env (h @ [AdbForward unixName]) of
                            (None, h1) \<Rightarrow> boot_verify env False False h1
                          | (Some _, h1) \<Rightarrow>
                              (case be_startServer env h1 of
                                 Some e \<Rightarrow> (Fail e, h1 @ [StartServer svr lisAddr])
                               | None \<Rightarrow> boot_verify env True False (h1 @ [StartServer svr lisAddr]))))))"


section \<open>Passing a connection to a child\<close>

text \<open>\<open>launchAndDupConn\<close>: the errors of the control call, of starting and of waiting for the child.\<close>

definition launchAndDupConn :: "go_error option \<Rightarrow> go_error option \<Rightarrow> go_error option \<Rightarrow> go_error option" where
  "launchAndDupConn err cmdErr waitErr =
     (if err \<noteq> None then err
      else if cmdErr \<noteq> None then err
      else waitErr)"

definition launch_args :: "string \<Rightarrow> string list \<Rightarrow> string list" where
  "launch_args binaryPath passthroughArgs = [binaryPath, ''-addr'', ''mux:fd:'' @ show_nat 3] @ passthroughArgs"


section \<open>Facts\<close>

lemma retry_ping:
  "retry (ping env) n err h = (r, h') \<Longrightarrow>
     \<exists>k \<le> n. h' = h @ replicate k Ping \<and> (k = 0 \<longrightarrow> r = err \<and> n = 0) \<and>
       (r = None \<longrightarrow> k > 0 \<longrightarrow> be_ping env (h @ replicate (k - 1) Ping) = None)"
proof (induction n arbitrary: err h)
  case (Suc n)
  show ?case
  proof (cases "be_ping env h")
    case None
    then show ?thesis using Suc.prems by (intro exI [of _ 1]) (simp add: ping_def [of env h])
  next
    case (Some e)
    then have "retry (ping env) n (Some e) (h @ [Ping]) = (r, h')" using Suc.prems by (simp add: ping_def [of env h])
    from Suc.IH [OF this] obtain k where k: "k \<le> n" "h' = (h @ [Ping]) @ replicate k Ping" "k = 0 \<longrightarrow> r = Some e \<and> n = 0"
      "r = None \<longrightarrow> k > 0 \<longrightarrow> be_ping env ((h @ [Ping]) @ replicate (k - 1) Ping) = None" by blast
    show ?thesis
    proof (intro exI [of _ "Suc k"] conjI impI)
      assume "r = None"
      then obtain j where "k = Suc j" using k(3) by (cases k) auto
      then show "be_ping env (h @ replicate (Suc k - 1) Ping) = None" using k(4) \<open>r = None\<close> by simp
    qed (use k in auto)
  qed
qed simp

text \<open>A history that ends with a successful ping.\<close>

definition answered :: "boot_env \<Rightarrow> boot_action list \<Rightarrow> bool" where
  "answered env h \<longleftrightarrow> (\<exists>h0. h = h0 @ [Ping] \<and> be_ping env h0 = None)"

lemma retry_answered:
  assumes "retry (ping env) (Suc n) err h = (None, h')"
  shows "answered env h' \<and> (\<exists>k \<le> Suc n. h' = h @ replicate k Ping)"
proof -
  obtain k where k: "k \<le> Suc n" "h' = h @ replicate k Ping" "k > 0" "be_ping env (h @ replicate (k - 1) Ping) = None"
    using retry_ping [OF assms] by auto
  then have "h' = (h @ replicate (k - 1) Ping) @ [Ping]"
    by (cases k) (simp_all add: replicate_append_same)
  then show ?thesis using k by (auto simp: answered_def)
qed

lemma boot_verify_ok:
  assumes "boot_verify env ss sf h = (Return r, h')"
  shows "answered env h' \<and> (\<exists>k \<le> 3. h' = h @ replicate k Ping) \<and> r = \<lparr>rs_StartedServer = ss, rs_StartedForwarder = sf\<rparr>"
  using assms retry_answered [of env 2 None h h'] by (auto simp: boot_verify_def numeral_3_eq_3 numeral_2_eq_2 split: prod.splits option.splits)


text \<open>The two ways of reaching a device that does not answer at once.\<close>

lemma Bootstrap_quick:
  "be_ping env [] = None \<Longrightarrow> Bootstrap env d bins dir name = (Return \<lparr>rs_StartedServer = False, rs_StartedForwarder = False\<rparr>, [Ping])"
  by (simp add: Bootstrap_def ping_def Let_def)

lemma Bootstrap_path:
  assumes "Bootstrap env d bins dir name = (Return r, h)" and "be_ping env [] = Some e"
  shows "\<exists>svr. waterfallPath (be_abis env) bins = Return svr"
  using assms by (cases "waterfallPath (be_abis env) bins") (simp_all add: Bootstrap_def ping_def Let_def)

lemma Bootstrap_adb:
  assumes "be_ping env [] = Some e" and "waterfallPath (be_abis env) bins = Return svr"
  shows "Bootstrap env d bins [] name =
     (let u = ''h2o_'' @ d; h = [Ping, AdbForward u, Ping]; s = [StartServer svr (''unix:@'' @ u)] in
      if be_forwardAbstract env [Ping] \<noteq> None
      then (Fail (Errorf (''error forwarding through adb: '' @ error_text (the (be_forwardAbstract env [Ping])))), [Ping, AdbForward u])
      else if be_ping env [Ping, AdbForward u] = None then boot_verify env False False h
      else if be_startServer env h \<noteq> None then (Fail (the (be_startServer env h)), h @ s)
      else boot_verify env True False (h @ s))"
  using assms
  by (cases "be_forwardAbstract env [Ping]"; cases "be_ping env [Ping, AdbForward (''h2o_'' @ d)]";
      cases "be_startServer env [Ping, AdbForward (''h2o_'' @ d), Ping]") (simp_all add: Bootstrap_def ping_def Let_def)

lemma Bootstrap_pipe:
  assumes "be_ping env [] = Some e" and "waterfallPath (be_abis env) bins = Return svr" and "dir \<noteq> []"
    and "retry (ping env) 3 None (Ping # fs) = (re, h2)"
    and "fs = (if be_socketExists env then [] else [StartForwarder (''unix:@h2o_'' @ d) (''qemu:'' @ dir @ '':'' @ name)])"
    and "s = StartServer svr (''qemu-guest:'' @ name)"
  shows "Bootstrap env d bins dir name =
     (if fs \<noteq> [] \<and> be_startForwarder env [Ping] \<noteq> None then (Fail (the (be_startForwarder env [Ping])), Ping # fs)
      else if re = None then (Return \<lparr>rs_StartedServer = False, rs_StartedForwarder = (fs \<noteq> [])\<rparr>, h2)
      else if be_startServer env h2 \<noteq> None then (Fail (the (be_startServer env h2)), h2 @ [s])
      else boot_verify env True (fs \<noteq> []) (h2 @ [s]))"
proof (cases "be_socketExists env")
  case True
  then show ?thesis using assms
    by (cases re; cases "be_startServer env h2") (simp_all add: Bootstrap_def ping_def [of env "[]"] Let_def)
next
  case False
  then show ?thesis using assms
    by (cases "be_startForwarder env [Ping]"; cases re; cases "be_startServer env h2") (simp_all add: Bootstrap_def ping_def [of env "[]"] Let_def)
qed

text \<open>What a bootstrap may do: the addresses that it gives to the programs it starts.\<close>

lemma boot_verify_actions: "boot_verify env ss sf h = (r, h') \<Longrightarrow> set h' \<subseteq> insert Ping (set h)"
proof -
  assume b: "boot_verify env ss sf h = (r, h')"
  obtain re h2 where t: "retry (ping env) 3 None h = (re, h2)" by fastforce
  have "h' = h2" using b t by (cases re) (simp_all add: boot_verify_def)
  then show ?thesis using retry_ping [OF t] by auto
qed

definition boot_allowed :: "string \<Rightarrow> string \<Rightarrow> string \<Rightarrow> boot_action set" where
  "boot_allowed d dir name =
     {Ping, StartForwarder (''unix:@h2o_'' @ d) (''qemu:'' @ dir @ '':'' @ name), AdbForward (''h2o_'' @ d)} \<union>
     {StartServer svr (if dir \<noteq> [] then ''qemu-guest:'' @ name else ''unix:@h2o_'' @ d) | svr. True}"

lemma boot_allowed_mem [simp]:
  "Ping \<in> boot_allowed d dir name" "AdbForward (''h2o_'' @ d) \<in> boot_allowed d dir name"
  "StartForwarder (''unix:@h2o_'' @ d) (''qemu:'' @ dir @ '':'' @ name) \<in> boot_allowed d dir name"
  "StartServer svr (''unix:@h2o_'' @ d) \<in> boot_allowed d [] name"
  "dir \<noteq> [] \<Longrightarrow> StartServer svr (''qemu-guest:'' @ name) \<in> boot_allowed d dir name"
  by (simp_all add: boot_allowed_def)

lemma Bootstrap_actions:
  assumes "Bootstrap env d bins dir name = (r, h)"
  shows "set h \<subseteq> boot_allowed d dir name"
proof (cases "be_ping env []")
  case None
  then have "h = [Ping]" using assms Bootstrap_quick [of env d bins dir name] by simp
  then show ?thesis by simp
next
  case p: (Some e)
  show ?thesis
  proof (cases "waterfallPath (be_abis env) bins")
    case (Return svr)
    show ?thesis
    proof (cases "dir = []")
      case True
      let ?u = "''h2o_'' @ d" and ?s = "StartServer svr (''unix:@h2o_'' @ d)"
      have m: "set [Ping, AdbForward ?u, Ping, ?s] \<subseteq> boot_allowed d dir name" using boot_allowed_mem True by (simp del: append_Cons)
      have "set h \<subseteq> insert Ping (set [Ping, AdbForward ?u, Ping, ?s])"
        using assms True Bootstrap_adb [OF p Return, of d name] by (auto simp: Let_def split: if_splits dest!: boot_verify_actions)
      then show ?thesis using m by auto
    next
      case False
      let ?fs = "if be_socketExists env then [] else [StartForwarder (''unix:@h2o_'' @ d) (''qemu:'' @ dir @ '':'' @ name)]"
      obtain re h2 where t: "retry (ping env) 3 None (Ping # ?fs) = (re, h2)" by fastforce
      let ?s = "StartServer svr (''qemu-guest:'' @ name)"
      have fs: "set (Ping # ?fs) \<subseteq> boot_allowed d dir name" by (simp del: append_Cons)
      then have h2: "set h2 \<subseteq> boot_allowed d dir name" using retry_ping [OF t] by auto
      have s: "?s \<in> boot_allowed d dir name" using False by (simp del: append_Cons)
      consider "h = Ping # ?fs" | "h = h2" | "h = h2 @ [?s]" | ss sf where "boot_verify env ss sf (h2 @ [?s]) = (r, h)"
        using assms Bootstrap_pipe [OF p Return False t refl refl] by (auto split: if_splits)
      then show ?thesis
      proof cases
        case (4 ss sf)
        then show ?thesis using boot_verify_actions [OF 4] h2 s by (auto simp del: append_Cons)
      qed (use fs h2 s in \<open>auto simp del: append_Cons\<close>)
    qed
  qed (use assms p in \<open>auto simp: Bootstrap_def ping_def Let_def\<close>)
qed

text \<open>The ways in which a bootstrap succeeds.\<close>

lemma Bootstrap_cases:
  assumes b: "Bootstrap env d bins dir name = (Return r, h)"
  obtains (quick) "be_ping env [] = None" "r = \<lparr>rs_StartedServer = False, rs_StartedForwarder = False\<rparr>" "h = [Ping]"
    | (responsive) fs where "fs = [] \<or> (\<exists>a b. fs = [StartForwarder a b])"
        "r = \<lparr>rs_StartedServer = False, rs_StartedForwarder = (fs \<noteq> [])\<rparr>" "retry (ping env) 3 None (Ping # fs) = (None, h)"
    | (started) fs e h2 svr addr where "fs = [] \<or> (\<exists>a b. fs = [StartForwarder a b])"
        "retry (ping env) 3 None (Ping # fs) = (Some e, h2)" "boot_verify env True (fs \<noteq> []) (h2 @ [StartServer svr addr]) = (Return r, h)"
    | (tunnel) ss u where "ss = [] \<or> (\<exists>p a. ss = [StartServer p a])"
        "boot_verify env (ss \<noteq> []) False ([Ping, AdbForward u, Ping] @ ss) = (Return r, h)"
proof (cases "be_ping env []")
  case None
  then show ?thesis using b quick Bootstrap_quick [of env d bins dir name] by simp
next
  case p: (Some e0)
  obtain svr where w: "waterfallPath (be_abis env) bins = Return svr" using Bootstrap_path [OF b p] by blast
  show ?thesis
  proof (cases "dir = []")
    case True
    let ?u = "''h2o_'' @ d"
    show ?thesis
    proof (cases "be_ping env [Ping, AdbForward ?u]")
      case None
      then show ?thesis using b Bootstrap_adb [OF p w, of d name] True
        by (intro tunnel [of "[]" ?u]) (simp_all add: Let_def split: if_splits)
    next
      case (Some e1)
      then show ?thesis using b Bootstrap_adb [OF p w, of d name] True
        by (intro tunnel [of "[StartServer svr (''unix:@'' @ ?u)]" ?u]) (simp_all add: Let_def split: if_splits)
    qed
  next
    case False
    define fs where "fs = (if be_socketExists env then [] else [StartForwarder (''unix:@h2o_'' @ d) (''qemu:'' @ dir @ '':'' @ name)])"
    have fs: "fs = [] \<or> (\<exists>a b. fs = [StartForwarder a b])" by (simp add: fs_def)
    obtain re h2 where rt: "retry (ping env) 3 None (Ping # fs) = (re, h2)" by fastforce
    note eq = Bootstrap_pipe [OF p w False rt fs_def refl]
    show ?thesis
    proof (cases re)
      case None
      then show ?thesis using b eq rt fs by (intro responsive [of fs]) (simp_all split: if_splits)
    next
      case (Some e1)
      then show ?thesis using b eq rt fs
        by (intro started [of fs e1 h2 svr "''qemu-guest:'' @ name"]) (simp_all split: if_splits)
    qed
  qed
qed

lemma count_list_replicate_same [simp]: "count_list (replicate k x) x = k"
  by (induction k) auto


section \<open>Properties\<close>

lemma trim_space_status: "trim_space (show_nat n @ [CHR 0x0A]) = show_nat n"
proof -
  have d: "c \<in> set (show_nat n) \<Longrightarrow> c \<notin> set whitespace" for c
    using show_nat_digits [of n] by (auto simp: list_all_iff whitespace_def is_digit_def)
  have ne: "show_nat n \<noteq> []" using show_nat_digits [of n] by simp
  have f: "dropWhile (\<lambda>c. c \<in> set whitespace) (show_nat n @ x) = show_nat n @ x" for x
    using ne d by (cases "show_nat n") auto
  have "last (show_nat n) \<notin> set whitespace" using ne d by (meson last_in_set)
  then have b: "dropWhile (\<lambda>c. c \<in> set whitespace) (rev (show_nat n)) = rev (show_nat n)"
    unfolding dropWhile_eq_self_iff hd_rev by blast
  have "CHR 0x0A \<in> set whitespace" by (simp add: whitespace_def)
  then show ?thesis using f [of "[CHR 0x0A]"] b by (simp add: trim_space_def trim_cut_def trim_right_def)
qed

lemma status_last: "str_last_index (a @ ''ret='' @ show_nat n @ [CHR 0x0A]) ''ret='' = Some (length a)"
proof (rule str_last_index_append)
  have "CHR ''r'' \<notin> set (show_nat n)" using show_nat_digits [of n] by (auto simp: list_all_iff is_digit_def)
  then have "CHR ''r'' \<notin> set (tl (''ret='' @ show_nat n @ [CHR 0x0A]))" by simp
  then show "\<not> str_contains (tl (''ret='' @ show_nat n @ [CHR 0x0A])) ''ret=''"
    unfolding str_contains_iff by (metis list.set_intros(1) set_mono_sublist subset_code(1))
qed simp

text \<open>
  Reading the exit status. When the device prints anything, followed by the status line that the command
  line adds, \<open>Shell\<close> returns the output without surrounding white space exactly when the status is zero, and an
  error otherwise; an occurrence of \<open>ret=\<close> in the output itself does not confuse it. Output without a status line,
  which adb may produce, makes the call panic.
\<close>

theorem Shell_reads_status:
  assumes "n < 2 ^ 63"
    and "adb (deviceArgs a @ [''shell'', str_join args '' '' @ ''; echo ret=$?'']) = (out @ ''ret='' @ show_nat n @ [CHR 0x0A], None)"
    and "adb' (deviceArgs a @ [''shell'', str_join args '' '' @ ''; echo ret=$?'']) = (out', None)"
    and "\<not> sublist ''ret='' out'"
  shows "Shell adb a args =
           (if n = 0 then Return (trim_space out)
            else Fail (Errorf (''non-zero return code ['' @ str_join args '' '' @ ''] = '' @ trim_space out))) \<and>
         Shell adb' a args = Panic"
proof -
  have none: "str_last_index t sub = None \<longleftrightarrow> \<not> str_contains t sub" for t sub
    by (induction t) (auto simp: str_contains_def split: option.splits if_splits)
  show ?thesis
    using assms status_last [of out n] none [of out' "''ret=''"] trim_space_status [of n] atoi_show_nat [OF assms(1)]
    by (auto simp: Shell_def parse_shell_def Let_def str_contains_iff)
qed

theorem Shell_reads_status_witness:
  "Shell (\<lambda>_. (''x86 ret='' @ show_nat 0 @ [CHR 0x0A], None)) \<lparr>dv_AdbPath = [], dv_DeviceName = ''d'', dv_AdbServerPort = []\<rparr> [''ls''] =
     Return ''x86''"
proof -
  have t: "trim_space ''x86 '' = ''x86''" by code_simp
  have "\<not> sublist ''ret='' ''error: closed''" by code_simp
  then show ?thesis
    using Shell_reads_status [of 0 "\<lambda>_. (''x86 ret='' @ show_nat 0 @ [CHR 0x0A], None)"
        "\<lparr>dv_AdbPath = [], dv_DeviceName = ''d'', dv_AdbServerPort = []\<rparr>" "[''ls'']" "''x86 ''" "\<lambda>_. (''error: closed'', None)" "''error: closed''"]
    by (simp add: t)
qed



lemma arch_paths_ok:
  assumes "\<And>p. p \<in> set ps \<Longrightarrow> \<exists>a x. p = a @ '':'' @ x \<and> CHR '':'' \<notin> set a \<and> CHR '':'' \<notin> set x"
  shows "\<exists>m'. arch_paths ps m = Inr m' \<and>
           (\<forall>abi. m' abi = (case filter (prefix (abi @ '':'')) (rev ps) of [] \<Rightarrow> m abi | p # _ \<Rightarrow> Some (drop (Suc (length abi)) p)))"
  using assms
proof (induction ps arbitrary: m)
  case (Cons p ps)
  obtain a x where p: "p = a @ '':'' @ x" "CHR '':'' \<notin> set a" "CHR '':'' \<notin> set x" using Cons.prems by force
  then have sp: "split_on CHR '':'' p = [a, x]" by (simp add: split_on_two)
  obtain m' where m': "arch_paths ps (m(a \<mapsto> x)) = Inr m'"
    "\<forall>abi. m' abi = (case filter (prefix (abi @ '':'')) (rev ps) of [] \<Rightarrow> (m(a \<mapsto> x)) abi | p # _ \<Rightarrow> Some (drop (Suc (length abi)) p))"
    using Cons.IH [of "m(a \<mapsto> x)"] Cons.prems by (metis list.set_intros(2))
  have key: "prefix (abi @ '':'') p \<longleftrightarrow> abi = a" for abi
    using p by (auto simp: prefix_def append_eq_append_conv2 append_eq_Cons_conv Cons_eq_append_conv)
  have "m' abi = (case filter (prefix (abi @ '':'')) (rev (p # ps)) of [] \<Rightarrow> m abi | p # _ \<Rightarrow> Some (drop (Suc (length abi)) p))" for abi
    using m'(2) [rule_format, of abi] key [of abi]
    by (cases "filter (prefix (abi @ '':'')) (rev ps)") (simp_all add: p(1))
  moreover have "arch_paths (p # ps) m = Inr m'" using m'(1) sp by simp
  ultimately show ?case by blast
qed simp

text \<open>
  Which server is installed. Given paths of the form \<open>abi:path\<close>, the path for the first architecture in the
  device's own order of preference that has one is chosen; the last path given for an architecture counts.
\<close>

theorem waterfallPath_prefers_device_order:
  assumes "\<And>p. p \<in> set paths \<Longrightarrow> \<exists>a x. p = a @ '':'' @ x \<and> CHR '':'' \<notin> set a \<and> CHR '':'' \<notin> set x"
    and "split_on CHR '','' abis = before @ abi # after"
    and "\<forall>b \<in> set before. \<not> (\<exists>p \<in> set paths. prefix (b @ '':'') p)"
    and "filter (prefix (abi @ '':'')) paths = given @ [abi @ '':'' @ path]"
  shows "waterfallPath (Return abis) paths = Return path"
proof -
  obtain m where m: "arch_paths paths Map.empty = Inr m"
    "\<forall>k. m k = (case filter (prefix (k @ '':'')) (rev paths) of [] \<Rightarrow> None | p # _ \<Rightarrow> Some (drop (Suc (length k)) p))"
    using arch_paths_ok [OF assms(1), of paths Map.empty] by auto
  have skip: "first_path m (bs @ rest) = first_path m rest" if "\<forall>b \<in> set bs. m b = None" for bs rest
    using that by (induction bs) auto
  have "\<forall>b \<in> set before. m b = None"
    using assms(3) m(2) by (auto simp: filter_empty_conv split: list.splits)
  moreover have "m abi = Some path"
    using m(2) assms(4) by (simp add: rev_filter [symmetric])
  ultimately show ?thesis using m(1) assms(2) by (simp add: waterfallPath_def skip)
qed

theorem waterfallPath_prefers_device_order_witness:
  "waterfallPath (Return ''x86_64,x86'') [''arm:/a'', ''x86:/b'', ''x86:/c''] = Return ''/c''"
proof (rule waterfallPath_prefers_device_order)
  show "split_on CHR '','' ''x86_64,x86'' = [''x86_64''] @ ''x86'' # []" by code_simp
  show "\<exists>a x. p = a @ '':'' @ x \<and> CHR '':'' \<notin> set a \<and> CHR '':'' \<notin> set x" if "p \<in> set [''arm:/a'', ''x86:/b'', ''x86:/c'']" for p
  proof -
    have "p = ''arm'' @ '':'' @ ''/a'' \<or> p = ''x86'' @ '':'' @ ''/b'' \<or> p = ''x86'' @ '':'' @ ''/c''" using that by auto
    moreover have "CHR '':'' \<notin> set ''arm''" "CHR '':'' \<notin> set ''x86''" "CHR '':'' \<notin> set ''/a''" "CHR '':'' \<notin> set ''/b''" "CHR '':'' \<notin> set ''/c''" by simp_all
    ultimately show ?thesis by blast
  qed
  show "filter (prefix (''x86'' @ '':'')) [''arm:/a'', ''x86:/b'', ''x86:/c''] = [''x86:/b''] @ [''x86'' @ '':'' @ ''/c'']" by simp
qed simp

text \<open>
  A child that cannot be started is reported as success: \<open>launchAndDupConn\<close> returns the error of the control
  call, which is nil, where the error of starting the child was tested.
\<close>

theorem launch_failure_is_lost:
  shows "launchAndDupConn None (Some e) waitErr = None \<and>
         launchAndDupConn (Some e) cmdErr waitErr = Some e \<and> launchAndDupConn None None waitErr = waitErr"
  by (simp add: launchAndDupConn_def)

end
