(* ===== verification/Tar.thy ===== *)
theory Tar
  imports FileSys
begin

text \<open>
  Archives: \<open>stream/tar.go\<close>. \<open>Tar\<close> walks a file tree and writes it as an archive, \<open>Untar\<close> decides from the first
  header and the destination where the archive goes, and unpacks it. An archive is the sequence of its entries,
  as Go's \<open>archive/tar\<close> gives them to its caller, and what comes after the last: the end of the archive or an
  error. An entry whose contents cannot be read to their end carries the error.
\<close>

section \<open>Archives\<close>

datatype typeflag = TypeReg | TypeRegA | TypeDir | TypeSymlink | TypeOther

record tar_header =
  Typeflag :: typeflag
  Name :: string
  Linkname :: string
  Size :: nat

record tar_entry =
  en_hdr :: tar_header
  en_data :: bytes
  en_err :: "go_error option"

record archive =
  ar_entries :: "tar_entry list"
  ar_end :: go_error


section \<open>Unpacking\<close>

text \<open>
  Where the archive goes: the root, the name of the first file and the prefix of names that is replaced.
\<close>

definition untar_target :: "filesys \<Rightarrow> tar_header \<Rightarrow> string \<Rightarrow> (string \<times> string \<times> string) result \<times> filesys" where
  "untar_target fs hdr dst =
     (case Typeflag hdr of
        TypeDir \<Rightarrow>
          (case Stat fs dst of
             Inr FDir \<Rightarrow> (Inr (dst, Join [dst, Name hdr], []), fs)
           | Inr _ \<Rightarrow> (Inl (Errorf (''file '' @ dst @ '' exists and is not a directory'')), fs)
           | Inl e \<Rightarrow> if e = NotExist then (Inr (dst, dst, Name hdr), fs) else (Inl e, fs))
      | TypeOther \<Rightarrow> (Inr (dst, [], []), fs)
      | _ \<Rightarrow>
          (case Stat fs dst of
             Inr FDir \<Rightarrow> (Inr (dst, Join [dst, Name hdr], []), fs)
           | Inr _ \<Rightarrow> (Inr (Dir dst, dst, []), fs)
           | Inl e \<Rightarrow>
               if e = NotExist then
                 (case MkdirAll fs (Dir dst) of
                    (Some e', fs') \<Rightarrow> (Inl e', fs')
                  | (None, fs') \<Rightarrow> (Inr (Dir dst, dst, []), fs'))
               else (Inl e, fs)))"

text \<open>One entry, unpacked to the given name.\<close>

definition untar_entry :: "filesys \<Rightarrow> string \<Rightarrow> tar_entry \<Rightarrow> go_error option \<times> filesys" where
  "untar_entry fs name en =
     (case Typeflag (en_hdr en) of
        TypeDir \<Rightarrow> MkdirAll fs name
      | TypeSymlink \<Rightarrow> Symlink fs (Linkname (en_hdr en)) name
      | TypeOther \<Rightarrow> (None, fs)
      | _ \<Rightarrow>
          (case OpenFile (RemoveAll fs name) name of
             (Inl e, fs') \<Rightarrow> (Some e, fs')
           | (Inr p, fs') \<Rightarrow> (en_err en, put p (FFile (en_data en)) fs')))"

fun untar_loop :: "filesys \<Rightarrow> string \<Rightarrow> string \<Rightarrow> tar_entry list \<Rightarrow> go_error \<Rightarrow> go_error option \<times> filesys" where
  "untar_loop fs root rootReplace [] fin = (if fin = EOF then None else Some fin, fs)"
| "untar_loop fs root rootReplace (en # es) fin =
     (case untar_entry fs (Join [root, trim_prefix (Name (en_hdr en)) rootReplace]) en of
        (Some e, fs') \<Rightarrow> (Some e, fs')
      | (None, fs') \<Rightarrow> untar_loop fs' root rootReplace es fin)"

definition Untar :: "archive \<Rightarrow> string \<Rightarrow> filesys \<Rightarrow> go_error option \<times> filesys" where
  "Untar ar dst fs =
     (case ar_entries ar of
        [] \<Rightarrow> (Some (if ar_end ar = EOF then Errorf ''received empty Tar file'' else ar_end ar), fs)
      | en # es \<Rightarrow>
          (case untar_target fs (en_hdr en) dst of
             (Inl e, fs1) \<Rightarrow> (Some e, fs1)
           | (Inr (root, name, rootReplace), fs1) \<Rightarrow>
               (case untar_entry fs1 name en of
                  (Some e, fs2) \<Rightarrow> (Some e, fs2)
                | (None, fs2) \<Rightarrow> untar_loop fs2 root rootReplace es (ar_end ar))))"

text \<open>\<open>UntarBytes\<close>: the bytes written to the writer, and the error. \<open>wErr\<close>: the outcome of writing them.\<close>

definition UntarBytes :: "archive \<Rightarrow> go_error option \<Rightarrow> bytes \<times> go_error option" where
  "UntarBytes ar wErr =
     (case ar_entries ar of
        [] \<Rightarrow> ([], Some (ar_end ar))
      | en # es \<Rightarrow>
          if Typeflag (en_hdr en) = TypeReg \<or> Typeflag (en_hdr en) = TypeRegA then
            (if wErr \<noteq> None then ([], wErr)
             else if en_err en \<noteq> None then (en_data en, en_err en)
             else (en_data en,
                   if es \<noteq> [] \<or> ar_end ar \<noteq> EOF
                   then Some (Errorf ''too many files received when trying to untar file'') else None))
          else ([], Some (Errorf ''trying to read a directory into writer'')))"


section \<open>Packing\<close>

definition file_header :: "node \<Rightarrow> string \<Rightarrow> string \<Rightarrow> tar_header" where
  "file_header n link name =
     (case n of
        FDir \<Rightarrow> \<lparr>Typeflag = TypeDir, Name = name, Linkname = [], Size = 0\<rparr>
      | FFile d \<Rightarrow> \<lparr>Typeflag = TypeReg, Name = name, Linkname = [], Size = length d\<rparr>
      | FLink _ \<Rightarrow> \<lparr>Typeflag = TypeSymlink, Name = name, Linkname = link, Size = 0\<rparr>)"

definition file_data :: "node \<Rightarrow> bytes" where
  "file_data n = (case n of FFile d \<Rightarrow> d | _ \<Rightarrow> [])"

definition entry :: "node \<Rightarrow> string \<Rightarrow> string \<Rightarrow> tar_entry" where
  "entry n link name = \<lparr>en_hdr = file_header n link name, en_data = file_data n, en_err = None\<rparr>"

text \<open>
  The visitor: the entry for a file, no entry (a link that is skipped), or an error. The error of \<open>Rel\<close> for a link is
  ignored by the code.
\<close>

definition tar_file :: "filesys \<Rightarrow> string \<Rightarrow> string \<times> node \<Rightarrow> tar_entry option result" where
  "tar_file fs src v =
     (case v of (file, FLink l) \<Rightarrow>
          (case EvalSymlinks fs file of
             Inl _ \<Rightarrow> Inr None
           | Inr t \<Rightarrow>
               let sr = (case Rel src file of Inl _ \<Rightarrow> [] | Inr s \<Rightarrow> s);
                   name = Join [Base src, sr]
               in if prefix src t then Inr (Some (entry (FLink l) t name))
                  else (case Stat fs t of
                          Inl e \<Rightarrow> if e = NotExist then Inr None else Inl e
                        | Inr (FFile d) \<Rightarrow> Inr (Some (entry (FFile d) [] name))
                        | Inr _ \<Rightarrow> Inr None))
      | (file, n) \<Rightarrow>
          (case Rel (Dir src) file of Inl e \<Rightarrow> Inl e | Inr rel \<Rightarrow> Inr (Some (entry n [] rel))))"

text \<open>\<open>werr k\<close>: the outcome of writing the \<open>k\<close>-th entry.\<close>

fun tar_loop :: "filesys \<Rightarrow> string \<Rightarrow> (nat \<Rightarrow> go_error option) \<Rightarrow> nat \<Rightarrow> (string \<times> node) list \<Rightarrow> tar_entry list \<times> go_error option" where
  "tar_loop fs src werr k [] = ([], None)"
| "tar_loop fs src werr k (v # vs) =
     (case tar_file fs src v of
        Inl e \<Rightarrow> ([], Some e)
      | Inr None \<Rightarrow> tar_loop fs src werr k vs
      | Inr (Some en) \<Rightarrow>
          (case werr k of
             Some e \<Rightarrow> ([], Some e)
           | None \<Rightarrow> apfst (Cons en) (tar_loop fs src werr (Suc k) vs)))"

text \<open>\<open>Tar\<close>: the archive and the error. The archive is ended properly also when the walk fails.\<close>

definition Tar :: "filesys \<Rightarrow> (nat \<Rightarrow> go_error option) \<Rightarrow> string \<Rightarrow> archive \<times> go_error option" where
  "Tar fs werr src0 =
     (case Stat fs src0 of
        Inl e \<Rightarrow> (\<lparr>ar_entries = [], ar_end = EOF\<rparr>, Some (Errorf (''Unable to tar files - '' @ error_text e)))
      | Inr _ \<Rightarrow>
          let src = trim_right src0 ''/''
          in (case walk fs src of
                Inl e \<Rightarrow> (\<lparr>ar_entries = [], ar_end = EOF\<rparr>, Some e)
              | Inr vs \<Rightarrow> (case tar_loop fs src werr 0 vs of (es, e) \<Rightarrow> (\<lparr>ar_entries = es, ar_end = EOF\<rparr>, e))))"

definition TarBytes :: "bytes \<Rightarrow> archive" where
  "TarBytes b =
     \<lparr>ar_entries = [\<lparr>en_hdr = \<lparr>Typeflag = TypeReg, Name = ''bytefile'', Linkname = [], Size = length b\<rparr>, en_data = b, en_err = None\<rparr>],
      ar_end = EOF\<rparr>"


section \<open>Unpacking a tree\<close>

text \<open>
  Entries in an order in which directories come before what they hold. \<open>ds\<close>: the directories unpacked so far;
  \<open>ss\<close>: everything unpacked so far. Paths are relative to the place where the archive goes.
\<close>

primrec tree_order :: "string list set \<Rightarrow> string list set \<Rightarrow> (string list \<times> node) list \<Rightarrow> bool" where
  "tree_order ds ss [] \<longleftrightarrow> True"
| "tree_order ds ss (v # L) \<longleftrightarrow>
     fst v \<noteq> [] \<and> plains (fst v) \<and> butlast (fst v) \<in> ds \<and> fst v \<notin> ss \<and> (\<forall>t. snd v \<noteq> FLink t) \<and>
     tree_order (if snd v = FDir then insert (fst v) ds else ds) (insert (fst v) ss) L"

text \<open>The state of a file system under the path \<open>T\<close> after unpacking \<open>ds\<close> and \<open>ss\<close>.\<close>

definition unpacked :: "string list \<Rightarrow> string list set \<Rightarrow> string list set \<Rightarrow> filesys \<Rightarrow> bool" where
  "unpacked T ds ss fs \<longleftrightarrow>
     plains T \<and> T \<noteq> [] \<and> dirs_to fs T \<and> ds \<subseteq> ss \<and>
     (\<forall>r \<in> ds. plains r \<and> lookup fs (T @ r) = Some FDir) \<and>
     (\<forall>r \<in> ss. \<forall>q. strict_prefix q r \<longrightarrow> q \<in> ds) \<and>
     (\<forall>r. r \<notin> ss \<longrightarrow> lookup fs (T @ r) = None)"

lemma unpackedD:
  assumes "unpacked T ds ss fs"
  shows "plains T" "T \<noteq> []" "dirs_to fs T" "ds \<subseteq> ss" "r \<in> ds \<Longrightarrow> plains r \<and> lookup fs (T @ r) = Some FDir"
    and "r \<in> ss \<Longrightarrow> strict_prefix q r \<Longrightarrow> q \<in> ds" "r \<notin> ss \<Longrightarrow> lookup fs (T @ r) = None"
  using assms unfolding unpacked_def by blast+

lemma unpacked_dirs: "unpacked T ds ss fs \<Longrightarrow> r \<in> ds \<Longrightarrow> dirs_to fs (T @ r)"
proof -
  assume u: "unpacked T ds ss fs" and r: "r \<in> ds"
  show ?thesis unfolding dirs_to_def
  proof (intro allI impI)
    fix q assume q: "strict_prefix q (T @ r)"
    consider "strict_prefix q T" | q' where "q = T @ q'" "strict_prefix q' r"
    proof (cases "q = T")
      case True
      then show ?thesis using q that(2) [of "[]"] by (simp add: strict_prefix_def)
    next
      case False
      then show ?thesis using q that by (auto simp: strict_prefix_def prefix_append)
    qed
    then show "lookup fs q = Some FDir"
    proof cases
      case 1
      then show ?thesis using unpackedD(3) [OF u] by (simp add: dirs_to_def)
    next
      case 2
      then show ?thesis using unpackedD(4-6) [OF u] r by blast
    qed
  qed
qed

text \<open>A new path in an unpacked directory: it can be made, and nothing is below it.\<close>

lemma unpacked_new:
  assumes u: "unpacked T ds ss fs" and r: "butlast r \<in> ds" "r \<noteq> []" "plains r" "r \<notin> ss"
  shows "direct fs (T @ r)" "lookup fs (T @ r) = None" "\<And>q. prefix (T @ r) q \<Longrightarrow> lookup fs q = None"
proof -
  have e: "T @ r = (T @ butlast r) @ [last r]" using r(2) by simp
  show n: "lookup fs (T @ r) = None" using unpackedD(7) [OF u r(4)] .
  have "dirs_to fs (T @ r)"
    unfolding e dirs_to_snoc using unpacked_dirs [OF u r(1)] unpackedD(5) [OF u r(1)] by simp
  then show "direct fs (T @ r)" using n r(3) unpackedD(1) [OF u] by (simp add: direct_def)
  fix q assume "prefix (T @ r) q"
  then obtain x where q: "q = T @ r @ x" by (auto simp: prefix_def)
  have "r @ x \<notin> ss"
  proof
    assume x: "r @ x \<in> ss"
    then have "x \<noteq> []" using r(4) by auto
    then have "r \<in> ds" using unpackedD(6) [OF u x, of r] by (simp add: strict_prefix_def)
    then show False using unpackedD(4) [OF u] r(4) by blast
  qed
  then show "lookup fs q = None" using unpackedD(7) [OF u] q by simp
qed

text \<open>One entry: the file system changes at that path only.\<close>

lemma untar_entry_new:
  assumes u: "unpacked T ds ss fs" and r: "butlast r \<in> ds" "r \<noteq> []" "plains r" "r \<notin> ss" and n: "\<And>t. n \<noteq> FLink t"
  shows "\<exists>fs'. untar_entry fs (abs_path (T @ r)) (entry n [] name) = (None, fs') \<and>
      (\<forall>q. lookup fs' q = (if q = T @ r then Some n else lookup fs q)) \<and>
      unpacked T (if n = FDir then insert r ds else ds) (insert r ss) fs'"
proof -
  note new = unpacked_new [OF u r]
  have e: "T @ r = (T @ butlast r) @ [last r]" and ne: "T @ r \<noteq> []" using r(2) by simp_all
  have "\<exists>fs'. untar_entry fs (abs_path (T @ r)) (entry n [] name) = (None, fs') \<and>
      (\<forall>q. lookup fs' q = (if q = T @ r then Some n else lookup fs q))"
  proof (cases n)
    case FDir
    then have "untar_entry fs (abs_path (T @ r)) (entry n [] name) = (None, put (T @ r) FDir fs)"
      using MkdirAll_new [of fs "T @ butlast r" "last r"] new(1,2) e by (simp add: untar_entry_def entry_def file_header_def)
    then show ?thesis using FDir ne by (intro exI [of _ "put (T @ r) FDir fs"]) simp
  next
    case (FFile d)
    let ?g = "prune (T @ r) fs"
    have g: "lookup ?g q = lookup fs q" for q using lookup_prune [OF ne] new(3) by simp
    then have d: "direct ?g (T @ r)" using new(1) by (simp add: direct_def dirs_to_def)
    have "untar_entry fs (abs_path (T @ r)) (entry n [] name) = (None, put (T @ r) (FFile d) (put (T @ r) (FFile []) ?g))"
      using RemoveAll_abs [of fs "T @ butlast r" "last r"] OpenFile_abs [of ?g "T @ butlast r" "last r"] new(1,2) d g e FFile
      by (simp add: untar_entry_def entry_def file_header_def file_data_def)
    then show ?thesis using FFile ne g by (intro exI [of _ "put (T @ r) (FFile d) (put (T @ r) (FFile []) ?g)"]) simp
  qed (use n in blast)
  then obtain fs' where f: "untar_entry fs (abs_path (T @ r)) (entry n [] name) = (None, fs')"
    "\<And>q. lookup fs' q = (if q = T @ r then Some n else lookup fs q)" by blast
  have sub: "q \<in> ds" if "strict_prefix q r" for q
  proof -
    have "prefix q (butlast r)" using that r(2) by (metis append_butlast_last_id prefix_order.less_le prefix_snoc)
    then show ?thesis using unpackedD(4,6) [OF u] r(1) by (metis prefix_order.le_less subsetD)
  qed
  have "unpacked T (if n = FDir then insert r ds else ds) (insert r ss) fs'"
    unfolding unpacked_def
  proof (intro conjI ballI allI impI)
    show "dirs_to fs' T" using unpackedD(3) [OF u] f(2) r(2)
      by (auto simp: dirs_to_def strict_prefix_def prefix_def)
    show "(if n = FDir then insert r ds else ds) \<subseteq> insert r ss" using unpackedD(4) [OF u] by auto
    fix x
    show "plains x" "lookup fs' (T @ x) = Some FDir" if "x \<in> (if n = FDir then insert r ds else ds)"
      using that unpackedD(4,5) [OF u] r(3,4) f(2) by (auto split: if_splits)
    show "q \<in> (if n = FDir then insert r ds else ds)" if "x \<in> insert r ss" "strict_prefix q x" for q
      using that unpackedD(6) [OF u] sub by auto
    show "lookup fs' (T @ x) = None" if "x \<notin> insert r ss" using that unpackedD(7) [OF u] f(2) by simp
  qed (use unpackedD(1,2) [OF u] in simp_all)
  then show ?thesis using f by blast
qed


text \<open>All entries, with the names that put them under \<open>T\<close>.\<close>

lemma untar_loop_replays:
  assumes "unpacked T ds ss fs" and "tree_order ds ss L"
    and "\<And>r n. (r, n) \<in> set L \<Longrightarrow> Join [root, trim_prefix (nm r) rr] = abs_path (T @ r)"
  shows "\<exists>fs'. untar_loop fs root rr (map (\<lambda>(r, n). entry n [] (nm r)) L) EOF = (None, fs') \<and>
      (\<forall>q. lookup fs' q = (case map_of (map (\<lambda>(r, n). (T @ r, n)) L) q of Some n \<Rightarrow> Some n | None \<Rightarrow> lookup fs q))"
  using assms
proof (induction L arbitrary: ds ss fs)
  case (Cons v L)
  obtain r n where v: "v = (r, n)" by fastforce
  let ?ds = "if n = FDir then insert r ds else ds"
  have r: "butlast r \<in> ds" "r \<noteq> []" "plains r" "r \<notin> ss" "\<And>t. n \<noteq> FLink t" and L: "tree_order ?ds (insert r ss) L"
    using Cons.prems(2) unfolding v by (simp_all split: if_splits)
  have J: "Join [root, trim_prefix (nm r) rr] = abs_path (T @ r)" using Cons.prems(3) [of r n] v by simp
  obtain fs1 where f1: "untar_entry fs (abs_path (T @ r)) (entry n [] (nm r)) = (None, fs1)"
    "\<And>q. lookup fs1 q = (if q = T @ r then Some n else lookup fs q)" "unpacked T ?ds (insert r ss) fs1"
    using untar_entry_new [OF Cons.prems(1) r, of "nm r"] by blast
  obtain fs' where f': "untar_loop fs1 root rr (map (\<lambda>(r, n). entry n [] (nm r)) L) EOF = (None, fs')"
    "\<And>q. lookup fs' q = (case map_of (map (\<lambda>(r, n). (T @ r, n)) L) q of Some n \<Rightarrow> Some n | None \<Rightarrow> lookup fs1 q)"
    using Cons.IH [OF f1(3) L] Cons.prems(3) by fastforce
  have fresh: "tree_order ds' ss' M \<Longrightarrow> x \<in> ss' \<Longrightarrow> map_of (map (\<lambda>(r, n). (T @ r, n)) M) (T @ x) = None" for ds' ss' M x
    by (induction M arbitrary: ds' ss') (auto split: if_splits)
  have "lookup fs' q = (case map_of (map (\<lambda>(r, n). (T @ r, n)) (v # L)) q of Some n \<Rightarrow> Some n | None \<Rightarrow> lookup fs q)" for q
    using f'(2) [of q] f1(2) [of q] fresh [OF L, of r] v by (auto split: option.splits)
  moreover have "untar_loop fs root rr (map (\<lambda>(r, n). entry n [] (nm r)) (v # L)) EOF = (None, fs')"
    using f1(1) f'(1) J v by (simp add: entry_def file_header_def split: node.splits)
  ultimately show ?case by blast
qed simp


section \<open>The order of a walk\<close>

lemma strict_prefix_less: "strict_prefix (p :: string list) q \<Longrightarrow> p < q"
proof (induction p arbitrary: q)
  case Nil
  then show ?case by (cases q) simp_all
next
  case (Cons a p)
  then show ?case by (cases q) (auto simp: strict_prefix_def)
qed

lemma tree_order_sorted:
  assumes "sorted xs" "distinct xs"
    and "\<And>x. x \<in> set xs \<Longrightarrow> \<exists>r. x = S @ r \<and> r \<noteq> [] \<and> plains r \<and> r \<notin> ss \<and> (\<forall>t. f x \<noteq> FLink t) \<and>
           (butlast r \<in> ds \<or> S @ butlast r \<in> set xs \<and> f (S @ butlast r) = FDir)"
  shows "tree_order ds ss (map (\<lambda>q. (drop (length S) q, f q)) xs)"
  using assms
proof (induction xs arbitrary: ds ss)
  case (Cons x xs)
  obtain r where r: "x = S @ r" "r \<noteq> []" "plains r" "r \<notin> ss" "\<forall>t. f x \<noteq> FLink t"
    "butlast r \<in> ds \<or> S @ butlast r \<in> set (x # xs) \<and> f (S @ butlast r) = FDir"
    using Cons.prems(3) [of x] by auto
  have "x = (S @ butlast r) @ [last r]" using r(1,2) by simp
  then have "strict_prefix (S @ butlast r) x" unfolding strict_prefix_def by (metis append_self_conv list.distinct(1) prefixI)
  then have "S @ butlast r < x" by (rule strict_prefix_less)
  then have "S @ butlast r \<notin> set (x # xs)" using Cons.prems(1) by auto
  then have b: "butlast r \<in> ds" using r(6) by blast
  have "tree_order (if f x = FDir then insert r ds else ds) (insert r ss) (map (\<lambda>q. (drop (length S) q, f q)) xs)"
  proof (rule Cons.IH)
    fix y assume y: "y \<in> set xs"
    then obtain s where s: "y = S @ s" "s \<noteq> []" "plains s" "s \<notin> ss" "\<forall>t. f y \<noteq> FLink t"
      "butlast s \<in> ds \<or> S @ butlast s \<in> set (x # xs) \<and> f (S @ butlast s) = FDir"
      using Cons.prems(3) [of y] by auto
    moreover have "s \<noteq> r" using y s(1) r(1) Cons.prems(2) by auto
    moreover have "butlast s \<in> (if f x = FDir then insert r ds else ds) \<or> S @ butlast s \<in> set xs \<and> f (S @ butlast s) = FDir"
      using s(6) r(1) by auto
    ultimately show "\<exists>r'. y = S @ r' \<and> r' \<noteq> [] \<and> plains r' \<and> r' \<notin> insert r ss \<and> (\<forall>t. f y \<noteq> FLink t) \<and>
        (butlast r' \<in> (if f x = FDir then insert r ds else ds) \<or> S @ butlast r' \<in> set xs \<and> f (S @ butlast r') = FDir)" by blast
  qed (use Cons.prems in auto)
  then show ?case using r b by (auto split: if_splits)
qed simp


section \<open>Packing a tree\<close>

text \<open>A directory that holds files and directories only, and the paths in it.\<close>

definition tree_at :: "filesys \<Rightarrow> string list \<Rightarrow> bool" where
  "tree_at fs S \<longleftrightarrow> wf_fs fs \<and> direct fs S \<and> lookup fs S = Some FDir \<and>
     (\<forall>r n. lookup fs (S @ r) = Some n \<longrightarrow> plains r \<and> (\<forall>t. n \<noteq> FLink t))"

definition members :: "filesys \<Rightarrow> string list \<Rightarrow> (string list \<times> node) list" where
  "members fs S = map (\<lambda>q. (drop (length S) q, the (lookup fs q))) (sort (filter (strict_prefix S) (map fst (fs_nodes fs))))"

lemma in_keys: "q \<noteq> [] \<Longrightarrow> q \<in> set (map fst (fs_nodes fs)) \<longleftrightarrow> lookup fs q \<noteq> None"
  by (auto simp: lookup_def map_of_eq_None_iff)

lemma strict_prefix_split: "strict_prefix S q \<longleftrightarrow> (\<exists>r. r \<noteq> [] \<and> q = S @ r)"
  by (auto simp: strict_prefix_def prefix_def)

lemma members_lookup:
  assumes "wf_fs fs"
  shows "map_of (map (\<lambda>(r, n). (T @ r, n)) (members fs S)) q =
    (if \<exists>r. r \<noteq> [] \<and> q = T @ r then lookup fs (S @ drop (length T) q) else None)"
proof -
  define xs where "xs = sort (filter (strict_prefix S) (map fst (fs_nodes fs)))"
  have x: "y \<in> set xs \<longleftrightarrow> (\<exists>r. r \<noteq> [] \<and> y = S @ r \<and> lookup fs y \<noteq> None)" for y
    unfolding xs_def by (cases "y = []") (auto simp: strict_prefix_split in_keys simp flip: set_map)
  have "map_of (map (\<lambda>y. (T @ drop (length S) y, the (lookup fs y))) ys) q =
      (if \<exists>r. r \<noteq> [] \<and> q = T @ r \<and> S @ r \<in> set ys then lookup fs (S @ drop (length T) q) else None)"
    if "set ys \<subseteq> set xs" for ys
    using that
  proof (induction ys)
    case (Cons y ys)
    then obtain r where r: "r \<noteq> []" "y = S @ r" "lookup fs y \<noteq> None" using x by auto
    then show ?case using Cons by auto
  qed simp
  from this [of xs] show ?thesis
    unfolding members_def xs_def [symmetric] using x by (auto simp: split_def comp_def)
qed

lemma members_order:
  assumes t: "tree_at fs S"
  shows "tree_order {[]} {[]} (members fs S)"
  unfolding members_def
proof (rule tree_order_sorted)
  show "distinct (sort (filter (strict_prefix S) (map fst (fs_nodes fs))))"
    using t by (simp add: tree_at_def wf_fs_def)
  fix x assume "x \<in> set (sort (filter (strict_prefix S) (map fst (fs_nodes fs))))"
  then have "strict_prefix S x" and k: "x \<in> set (map fst (fs_nodes fs))" by simp_all
  then obtain r where r: "r \<noteq> []" "x = S @ r" unfolding strict_prefix_split by blast
  then obtain n where n: "lookup fs (S @ r) = Some n" using in_keys [of x fs] k by auto
  have p: "plains r" "\<forall>t. n \<noteq> FLink t" using t n by (auto simp: tree_at_def)
  have "S @ r = (S @ butlast r) @ [last r]" using r(1) by simp
  then have d: "lookup fs (S @ butlast r) = Some FDir" using t n unfolding tree_at_def wf_fs_def by (metis option.distinct(1))
  have "butlast r \<noteq> [] \<Longrightarrow> S @ butlast r \<in> set (sort (filter (strict_prefix S) (map fst (fs_nodes fs))))"
    using d in_keys [of "S @ butlast r" fs] by (auto simp: strict_prefix_split)
  then show "\<exists>r. x = S @ r \<and> r \<noteq> [] \<and> plains r \<and> r \<notin> {[]} \<and> (\<forall>t. the (lookup fs x) \<noteq> FLink t) \<and>
      (butlast r \<in> {[]} \<or> S @ butlast r \<in> set (sort (filter (strict_prefix S) (map fst (fs_nodes fs)))) \<and>
       the (lookup fs (S @ butlast r)) = FDir)"
    using r n p d by (intro exI [of _ r]) auto
qed simp

lemma members_plain: "tree_at fs S \<Longrightarrow> (r, n) \<in> set (members fs S) \<Longrightarrow> plains r \<and> r \<noteq> [] \<and> (\<forall>t. n \<noteq> FLink t) \<and> lookup fs (S @ r) = Some n"
proof -
  assume t: "tree_at fs S" and m: "(r, n) \<in> set (members fs S)"
  then obtain q where q: "q \<in> set (map fst (fs_nodes fs))" "strict_prefix S q" "r = drop (length S) q" "n = the (lookup fs q)"
    by (auto simp: members_def)
  then have r: "q = S @ r" "r \<noteq> []" by (auto simp: strict_prefix_split)
  then have "lookup fs q \<noteq> None" using q(1) in_keys [of q fs] by blast
  then have "lookup fs (S @ r) = Some n" using q(4) r(1) by auto
  then show ?thesis using t r by (auto simp: tree_at_def)
qed

lemma tar_file_plain:
  assumes "plains (bp @ w # r)" and "\<And>t. n \<noteq> FLink t"
  shows "tar_file fs (abs_path (bp @ [w])) (walk_name (abs_path (bp @ [w])) r, n) = Inr (Some (entry n [] (str_join (w # r) ''/'')))"
proof -
  have w: "walk_name (abs_path (bp @ [w])) r = abs_path (bp @ w # r)"
    using assms(1) Join_abs [of "bp @ [w]" "str_join r ''/''"] by (simp add: walk_name_def)
  have "Rel (Dir (abs_path (bp @ [w]))) (abs_path (bp @ w # r)) = Inr (str_join (w # r) ''/'')"
    using assms(1) Dir_abs [of bp w] Rel_abs [of bp "w # r"] by (simp add: show_path_def)
  then show ?thesis
  proof (cases n)
    case (FLink l)
    then show ?thesis using assms(2) by blast
  qed (simp_all add: tar_file_def w)
qed

lemma tar_loop_plain:
  assumes "\<And>r n. (r, n) \<in> set L \<Longrightarrow> plains (bp @ w # r) \<and> (\<forall>t. n \<noteq> FLink t)"
  shows "tar_loop fs (abs_path (bp @ [w])) (\<lambda>_. None) k (map (\<lambda>(r, n). (walk_name (abs_path (bp @ [w])) r, n)) L) =
    (map (\<lambda>(r, n). entry n [] (str_join (w # r) ''/'')) L, None)"
  using assms
proof (induction L arbitrary: k)
  case (Cons v L)
  obtain r n where v: "v = (r, n)" by fastforce
  have "plains (bp @ w # r)" "\<And>t. n \<noteq> FLink t" using Cons.prems [of r n] v by simp_all
  then have "tar_file fs (abs_path (bp @ [w])) (walk_name (abs_path (bp @ [w])) r, n) = Inr (Some (entry n [] (str_join (w # r) ''/'')))"
    by (rule tar_file_plain)
  then show ?case using Cons.IH [of "Suc k", OF Cons.prems] v by (simp add: apfst_def)
qed simp

lemma Tar_tree:
  assumes t: "tree_at fs (bp @ [w])"
  shows "Tar fs (\<lambda>_. None) (abs_path (bp @ [w])) =
    (\<lparr>ar_entries = map (\<lambda>(r, n). entry n [] (str_join (w # r) ''/'')) (([], FDir) # members fs (bp @ [w])), ar_end = EOF\<rparr>, None)"
proof -
  let ?S = "bp @ [w]" and ?s = "abs_path (bp @ [w])"
  have d: "direct fs ?S" "lookup fs ?S = Some FDir" "plains ?S" using t by (auto simp: tree_at_def direct_def)
  have "walk fs ?s = Inr (map (\<lambda>(r, n). (walk_name ?s r, n)) (([], FDir) # members fs ?S))"
    using d direct_Stat [OF d(1)] direct_resolve [OF d(1)] kcomps_abs [OF d(3)]
    by (simp add: walk_def below_def members_def comp_def)
  moreover have "tar_loop fs ?s (\<lambda>_. None) 0 (map (\<lambda>(r, n). (walk_name ?s r, n)) (([], FDir) # members fs ?S)) =
      (map (\<lambda>(r, n). entry n [] (str_join (w # r) ''/'')) (([], FDir) # members fs ?S), None)"
    using members_plain [OF t] d(3) by (intro tar_loop_plain) auto
  ultimately show ?thesis using d direct_Stat [OF d(1)] trim_slash_abs [OF d(3)] by (simp add: Tar_def Let_def)
qed


section \<open>Properties\<close>

text \<open>Where a directory goes, and what it is called there.\<close>

definition goes_to :: "filesys \<Rightarrow> string list \<Rightarrow> string \<Rightarrow> string list \<Rightarrow> bool" where
  "goes_to gs dp w T \<longleftrightarrow> wf_fs gs \<and> plains dp \<and> dirs_to gs dp \<and> plain w \<and>
     (lookup gs dp = None \<and> T = dp \<or> lookup gs dp = Some FDir \<and> lookup gs (dp @ [w]) = None \<and> T = dp @ [w])"

lemma goes_toD:
  assumes "goes_to gs dp w T"
  shows "direct gs T" "lookup gs T = None" "T \<noteq> []" "direct gs dp"
proof -
  show n: "lookup gs T = None" using assms by (auto simp: goes_to_def)
  then show "T \<noteq> []" by auto
  show "direct gs dp" using assms by (auto simp: goes_to_def direct_def)
  show "direct gs T" using assms n by (auto simp: goes_to_def direct_def dirs_to_snoc)
qed

lemma goes_to_names:
  assumes g: "goes_to gs dp w T" and r: "plains r" "r \<noteq> []"
  shows "Join [abs_path dp, trim_prefix (str_join (w # r) ''/'') (if T = dp then w else [])] = abs_path (T @ r)"
proof -
  have p: "plains dp" "plain w" and T: "T = dp \<or> T = dp @ [w]" using g by (auto simp: goes_to_def)
  have j: "str_join (w # r) ''/'' = w @ CHR ''/'' # str_join r ''/''" using r(2) by (cases r) simp_all
  show ?thesis
  proof (cases "T = dp")
    case True
    then have "trim_prefix (str_join (w # r) ''/'') w = CHR ''/'' # str_join r ''/''" by (simp add: j trim_prefix_def)
    then show ?thesis using True p r Join_abs [of dp "CHR ''/'' # str_join r ''/''"] by simp
  next
    case False
    then show ?thesis using T p r Join_abs [of dp "str_join (w # r) ''/''"] comps_join [of "w # r"] by (simp add: trim_prefix_def)
  qed
qed

lemma untar_first_dir:
  assumes g: "goes_to gs dp w T"
  shows "untar_target gs (file_header FDir [] w) (abs_path dp) = (Inr (abs_path dp, abs_path T, if T = dp then w else []), gs)"
    and "untar_entry gs (abs_path T) (entry FDir [] w) = (None, put T FDir gs)"
    and "unpacked T {[]} {[]} (put T FDir gs)"
proof -
  note d = goes_toD [OF g]
  show "untar_target gs (file_header FDir [] w) (abs_path dp) = (Inr (abs_path dp, abs_path T, if T = dp then w else []), gs)"
    using g direct_Stat [OF d(4)] Join_abs [of dp w] by (auto simp: goes_to_def untar_target_def file_header_def)
  obtain X c where X: "T = X @ [c]" using d(3) by (cases T rule: rev_exhaust) auto
  show "untar_entry gs (abs_path T) (entry FDir [] w) = (None, put T FDir gs)"
    using d X MkdirAll_new [of gs X c] by (simp add: untar_entry_def entry_def file_header_def)
  have "lookup gs (T @ r) = None" for r using wf_fs_nothing_below [of gs T r] g d(2) by (simp add: goes_to_def)
  then show "unpacked T {[]} {[]} (put T FDir gs)"
    using d unfolding unpacked_def by (auto simp: direct_def dirs_to_def strict_prefix_def)
qed

lemma MkdirAll_present:
  assumes "direct fs p" and "lookup fs p = Some FDir"
  shows "MkdirAll fs (abs_path p) = (None, fs)"
proof (cases p rule: rev_exhaust)
  case Nil
  then show ?thesis by (simp add: MkdirAll_def show_path_def)
next
  case (snoc q c)
  then show ?thesis using MkdirAll_new [of fs q c] assms by simp
qed

lemma untar_entry_file:
  assumes "direct gs (p @ [c])"
  shows "\<exists>gs'. untar_entry gs (abs_path (p @ [c])) (entry (FFile d) [] name) = (None, gs') \<and>
    (\<forall>q. lookup gs' q = (if q = p @ [c] then Some (FFile d) else if prefix (p @ [c]) q then None else lookup gs q))"
proof -
  let ?T = "p @ [c]" and ?g = "prune (p @ [c]) gs"
  have g: "lookup ?g q = (if prefix ?T q then None else lookup gs q)" for q using lookup_prune [of ?T] by simp
  have "\<not> prefix ?T q" if "strict_prefix q ?T" for q using that prefix_order.leD by blast
  then have "direct ?g ?T" using assms g by (simp add: direct_def dirs_to_def)
  then have "untar_entry gs (abs_path ?T) (entry (FFile d) [] name) = (None, put ?T (FFile d) (put ?T (FFile []) ?g))"
    using RemoveAll_abs [OF assms] OpenFile_abs [of ?g p c] g by (simp add: untar_entry_def entry_def file_header_def file_data_def)
  then show ?thesis using g by (intro exI [of _ "put ?T (FFile d) (put ?T (FFile []) ?g)"]) simp
qed

lemma Tar_file:
  assumes "direct fs (bp @ [w])" and "lookup fs (bp @ [w]) = Some (FFile d)"
  shows "Tar fs (\<lambda>_. None) (abs_path (bp @ [w])) = (\<lparr>ar_entries = [entry (FFile d) [] w], ar_end = EOF\<rparr>, None)"
proof -
  have p: "plains (bp @ [w])" using assms(1) by (simp add: direct_def)
  have "walk fs (abs_path (bp @ [w])) = Inr (map (\<lambda>(r, n). (walk_name (abs_path (bp @ [w])) r, n)) [([], FFile d)])"
    using assms direct_Stat [OF assms(1)] direct_resolve [OF assms(1)] kcomps_abs [OF p] by (simp add: walk_def below_def)
  then show ?thesis
    using assms direct_Stat [OF assms(1)] trim_slash_abs [OF p] tar_loop_plain [of "[([], FFile d)]" bp w fs 0] p by (simp add: Tar_def Let_def)
qed

text \<open>Where a file goes: the destination itself, unless it is a directory.\<close>

definition file_goes_to :: "filesys \<Rightarrow> string list \<Rightarrow> string \<Rightarrow> string list \<Rightarrow> bool" where
  "file_goes_to gs dp w T \<longleftrightarrow> direct gs dp \<and> plain w \<and> direct gs T \<and>
     (if lookup gs dp = Some FDir then T = dp @ [w] else T = dp)"

lemma untar_file_target:
  assumes "file_goes_to gs dp w T"
  shows "\<exists>root. untar_target gs (file_header (FFile d) [] w) (abs_path dp) = (Inr (root, abs_path T, []), gs)"
proof (cases "lookup gs dp")
  case None
  then obtain p c where dp: "dp = p @ [c]" by (cases dp rule: rev_exhaust) auto
  have d: "direct gs dp" "T = dp" using assms None by (simp_all add: file_goes_to_def)
  then have "direct gs p" "lookup gs p = Some FDir" using dp by (auto simp: direct_def dirs_to_snoc)
  then show ?thesis using None d dp direct_Stat [OF d(1)] Dir_abs [of p c] MkdirAll_present [of gs p]
    by (simp add: untar_target_def file_header_def direct_def)
next
  case (Some n)
  then show ?thesis using assms direct_Stat [of gs dp] Join_abs [of dp w]
    by (cases n) (auto simp: untar_target_def file_header_def file_goes_to_def direct_def)
qed

lemma untar_of_tar:
  assumes t: "tree_at fs (bp @ [w])" and g: "goes_to gs dp w T"
  shows "\<exists>gs'. Untar (fst (Tar fs (\<lambda>_. None) (abs_path (bp @ [w])))) (abs_path dp) gs = (None, gs') \<and>
      snd (Tar fs (\<lambda>_. None) (abs_path (bp @ [w]))) = None \<and>
      (\<forall>r. lookup gs' (T @ r) = lookup fs (bp @ [w] @ r)) \<and> (\<forall>q. \<not> prefix T q \<longrightarrow> lookup gs' q = lookup gs q)"
proof -
  note u = untar_first_dir [OF g]
  have m: "(r, n) \<in> set (members fs (bp @ [w])) \<Longrightarrow> Join [abs_path dp, trim_prefix (str_join (w # r) ''/'') (if T = dp then w else [])] = abs_path (T @ r)" for r n
    using goes_to_names [OF g] members_plain [OF t] by blast
  obtain gs' where gs': "untar_loop (put T FDir gs) (abs_path dp) (if T = dp then w else [])
        (map (\<lambda>(r, n). entry n [] (str_join (w # r) ''/'')) (members fs (bp @ [w]))) EOF = (None, gs')"
      "\<And>q. lookup gs' q = (case map_of (map (\<lambda>(r, n). (T @ r, n)) (members fs (bp @ [w]))) q of
        Some n \<Rightarrow> Some n | None \<Rightarrow> lookup (put T FDir gs) q)"
    using untar_loop_replays [OF u(3) members_order [OF t], of "abs_path dp" "\<lambda>r. str_join (w # r) ''/''" "if T = dp then w else []"] m by blast
  have wf: "wf_fs fs" "lookup fs (bp @ [w]) = Some FDir" "wf_fs gs" using t g by (auto simp: tree_at_def goes_to_def)
  have T: "T \<noteq> []" "lookup gs T = None" using goes_toD [OF g] by auto
  have l: "lookup gs' (T @ r) = lookup fs (bp @ [w] @ r)" for r
  proof (cases "r = []")
    case True
    then show ?thesis using gs'(2) [of T] members_lookup [OF wf(1), of T "bp @ [w]" T] wf(2) T by simp
  next
    case False
    have "lookup gs (T @ r) = None" using wf_fs_nothing_below [OF wf(3) T(2)] .
    then show ?thesis using False gs'(2) [of "T @ r"] members_lookup [OF wf(1), of T "bp @ [w]" "T @ r"] T
      by (simp split: option.splits)
  qed
  have "lookup gs' q = lookup gs q" if "\<not> prefix T q" for q
  proof -
    have "map_of (map (\<lambda>(r, n). (T @ r, n)) (members fs (bp @ [w]))) q = None" "q \<noteq> T"
      using that members_lookup [OF wf(1), of T "bp @ [w]" q] by (auto simp: prefix_def)
    then show ?thesis using gs'(2) [of q] T(1) by simp
  qed
  moreover have "Untar (fst (Tar fs (\<lambda>_. None) (abs_path (bp @ [w])))) (abs_path dp) gs = (None, gs')"
    using u(1,2) gs'(1) by (simp add: Untar_def Tar_tree [OF t]) (simp add: entry_def)
  ultimately show ?thesis using l by (auto simp: Tar_tree [OF t])
qed

text \<open>
  (C24) A tree survives the way through an archive. Packing a directory that holds only files and directories, and
  unpacking the archive at a destination that does not exist, or into a directory that has no entry of that name,
  succeeds; the tree at the new place is the one that was packed, file by file, and nothing else changes.
\<close>

theorem tar_untar_tree:
  assumes t: "tree_at fs (bp @ [w])" and g: "goes_to gs dp w T"
  shows "\<exists>gs'. Untar (fst (Tar fs (\<lambda>_. None) (abs_path (bp @ [w])))) (abs_path dp) gs = (None, gs') \<and>
      snd (Tar fs (\<lambda>_. None) (abs_path (bp @ [w]))) = None \<and>
      (\<forall>r. lookup gs' (T @ r) = lookup fs (bp @ [w] @ r)) \<and> (\<forall>q. \<not> prefix T q \<longrightarrow> lookup gs' q = lookup gs q)"
  using untar_of_tar [OF t g] .

text \<open>Two small file systems for the examples.\<close>

definition home_fs :: filesys where
  "home_fs = \<lparr>fs_nodes = [([''a''], FDir), ([''a'', ''b''], FDir), ([''a'', ''b'', ''x''], FFile [1, 2]), ([''a'', ''b'', ''d''], FDir),
     ([''a'', ''b'', ''d'', ''y''], FFile []), ([''a'', ''l''], FLink ''b'')], fs_cwd = []\<rparr>"

definition device_fs :: filesys where
  "device_fs = \<lparr>fs_nodes = [([''sdcard''], FDir), ([''sdcard'', ''f''], FFile [9])], fs_cwd = []\<rparr>"

lemma fs_lookups:
  "lookup home_fs p = (if p = [] \<or> p = [''a''] \<or> p = [''a'', ''b''] \<or> p = [''a'', ''b'', ''d''] then Some FDir
     else if p = [''a'', ''b'', ''x''] then Some (FFile [1, 2]) else if p = [''a'', ''b'', ''d'', ''y''] then Some (FFile [])
     else if p = [''a'', ''l''] then Some (FLink ''b'') else None)"
  "lookup device_fs p = (if p = [] \<or> p = [''sdcard''] then Some FDir else if p = [''sdcard'', ''f''] then Some (FFile [9]) else None)"
  by (auto simp: lookup_def home_fs_def device_fs_def)

lemma home_tree: "tree_at home_fs ([''a''] @ [''b''])"
proof -
  have "wf_fs home_fs" unfolding wf_fs_def
    by (auto simp: fs_lookups append_eq_Cons_conv split: if_splits) (simp add: home_fs_def)
  moreover have "direct home_fs [''a'', ''b'']"
    by (auto simp: direct_def dirs_to_def plain_def fs_lookups strict_prefix_def prefix_Cons)
  ultimately show ?thesis by (auto simp: tree_at_def fs_lookups plain_def split: if_splits)
qed

lemma device_wf: "wf_fs device_fs" "dirs_to device_fs [''sdcard'', c]"
  by (auto simp: wf_fs_def fs_lookups append_eq_Cons_conv dirs_to_def strict_prefix_def prefix_Cons split: if_splits)
    (simp add: device_fs_def)

theorem tar_untar_tree_witness:
  "\<exists>gs'. Untar (fst (Tar home_fs (\<lambda>_. None) (abs_path [''a'', ''b'']))) (abs_path [''sdcard'', ''new'']) device_fs = (None, gs') \<and>
     lookup gs' [''sdcard'', ''new'', ''x''] = Some (FFile [1, 2]) \<and> lookup gs' [''sdcard'', ''f''] = Some (FFile [9])"
proof -
  have "goes_to device_fs [''sdcard'', ''new''] ''b'' [''sdcard'', ''new'']"
    using device_wf by (simp add: goes_to_def plain_def fs_lookups)
  from tar_untar_tree [OF home_tree this] obtain gs' where
    "Untar (fst (Tar home_fs (\<lambda>_. None) (abs_path [''a'', ''b'']))) (abs_path [''sdcard'', ''new'']) device_fs = (None, gs')"
    "\<forall>r. lookup gs' ([''sdcard'', ''new''] @ r) = lookup home_fs ([''a''] @ [''b''] @ r)"
    "\<forall>q. \<not> prefix [''sdcard'', ''new''] q \<longrightarrow> lookup gs' q = lookup device_fs q" by auto
  moreover from this(2) [rule_format, of "[''x'']"] this(3) [rule_format, of "[''sdcard'', ''f'']"]
  have "lookup gs' [''sdcard'', ''new'', ''x''] = Some (FFile [1, 2])" "lookup gs' [''sdcard'', ''f''] = Some (FFile [9])"
    by (simp_all add: fs_lookups)
  ultimately show ?thesis by blast
qed

lemma untar_one_file:
  assumes g: "file_goes_to gs dp w T"
  shows "\<exists>gs'. Untar \<lparr>ar_entries = [entry (FFile d) [] w], ar_end = EOF\<rparr> (abs_path dp) gs = (None, gs') \<and>
      (\<forall>q. lookup gs' q = (if q = T then Some (FFile d) else if prefix T q then None else lookup gs q))"
proof -
  have "lookup gs [] = Some FDir" by simp
  then have "T \<noteq> []" using g by (auto simp: file_goes_to_def split: if_splits)
  then obtain p c where T: "T = p @ [c]" by (cases T rule: rev_exhaust) auto
  obtain gs' where gs': "untar_entry gs (abs_path T) (entry (FFile d) [] w) = (None, gs')"
    "\<forall>q. lookup gs' q = (if q = T then Some (FFile d) else if prefix T q then None else lookup gs q)"
    using untar_entry_file [of gs p c d w] g T by (auto simp: file_goes_to_def)
  obtain root where "untar_target gs (file_header (FFile d) [] w) (abs_path dp) = (Inr (root, abs_path T, []), gs)"
    using untar_file_target [OF g] by blast
  then have "Untar \<lparr>ar_entries = [entry (FFile d) [] w], ar_end = EOF\<rparr> (abs_path dp) gs = (None, gs')"
    using gs'(1) by (simp add: Untar_def) (simp add: entry_def)
  then show ?thesis using gs'(2) by blast
qed

text \<open>
  A single file goes to the destination, or into it when it is a directory. Whatever was at that place before is
  replaced, a directory with all that it holds included; nothing else changes. The bytes that \<open>TarBytes\<close> packs are
  those that \<open>UntarBytes\<close> writes.
\<close>

theorem tar_untar_file:
  assumes f: "direct fs (bp @ [w])" "lookup fs (bp @ [w]) = Some (FFile d)" and g: "file_goes_to gs dp w T"
  shows "(\<exists>gs'. Untar (fst (Tar fs (\<lambda>_. None) (abs_path (bp @ [w])))) (abs_path dp) gs = (None, gs') \<and>
      (\<forall>q. lookup gs' q = (if q = T then Some (FFile d) else if prefix T q then None else lookup gs q))) \<and>
    UntarBytes (TarBytes b) None = (b, None)"
  using untar_one_file [OF g, of d] by (simp add: Tar_file [OF f] UntarBytes_def TarBytes_def)

theorem tar_untar_file_witness:
  "\<exists>gs'. Untar (fst (Tar home_fs (\<lambda>_. None) (abs_path [''a'', ''b'', ''x'']))) (abs_path [''sdcard'']) device_fs = (None, gs') \<and>
     lookup gs' [''sdcard'', ''x''] = Some (FFile [1, 2])"
proof -
  have 1: "direct home_fs ([''a'', ''b''] @ [''x''])" "lookup home_fs ([''a'', ''b''] @ [''x'']) = Some (FFile [1, 2])"
    by (auto simp: direct_def dirs_to_def plain_def fs_lookups strict_prefix_def prefix_Cons)
  have 2: "file_goes_to device_fs [''sdcard''] ''x'' [''sdcard'', ''x'']"
    using device_wf(2) [of "''x''"] dirs_to_prefix [of device_fs "[''sdcard'']" "[''x'']"]
    by (simp add: file_goes_to_def direct_def plain_def fs_lookups)
  from tar_untar_file [OF 1 2, of "[]"] show ?thesis by auto
qed


text \<open>
  (C39) Names in an archive are not confined to the destination. A file entry whose name starts with \<open>../\<close> is unpacked
  beside the directory that was named as the destination, and replaces whatever has that name there, without an
  error.
\<close>

theorem untar_escapes:
  assumes "direct gs (dp @ [c])" "lookup gs (dp @ [c]) = Some FDir" "plain x" "direct gs (dp @ [x])"
  shows "\<exists>gs'. Untar \<lparr>ar_entries = [entry (FFile d) [] (''../'' @ x)], ar_end = EOF\<rparr> (abs_path (dp @ [c])) gs = (None, gs') \<and>
      lookup gs' (dp @ [x]) = Some (FFile d)"
proof -
  have p: "plains (dp @ [c])" using assms(1) by (simp add: direct_def)
  have "comps (abs_path (dp @ [c]) @ ''/'' @ ''../'' @ x) = (dp @ [c]) @ ''..'' # [x]"
  proof -
    have "comps ''..'' = [''..'']" by (simp add: comps_def)
    then have "comps (''../'' @ x) = ''..'' # [x]" using assms(3) comps_append [of "''..''" x] by simp
    then show ?thesis using p comps_append [of "abs_path (dp @ [c])" "''../'' @ x"] by simp
  qed
  moreover have "squash True [] ((dp @ [c]) @ ''..'' # [x]) = dp @ [x]"
  proof -
    have "plains cs \<Longrightarrow> squash True out (cs @ rest) = squash True (rev cs @ out) rest" for cs out rest
      by (induction cs arbitrary: out) (auto simp: plain_def)
    from this [of "dp @ [c]" "[]" "''..'' # [x]"] show ?thesis using p assms(3) by (auto simp: plain_def)
  qed
  ultimately have J: "Join [abs_path (dp @ [c]), ''../'' @ x] = abs_path (dp @ [x])"
    by (simp add: Join_def Clean_def clean_comps_def rooted_def show_path_def)
  have t: "untar_target gs (file_header (FFile d) [] (''../'' @ x)) (abs_path (dp @ [c])) =
      (Inr (abs_path (dp @ [c]), abs_path (dp @ [x]), []), gs)"
    using J assms(2) direct_Stat [OF assms(1)] by (simp add: untar_target_def file_header_def)
  show ?thesis
    using untar_entry_file [OF assms(4), of d "''../'' @ x"] t by (auto simp: Untar_def entry_def)
qed

theorem untar_escapes_witness:
  "\<exists>gs'. Untar \<lparr>ar_entries = [entry (FFile [1]) [] ''../etc''], ar_end = EOF\<rparr> (abs_path [''sdcard'']) device_fs = (None, gs') \<and>
     lookup gs' [''etc''] = Some (FFile [1])"
proof -
  have "direct device_fs ([] @ [''sdcard''])" "lookup device_fs ([] @ [''sdcard'']) = Some FDir" "plain ''etc''" "direct device_fs ([] @ [''etc''])"
    by (auto simp: direct_def dirs_to_def plain_def fs_lookups strict_prefix_def prefix_Cons)
  from untar_escapes [OF this, of "[1]"] show ?thesis by simp
qed

text \<open>
  Sources that cannot be packed. The root directory loses its name when trailing slashes are removed, so packing it
  always fails; and for a link to a directory elsewhere, which \<open>filepath.Walk\<close> does not follow, packing reports
  success with an archive that has no entry, which unpacking then refuses.
\<close>

theorem tar_sources_lost:
  assumes "dirs_to fs (bp @ [w])" "plains (bp @ [w])" "lookup fs (bp @ [w]) = Some (FLink l)"
    and "EvalSymlinks fs (abs_path (bp @ [w])) = Inr t" "Stat fs t = Inr FDir" "\<not> prefix (abs_path (bp @ [w])) t"
    and "Stat fs (abs_path (bp @ [w])) = Inr FDir"
  shows "snd (Tar fs werr ''/'') = Some NotExist \<and>
    Tar fs werr (abs_path (bp @ [w])) = (\<lparr>ar_entries = [], ar_end = EOF\<rparr>, None) \<and>
    Untar (fst (Tar fs werr (abs_path (bp @ [w])))) dst gs = (Some (Errorf ''received empty Tar file''), gs)"
proof -
  have "Stat fs ''/'' = Inr FDir" by (simp add: Stat_def stat_at_def kcomps_def start_def rooted_def)
  moreover have "trim_right ''/'' ''/'' = []" by (simp add: trim_right_def)
  ultimately have 1: "snd (Tar fs werr ''/'') = Some NotExist" by (simp add: Tar_def walk_def Lstat_def)
  have r: "resolve 40 False fs [] (bp @ [w]) = Inr (bp @ [w])"
  proof -
    have "dirs_to fs bp" "lookup fs bp = Some FDir" "plains bp" using assms(1,2) by (auto simp: dirs_to_snoc)
    have "plains cs \<Longrightarrow> dirs_to fs (cur @ cs @ [w]) \<Longrightarrow> lookup fs (cur @ cs @ [w]) = Some (FLink l) \<Longrightarrow>
        resolve 40 False fs cur (cs @ [w]) = Inr (cur @ cs @ [w])" for cs cur
    proof (induction cs arbitrary: cur)
      case Nil
      then show ?case using assms(2) by (simp add: resolve.simps(2) dirs_to_snoc plain_def)
    next
      case (Cons a cs)
      have "strict_prefix cur (cur @ a # cs @ [w])" "strict_prefix (cur @ [a]) (cur @ a # cs @ [w])" by (simp_all add: strict_prefix_def)
      then have "lookup fs cur = Some FDir" "lookup fs (cur @ [a]) = Some FDir" using Cons.prems(2) unfolding dirs_to_def by auto
      then show ?case using Cons.IH [of "cur @ [a]"] Cons.prems by (simp add: resolve.simps(2) plain_def)
    qed
    from this [of bp "[]"] show ?thesis using assms(1-3) by simp
  qed
  then have "walk fs (abs_path (bp @ [w])) = Inr [(abs_path (bp @ [w]), FLink l)]"
    using assms(2,3) kcomps_abs [OF assms(2)] by (simp add: walk_def Lstat_def stat_at_def below_def walk_name_def)
  then have 2: "Tar fs werr (abs_path (bp @ [w])) = (\<lparr>ar_entries = [], ar_end = EOF\<rparr>, None)"
    using assms(4-7) trim_slash_abs [OF assms(2)] by (simp add: Tar_def tar_file_def Let_def)
  show ?thesis using 1 2 by (simp add: Untar_def)
qed

theorem tar_sources_lost_witness:
  "Tar home_fs (\<lambda>_. None) (abs_path [''a'', ''l'']) = (\<lparr>ar_entries = [], ar_end = EOF\<rparr>, None)"
proof -
  have 1: "dirs_to home_fs ([''a''] @ [''l''])" "plains ([''a''] @ [''l''])" "lookup home_fs ([''a''] @ [''l'']) = Some (FLink ''b'')"
    by (auto simp: dirs_to_def plain_def fs_lookups strict_prefix_def prefix_Cons)
  have 2: "EvalSymlinks home_fs (abs_path ([''a''] @ [''l''])) = Inr ''/a/b''" "Stat home_fs ''/a/b'' = Inr FDir"
    "\<not> prefix (abs_path ([''a''] @ [''l''])) ''/a/b''" "Stat home_fs (abs_path ([''a''] @ [''l''])) = Inr FDir"
    by code_simp+
  show ?thesis using tar_sources_lost [OF 1 2, of "\<lambda>_. None" "[]" home_fs] by simp
qed

text \<open>
  The test whether a link stays inside the tree compares strings: a link in \<open>/a/b\<close> to a file in \<open>/a/bc\<close>, which is
  not part of the tree, is packed as a link, with a target that the archive does not contain, and not as the
  file it points to.
\<close>

lemma sibling_link_is_kept:
  defines "fs \<equiv> \<lparr>fs_nodes = [([''a''], FDir), ([''a'', ''b''], FDir), ([''a'', ''b'', ''l''], FLink ''../bc/f''),
     ([''a'', ''bc''], FDir), ([''a'', ''bc'', ''f''], FFile [7])], fs_cwd = []\<rparr>"
  shows "Tar fs (\<lambda>_. None) ''/a/b'' =
    (\<lparr>ar_entries = [entry FDir [] ''b'', entry (FLink ''../bc/f'') ''/a/bc/f'' ''b/l''], ar_end = EOF\<rparr>, None)"
  unfolding fs_def by code_simp

text \<open>
  A file that is pushed to a new name with a trailing slash is lost: the directory of that name is made, removed
  again, and then the file cannot be created.
\<close>

lemma untar_trailing_slash:
  "Untar (fst (Tar home_fs (\<lambda>_. None) ''/a/b/x'')) ''/sdcard/new/'' device_fs = (Some errIsDir, device_fs)"
  by code_simp

end
