(* ===== verification/FileTransfer.thy ===== *)
theory FileTransfer
  imports Tar RemoteExec Server
begin

text \<open>
  Push and pull: \<open>Push\<close> and \<open>Pull\<close> of \<open>server/server.go\<close> with \<open>Push\<close>, \<open>pushTar\<close>, \<open>PushBytes\<close>, \<open>Pull\<close>, \<open>pullStream\<close> and
  \<open>PullBytes\<close> of \<open>client/client.go\<close>. A file tree is packed on one side, its bytes travel as payloads of \<open>Transfer\<close>
  messages, and are unpacked on the other side.

  The byte format of archives belongs to Go's \<open>archive/tar\<close>: \<open>enc ar\<close> are the bytes its writer produces for the
  archive \<open>ar\<close>, and \<open>dec bs\<close> is the archive its reader finds in \<open>bs\<close> with the number of bytes it has read when it
  reports the end. A pipe joins packing and sending, receiving and unpacking: the pieces in which its reader gets
  the bytes are \<open>chunk\<close>; writing to it fails once the unpacking side has finished and bytes are left. When both
  sides of a pipe fail, the error of unpacking is the one that is kept.
\<close>

section \<open>Pushing\<close>

definition server_Push ::
    "(bytes \<Rightarrow> archive \<times> nat) \<Rightarrow> Transfer list \<Rightarrow> go_error \<Rightarrow> filesys \<Rightarrow> (go_error option \<times> Transfer option) \<times> filesys"
where
  "server_Push dec recvs fin fs =
     (case recvs of
        [] \<Rightarrow> ((Some fin, None), fs)
      | xfer # _ \<Rightarrow>
          let bs = concat (map t_payload recvs)
          in case dec bs of (ar, used) \<Rightarrow>
               (case Untar ar (t_path xfer) fs of
                  (Some e, fs') \<Rightarrow> ((Some e, None), fs')
                | (None, fs') \<Rightarrow>
                    if used < length bs
                    then ((None, Some \<lparr>t_path = [], t_payload = [], t_success = False, t_err = error_text ErrClosedPipe\<rparr>), fs')
                    else if fin \<noteq> EOF then ((Some fin, None), fs')
                    else ((None, Some \<lparr>t_path = [], t_payload = [], t_success = True, t_err = []\<rparr>), fs')))"

text \<open>\<open>pushTar\<close>: the messages for the pieces that were read, and what the answer of the server means.\<close>

definition push_msgs :: "string \<Rightarrow> bytes list \<Rightarrow> Transfer list" where
  "push_msgs dst cs = map (\<lambda>c. \<lparr>t_path = dst, t_payload = c, t_success = False, t_err = []\<rparr>) cs"

definition push_result :: "go_error option \<times> Transfer option \<Rightarrow> go_error option" where
  "push_result r =
     (case r of
        (Some e, _) \<Rightarrow> Some (rpc_status e)
      | (None, Some t) \<Rightarrow> if t_success t then None else Some (Errorf (t_err t))
      | (None, None) \<Rightarrow> Some (rpc_status EOF))"

definition pushTar ::
    "(bytes \<Rightarrow> archive \<times> nat) \<Rightarrow> (bytes \<Rightarrow> bytes list) \<Rightarrow> bytes \<Rightarrow> string \<Rightarrow> filesys \<Rightarrow> go_error option \<times> filesys"
where
  "pushTar dec chunk bs dst gs = (case server_Push dec (push_msgs dst (chunk bs)) EOF gs of (r, gs') \<Rightarrow> (push_result r, gs'))"

text \<open>The bytes of \<open>Tar\<close>: none when the source is missing, for then no archive is begun.\<close>

definition tar_bytes :: "(archive \<Rightarrow> bytes) \<Rightarrow> filesys \<Rightarrow> string \<Rightarrow> bytes" where
  "tar_bytes enc fs src = (case Stat fs src of Inl _ \<Rightarrow> [] | Inr _ \<Rightarrow> enc (fst (Tar fs (\<lambda>_. None) src)))"

definition Push ::
    "(archive \<Rightarrow> bytes) \<Rightarrow> (bytes \<Rightarrow> archive \<times> nat) \<Rightarrow> (bytes \<Rightarrow> bytes list) \<Rightarrow> string \<Rightarrow> string \<Rightarrow> filesys \<Rightarrow> filesys \<Rightarrow>
     go_error option \<times> filesys"
where
  "Push enc dec chunk src dst fs gs =
     (case pushTar dec chunk (tar_bytes enc fs src) dst gs of
        (e, gs') \<Rightarrow> (first_err [snd (Tar fs (\<lambda>_. None) src), e], gs'))"

definition PushBytes ::
    "(archive \<Rightarrow> bytes) \<Rightarrow> (bytes \<Rightarrow> archive \<times> nat) \<Rightarrow> (bytes \<Rightarrow> bytes list) \<Rightarrow> bytes \<Rightarrow> string \<Rightarrow> filesys \<Rightarrow> go_error option \<times> filesys"
where
  "PushBytes enc dec chunk b dst gs = pushTar dec chunk (enc (TarBytes b)) dst gs"


section \<open>Pulling\<close>

definition WriteBufferSize :: nat where
  "WriteBufferSize = 256 * 1024"

text \<open>\<open>Pull\<close> of the server: the messages it sends and its error; \<open>sendErr k\<close> is the outcome of the \<open>k\<close>-th send.\<close>

fun pull_sends :: "(nat \<Rightarrow> go_error option) \<Rightarrow> nat \<Rightarrow> bytes list \<Rightarrow> Transfer list \<times> go_error option" where
  "pull_sends sendErr k [] = ([], None)"
| "pull_sends sendErr k (p # ps) =
     (case sendErr k of
        Some e \<Rightarrow> ([], Some e)
      | None \<Rightarrow> apfst (Cons \<lparr>t_path = [], t_payload = p, t_success = False, t_err = []\<rparr>) (pull_sends sendErr (Suc k) ps))"

definition server_Pull ::
    "(archive \<Rightarrow> bytes) \<Rightarrow> (nat \<Rightarrow> go_error option) \<Rightarrow> string \<Rightarrow> filesys \<Rightarrow> Transfer list \<times> go_error option"
where
  "server_Pull enc sendErr path fs =
     (if Stat fs path = Inl NotExist then ([], Some NotExist)
      else case pull_sends sendErr 0 (pieces WriteBufferSize (tar_bytes enc fs path)) of
        (ms, e) \<Rightarrow> (ms, first_err [e, snd (Tar fs (\<lambda>_. None) path)]))"

text \<open>\<open>pullStream\<close>: the bytes written to the pipe, and the error with which receiving ended.\<close>

definition pullStream :: "Transfer list \<times> go_error option \<Rightarrow> bytes \<times> go_error option" where
  "pullStream r = (case r of (ms, e) \<Rightarrow> (concat (map t_payload ms), map_option rpc_status e))"

definition Pull ::
    "(archive \<Rightarrow> bytes) \<Rightarrow> (bytes \<Rightarrow> archive \<times> nat) \<Rightarrow> (nat \<Rightarrow> go_error option) \<Rightarrow> string \<Rightarrow> string \<Rightarrow> filesys \<Rightarrow> filesys \<Rightarrow>
     go_error option \<times> filesys"
where
  "Pull enc dec sendErr src dst fs gs =
     (case Stat gs (Dir dst) of
        Inl e \<Rightarrow> (Some e, gs)
      | Inr _ \<Rightarrow>
          (case pullStream (server_Pull enc sendErr src fs) of
             (bs, rerr) \<Rightarrow>
               (case dec bs of
                  (ar, used) \<Rightarrow>
                    (case Untar ar dst gs of
                       (uerr, gs') \<Rightarrow> (first_err [uerr, if used < length bs then Some ErrClosedPipe else None, rerr], gs')))))"

definition PullBytes ::
    "(archive \<Rightarrow> bytes) \<Rightarrow> (bytes \<Rightarrow> archive \<times> nat) \<Rightarrow> (nat \<Rightarrow> go_error option) \<Rightarrow> string \<Rightarrow> filesys \<Rightarrow> bytes \<times> go_error option"
where
  "PullBytes enc dec sendErr src fs =
     (case pullStream (server_Pull enc sendErr src fs) of
        (bs, rerr) \<Rightarrow>
          (case dec bs of
             (ar, used) \<Rightarrow>
               (case UntarBytes ar None of
                  (out, uerr) \<Rightarrow> (out, first_err [uerr, if used < length bs then Some ErrClosedPipe else None, rerr]))))"


section \<open>Facts\<close>

text \<open>What is relied on of \<open>archive/tar\<close>: its reader reads back the archive its writer wrote, to the last byte.\<close>

definition codec_ok :: "(archive \<Rightarrow> bytes) \<Rightarrow> (bytes \<Rightarrow> archive \<times> nat) \<Rightarrow> archive \<Rightarrow> bool" where
  "codec_ok enc dec ar \<longleftrightarrow> enc ar \<noteq> [] \<and> dec (enc ar) = (ar, length (enc ar))"

text \<open>The pieces in which the reader of a pipe gets what was written to it.\<close>

definition chunks_ok :: "(bytes \<Rightarrow> bytes list) \<Rightarrow> bool" where
  "chunks_ok chunk \<longleftrightarrow> (\<forall>b. concat (chunk b) = b \<and> [] \<notin> set (chunk b))"

lemma push_payload: "concat (map t_payload (push_msgs dst cs)) = concat cs"
  by (simp add: push_msgs_def comp_def)

lemma pushTar_eq:
  assumes "chunks_ok chunk" and "bs \<noteq> []"
  shows "pushTar dec chunk bs dst gs =
    (case dec bs of (ar, used) \<Rightarrow>
       (case Untar ar dst gs of
          (Some e, gs') \<Rightarrow> (Some (rpc_status e), gs')
        | (None, gs') \<Rightarrow> (if used < length bs then Some (Errorf (error_text ErrClosedPipe)) else None, gs')))"
proof -
  have c: "concat (chunk bs) = bs" using assms(1) by (simp add: chunks_ok_def)
  then obtain x xs where x: "chunk bs = x # xs" using assms(2) by (cases "chunk bs") auto
  obtain ar used where d: "dec bs = (ar, used)" by fastforce
  obtain u gs' where u: "Untar ar dst gs = (u, gs')" by fastforce
  have p: "concat (map t_payload (push_msgs dst (x # xs))) = bs" using c x by (simp add: push_payload)
  show ?thesis using p d u
    by (cases u) (simp_all add: pushTar_def server_Push_def x push_msgs_def push_result_def Let_def)
qed

lemma pull_sends_ok: "pull_sends (\<lambda>_. None) k ps = (map (\<lambda>p. \<lparr>t_path = [], t_payload = p, t_success = False, t_err = []\<rparr>) ps, None)"
  by (induction ps arbitrary: k) (simp_all add: apfst_def)

lemma pullStream_ok:
  assumes "snd (Tar fs (\<lambda>_. None) src) = None" and "Stat fs src = Inr n"
  shows "pullStream (server_Pull enc (\<lambda>_. None) src fs) = (enc (fst (Tar fs (\<lambda>_. None) src)), None)"
  using assms concat_pieces [of WriteBufferSize "tar_bytes enc fs src"]
  by (simp add: pullStream_def server_Pull_def pull_sends_ok comp_def tar_bytes_def WriteBufferSize_def)

lemma goes_to_parent: "goes_to gs dp w T \<Longrightarrow> \<exists>n. Stat gs (Dir (abs_path dp)) = Inr n"
proof -
  assume g: "goes_to gs dp w T"
  show ?thesis
  proof (cases dp rule: rev_exhaust)
    case Nil
    then have "Dir (abs_path dp) = ''/''" by (simp add: Dir_def show_path_def Clean_def clean_comps_def rooted_def)
    then show ?thesis by (simp add: Stat_def stat_at_def kcomps_def start_def rooted_def)
  next
    case (snoc p c)
    then have "plains (p @ [c])" "dirs_to gs p" "lookup gs p = Some FDir" using g by (auto simp: goes_to_def dirs_to_snoc)
    then show ?thesis using snoc Dir_abs [of p c] direct_Stat [of gs p] by (simp add: direct_def)
  qed
qed


text \<open>For the examples: a codec for one archive, and a pipe that delivers everything at once.\<close>

definition demo_chunk :: "bytes \<Rightarrow> bytes list" where
  "demo_chunk b = (if b = [] then [] else [b])"

lemma demo_ok: "chunks_ok demo_chunk" "codec_ok (\<lambda>_. [1]) (\<lambda>_. (ar, 1)) ar"
  by (simp_all add: chunks_ok_def demo_chunk_def codec_ok_def)

lemma demo_goes_to: "goes_to device_fs [''sdcard'', ''new''] ''b'' [''sdcard'', ''new'']"
  using device_wf by (simp add: goes_to_def plain_def fs_lookups)


section \<open>Properties\<close>



text \<open>
  (C25) Success is not reported by mistake. Whatever the two file systems, the archive format and the pieces of the
  transfer are, if a push or a pull ends without an error, packing had no error, and the receiving side unpacked
  without an error the whole of the archive that was sent.
\<close>

theorem transfer_success_sound:
  assumes "chunks_ok chunk" and "tar_bytes enc fs src \<noteq> []"
    and "dec (tar_bytes enc fs src) = (ar, used)"
  shows "(fst (Push enc dec chunk src dst fs gs) = None \<longleftrightarrow>
            snd (Tar fs (\<lambda>_. None) src) = None \<and> fst (Untar ar dst gs) = None \<and> length (tar_bytes enc fs src) \<le> used) \<and>
         (fst (Pull enc dec (\<lambda>_. None) src dst fs gs) = None \<longleftrightarrow>
            snd (Tar fs (\<lambda>_. None) src) = None \<and> fst (Untar ar dst gs) = None \<and> length (tar_bytes enc fs src) \<le> used \<and>
            (\<exists>n. Stat gs (Dir dst) = Inr n))"
proof -
  obtain u gs' where u: "Untar ar dst gs = (u, gs')" by fastforce
  have st: "Stat fs src \<noteq> Inl NotExist" using assms(2) by (auto simp: tar_bytes_def)
  have "pullStream (server_Pull enc (\<lambda>_. None) src fs) = (tar_bytes enc fs src, map_option rpc_status (snd (Tar fs (\<lambda>_. None) src)))"
    using st concat_pieces [of WriteBufferSize "tar_bytes enc fs src"]
    by (cases "snd (Tar fs (\<lambda>_. None) src)") (simp_all add: pullStream_def server_Pull_def pull_sends_ok comp_def WriteBufferSize_def)
  then have "fst (Pull enc dec (\<lambda>_. None) src dst fs gs) = None \<longleftrightarrow>
      u = None \<and> \<not> used < length (tar_bytes enc fs src) \<and> snd (Tar fs (\<lambda>_. None) src) = None \<and> (\<exists>n. Stat gs (Dir dst) = Inr n)"
    using u assms(3) by (cases u; cases "Stat gs (Dir dst)") (auto simp: Pull_def)
  moreover have "fst (Push enc dec chunk src dst fs gs) = None \<longleftrightarrow>
      u = None \<and> \<not> used < length (tar_bytes enc fs src) \<and> snd (Tar fs (\<lambda>_. None) src) = None"
    using pushTar_eq [OF assms(1,2), of dec dst gs] u assms(3) by (cases u) (auto simp: Push_def)
  ultimately show ?thesis using u by auto
qed

theorem transfer_success_sound_witness:
  "fst (Push (\<lambda>_. [1, 2]) (\<lambda>_. (TarBytes [7], 1)) demo_chunk ''/a/b/x'' ''/sdcard/g'' home_fs device_fs) \<noteq> None"
proof -
  have "Stat home_fs ''/a/b/x'' = Inr (FFile [1, 2])" by code_simp
  then have "tar_bytes (\<lambda>_. [1, 2]) home_fs ''/a/b/x'' = [1, 2]" by (simp add: tar_bytes_def)
  then show ?thesis
    using transfer_success_sound [OF demo_ok(1), of "\<lambda>_. [1, 2]" home_fs "''/a/b/x''" "\<lambda>_. (TarBytes [7], 1)" "TarBytes [7]" 1 "''/sdcard/g''" device_fs]
    by simp
qed

text \<open>
  Bytes as files. \<open>PushBytes\<close> makes a file with the given bytes at the destination, or in it when it is a directory,
  and \<open>PullBytes\<close> returns the contents of a file.
\<close>

theorem bytes_transfer:
  assumes c: "chunks_ok chunk" and k: "codec_ok enc dec (TarBytes b)" "codec_ok enc dec (fst (Tar fs (\<lambda>_. None) (abs_path (bp @ [w]))))"
    and g: "file_goes_to gs dp ''bytefile'' T"
    and f: "direct fs (bp @ [w])" "lookup fs (bp @ [w]) = Some (FFile d)"
  shows "(\<exists>gs'. PushBytes enc dec chunk b (abs_path dp) gs = (None, gs') \<and> lookup gs' T = Some (FFile b)) \<and>
         PullBytes enc dec (\<lambda>_. None) (abs_path (bp @ [w])) fs = (d, None)"
proof -
  have e: "TarBytes b = \<lparr>ar_entries = [entry (FFile b) [] ''bytefile''], ar_end = EOF\<rparr>"
    by (simp add: TarBytes_def entry_def file_header_def file_data_def)
  obtain gs' where gs': "Untar (TarBytes b) (abs_path dp) gs = (None, gs')" "lookup gs' T = Some (FFile b)"
    using untar_one_file [OF g, of b] by (auto simp: e)
  have "PushBytes enc dec chunk b (abs_path dp) gs = (None, gs')"
    using pushTar_eq [OF c, of "enc (TarBytes b)" dec "abs_path dp" gs] k(1) gs'(1) by (simp add: PushBytes_def codec_ok_def)
  moreover have "Stat fs (abs_path (bp @ [w])) = Inr (FFile d)" using direct_Stat [OF f(1)] f(2) by simp
  then have "PullBytes enc dec (\<lambda>_. None) (abs_path (bp @ [w])) fs = (d, None)"
    using pullStream_ok [of fs "abs_path (bp @ [w])" "FFile d" enc] k(2)
    by (simp add: PullBytes_def codec_ok_def Tar_file [OF f] UntarBytes_def entry_def file_header_def file_data_def)
  ultimately show ?thesis using gs'(2) by blast
qed

theorem bytes_transfer_witness:
  "\<exists>gs'. PushBytes (\<lambda>_. [1]) (\<lambda>_. (TarBytes [1, 2], 1)) demo_chunk [1, 2] (abs_path [''sdcard'']) device_fs = (None, gs') \<and>
     lookup gs' [''sdcard'', ''bytefile''] = Some (FFile [1, 2])"
proof -
  let ?fs = "\<lparr>fs_nodes = [([''bytefile''], FFile [1, 2])], fs_cwd = []\<rparr>"
  have f: "direct ?fs ([] @ [''bytefile''])" "lookup ?fs ([] @ [''bytefile'']) = Some (FFile [1, 2])"
    by (auto simp: direct_def dirs_to_def plain_def lookup_def strict_prefix_def prefix_Cons)
  have t: "fst (Tar ?fs (\<lambda>_. None) (abs_path ([] @ [''bytefile'']))) = TarBytes [1, 2]"
    by (simp only: Tar_file [OF f]) (simp add: TarBytes_def entry_def file_header_def file_data_def)
  have g: "file_goes_to device_fs [''sdcard''] ''bytefile'' [''sdcard'', ''bytefile'']"
    using device_wf(2) [of "''bytefile''"] dirs_to_prefix [of device_fs "[''sdcard'']" "[''bytefile'']"]
    by (simp add: file_goes_to_def direct_def plain_def fs_lookups)
  have k: "codec_ok (\<lambda>_. [1]) (\<lambda>_. (TarBytes [1, 2], 1)) (fst (Tar ?fs (\<lambda>_. None) (abs_path ([] @ [''bytefile'']))))"
    unfolding t by (rule demo_ok(2))
  show ?thesis using bytes_transfer [OF demo_ok(1) demo_ok(2) k g f] by blast
qed

end
