(* ===== verification/Daemons.thy ===== *)
theory Daemons
  imports Addr HostTools FileSys
begin

text \<open>
  The main programs: \<open>server/server_bin.go\<close>, which serves on the device and can fork itself as a daemon,
  \<open>forward/forward_bin.go\<close>, which joins listening addresses with the device, \<open>forward/ports/ports_bin.go\<close>, and
  \<open>bootstrap/bootstrap_bin.go\<close>. A program ends with an error (\<open>log.Fatal\<close>), or reaches its serving loop with what
  it has opened. What the operating system and the libraries answer is the environment.
\<close>

section \<open>The server\<close>

record server_flags =
  sf_addr :: string
  sf_snapshotAddr :: string
  sf_sessionID :: string
  sf_cert :: string
  sf_privateKey :: string
  sf_daemon :: bool

definition default_flags :: server_flags where
  "default_flags = \<lparr>sf_addr = ''qemu-guest:sockets/h2o'', sf_snapshotAddr = ''qemu-guest:sockets/h2o2'',
     sf_sessionID = [], sf_cert = [], sf_privateKey = [], sf_daemon = False\<rparr>"

text \<open>\<open>flag.Parse\<close> on a command line with flags of the server.\<close>

fun parse_flags :: "string list \<Rightarrow> server_flags \<Rightarrow> server_flags option" where
  "parse_flags [] fl = Some fl"
| "parse_flags (a # as) fl =
     (if a = ''-daemon=false'' then parse_flags as (fl\<lparr>sf_daemon := False\<rparr>)
      else case as of
        [] \<Rightarrow> None
      | v # rest \<Rightarrow>
          if a = ''-addr'' then parse_flags rest (fl\<lparr>sf_addr := v\<rparr>)
          else if a = ''-snapshot_addr'' then parse_flags rest (fl\<lparr>sf_snapshotAddr := v\<rparr>)
          else if a = ''-session_id'' then parse_flags rest (fl\<lparr>sf_sessionID := v\<rparr>)
          else if a = ''-cert'' then parse_flags rest (fl\<lparr>sf_cert := v\<rparr>)
          else if a = ''-private_key'' then parse_flags rest (fl\<lparr>sf_privateKey := v\<rparr>)
          else None)"

text \<open>
  What the server listens on. A \<open>mux\<close> address without a nested address would be a nil dereference.
\<close>

datatype server_lis = LisPipe string | LisControl string | LisVsock "32 word" | LisNet string string | LisFD int | LisMux int

definition server_listener :: "ParsedAddr \<Rightarrow> server_lis outcome" where
  "server_listener pa =
     (if pa_Kind pa = QemuGuest then Return (LisPipe (pa_SocketName pa))
      else if pa_Kind pa = QemuCtrl then Return (LisControl (pa_SocketName pa))
      else if pa_Kind pa = VsockGuest then
        (case atoi (pa_SocketName pa) of
           Inl _ \<Rightarrow> Fail (Errorf ''Failed to parse vsock'')
         | Inr p \<Rightarrow> Return (LisVsock (word_of_int p)))
      else if pa_Kind pa = Unix \<or> pa_Kind pa = Tcp then Return (LisNet (pa_Kind pa) (pa_Addr pa))
      else if pa_Kind pa = Fd then Return (LisFD (pa_FD pa))
      else if pa_Kind pa = Mux then (case pa_MuxAddr pa of None \<Rightarrow> Panic | Some m \<Rightarrow> Return (LisMux (pa_FD m)))
      else Fail (Errorf (''Unsupported kind '' @ pa_Kind pa)))"

text \<open>
  \<open>forkInDaemonMode\<close>: the arguments of the child and whether it inherits a listener. \<open>lis\<close>: what listening gave, the
  listener's address with the outcome of taking its file.
\<close>

definition forkInDaemonMode ::
    "(string \<times> go_error option) result \<Rightarrow> ParsedAddr \<Rightarrow> string \<Rightarrow> string \<Rightarrow> string \<Rightarrow> (string list \<times> bool) result"
where
  "forkInDaemonMode lis pa sid cert key =
     (let args = (\<lambda>a. [''-addr'', a, ''-daemon=false'', ''-session_id'', sid, ''-cert'', cert, ''-private_key'', key])
      in if pa_Kind pa = Tcp then
           (case lis of
              Inl e \<Rightarrow> Inl e
            | Inr (_, Some e) \<Rightarrow> Inl e
            | Inr (_, None) \<Rightarrow> Inr (args ''fd:3'', True))
         else Inr (args (pa_Kind pa @ '':'' @ pa_Addr pa), False))"

text \<open>\<open>makeCredentials\<close>, and \<open>configureLogging\<close>: the descriptor to which the log and the error output are redirected.\<close>

definition makeCredentials :: "(string \<Rightarrow> string \<Rightarrow> 'k result) \<Rightarrow> string \<Rightarrow> string \<Rightarrow> 'k result" where
  "makeCredentials load cert privateKey = (case load cert privateKey of Inl e \<Rightarrow> Inl e | Inr crt \<Rightarrow> Inr crt)"

definition configureLogging :: "(string \<Rightarrow> string) \<Rightarrow> int option" where
  "configureLogging getenv =
     (let kmsgFd = getenv ''ANDROID_FILE__dev_kmsg''
      in if kmsgFd \<noteq> [] then (case atoi kmsgFd of Inl _ \<Rightarrow> None | Inr fd \<Rightarrow> Some fd) else None)"

record server_env =
  sv_isSnapshot :: "bool result"
  sv_open :: "server_lis \<Rightarrow> go_error option"
  sv_listen :: "(string \<times> go_error option) result"
  sv_start :: "go_error option"
  sv_keys :: "go_error option"

datatype server_run = ServerDied go_error | ServerCrashed | ServerForked "string list" bool | Serving server_lis bool string

definition server_serve :: "server_env \<Rightarrow> server_flags \<Rightarrow> server_lis \<Rightarrow> server_run" where
  "server_serve env fl l =
     (if sf_cert fl \<noteq> [] \<or> sf_privateKey fl \<noteq> [] then
        if sf_cert fl = [] \<or> sf_privateKey fl = [] then ServerDied (Errorf ''Need to specify -cert and -private_key'')
        else if sv_keys env \<noteq> None then ServerDied (Errorf ''failed to create tls credentials'')
        else Serving l True (sf_sessionID fl)
      else Serving l False (sf_sessionID fl))"

definition server_main :: "server_env \<Rightarrow> server_flags \<Rightarrow> server_run" where
  "server_main env fl =
     (if sf_addr fl = [] then ServerDied (Errorf ''Need to specify -addr.'')
      else case sv_isSnapshot env of
        Inl e \<Rightarrow> ServerDied (Errorf (''Could not determine snapshot status: '' @ error_text e))
      | Inr snap \<Rightarrow>
          (case ParseAddr (if snap then sf_snapshotAddr fl else sf_addr fl) of
             Inl e \<Rightarrow> ServerDied e
           | Inr pa \<Rightarrow>
               if sf_daemon fl then
                 (case forkInDaemonMode (sv_listen env) pa (sf_sessionID fl) (sf_cert fl) (sf_privateKey fl) of
                    Inl e \<Rightarrow> ServerDied (Errorf (''Failed to start waterfall in daemon mode: '' @ error_text e))
                  | Inr (args, inherits) \<Rightarrow>
                      (case sv_start env of
                         Some e \<Rightarrow> ServerDied (Errorf (''Failed to start waterfall in daemon mode: '' @ error_text e))
                       | None \<Rightarrow> ServerForked args inherits))
               else
                 (case server_listener pa of
                    Panic \<Rightarrow> ServerCrashed
                  | Fail e \<Rightarrow> ServerDied e
                  | Return l \<Rightarrow> (case sv_open env l of Some e \<Rightarrow> ServerDied e | None \<Rightarrow> server_serve env fl l))))"


section \<open>The forwarder\<close>

datatype builder = QemuHostBuilder string string | QemuGuestBuilder string | DialBuilder string string
  | VsockBuilder "32 word" "32 word" | MuxBuilder string string

definition forward_builder :: "ParsedAddr \<Rightarrow> builder outcome" where
  "forward_builder cpa =
     (if pa_Kind cpa = QemuHost then Return (QemuHostBuilder (pa_Addr cpa) (pa_SocketName cpa))
      else if pa_Kind cpa = QemuGuest then Return (QemuGuestBuilder (pa_SocketName cpa))
      else if pa_Kind cpa = Unix \<or> pa_Kind cpa = Tcp then Return (DialBuilder (pa_Kind cpa) (pa_Addr cpa))
      else if pa_Kind cpa = VsockHost then
        (case atoi (pa_Addr cpa) of
           Inl _ \<Rightarrow> Fail (Errorf ''Got error parsing vsock addr'')
         | Inr cid \<Rightarrow>
             (case atoi (pa_SocketName cpa) of
                Inl _ \<Rightarrow> Fail (Errorf ''Got error parsing vsock addr'')
              | Inr port \<Rightarrow> Return (VsockBuilder (word_of_int cid) (word_of_int port))))
      else if pa_Kind cpa = Mux then
        (case pa_MuxAddr cpa of None \<Rightarrow> Panic | Some m \<Rightarrow> Return (MuxBuilder (pa_Kind m) (pa_Addr m)))
      else Fail (Errorf (''Unsupported network type: '' @ pa_Kind cpa)))"

fun parse_all :: "string list \<Rightarrow> ParsedAddr list result" where
  "parse_all [] = Inr []"
| "parse_all (a # as) =
     (case ParseAddr a of
        Inl e \<Rightarrow> Inl e
      | Inr p \<Rightarrow> (case parse_all as of Inl e \<Rightarrow> Inl e | Inr ps \<Rightarrow> Inr (p # ps)))"

definition can_listen :: "ParsedAddr \<Rightarrow> bool" where
  "can_listen pa \<longleftrightarrow> pa_Kind pa = QemuHost \<or> pa_Kind pa = Unix \<or> pa_Kind pa = Tcp"

text \<open>The listeners, for the addresses of a kind that the switch names; \<open>listen\<close> is the operating system.\<close>

fun open_listeners :: "(ParsedAddr \<Rightarrow> go_error option) \<Rightarrow> ParsedAddr list \<Rightarrow> ParsedAddr list result" where
  "open_listeners listen [] = Inr []"
| "open_listeners listen (a # as) =
     (if can_listen a then
        (case listen a of
           Some e \<Rightarrow> Inl e
         | None \<Rightarrow> (case open_listeners listen as of Inl e \<Rightarrow> Inl e | Inr ls \<Rightarrow> Inr (a # ls)))
      else open_listeners listen as)"

record forward_env =
  fe_open :: "builder \<Rightarrow> go_error option"
  fe_accept :: "go_error option"
  fe_listen :: "ParsedAddr \<Rightarrow> go_error option"

datatype forward_run = ForwarderDied go_error | ForwarderCrashed | Forwarding builder "ParsedAddr list"

definition forward_main :: "forward_env \<Rightarrow> string \<Rightarrow> string \<Rightarrow> forward_run" where
  "forward_main env listenAddr connectAddr =
     (if listenAddr = [] \<or> connectAddr = [] then ForwarderDied (Errorf ''Need to specify -listen_addr and -connect_addr.'')
      else case parse_all (split_on CHR '','' listenAddr) of
        Inl e \<Rightarrow> ForwarderDied e
      | Inr lisAddrs \<Rightarrow>
          (case ParseAddr connectAddr of
             Inl e \<Rightarrow> ForwarderDied e
           | Inr cpa \<Rightarrow>
               (case forward_builder cpa of
                  Panic \<Rightarrow> ForwarderCrashed
                | Fail e \<Rightarrow> ForwarderDied e
                | Return b \<Rightarrow>
                    (case first_err [fe_open env b, fe_accept env] of
                       Some e \<Rightarrow> ForwarderDied e
                     | None \<Rightarrow>
                         (case open_listeners (fe_listen env) lisAddrs of
                            Inl e \<Rightarrow> ForwarderDied e
                          | Inr ls \<Rightarrow> Forwarding b ls)))))"

text \<open>
  One turn of an accept loop: the connections that are handed to \<open>Forward\<close>, or the error that ends the loop with the
  connections that nobody closes.
\<close>

datatype 'c turn = Joined 'c 'c | LoopEnds go_error "'c list"

definition forward_turn :: "'c result \<Rightarrow> 'c result \<Rightarrow> 'c turn" where
  "forward_turn lisAccept bAccept =
     (case lisAccept of
        Inl e \<Rightarrow> LoopEnds e []
      | Inr cx \<Rightarrow> (case bAccept of Inl e \<Rightarrow> LoopEnds e [cx] | Inr cy \<Rightarrow> Joined cx cy))"


section \<open>The port forwarding daemon and the bootstrap\<close>

definition ports_main :: "(string \<Rightarrow> string \<Rightarrow> go_error option) \<Rightarrow> go_error option \<Rightarrow> string \<Rightarrow> string \<Rightarrow> (string \<times> string) result" where
  "ports_main listen dialErr addr waterfallAddr =
     (if addr = [] \<or> waterfallAddr = [] then Inl (Errorf ''Need to specify -addr and -waterfall_addr.'')
      else case splitN 2 CHR '':'' addr of
        [k, a] \<Rightarrow>
          (case listen k a of
             Some e \<Rightarrow> Inl e
           | None \<Rightarrow> (case dialErr of Some e \<Rightarrow> Inl e | None \<Rightarrow> Inr (k, a)))
      | _ \<Rightarrow> Inl (Errorf (''failed to parse address '' @ addr)))"

record boot_flags =
  bf_socketDir :: string
  bf_qemuSocket :: string
  bf_forwarderBin :: string
  bf_waterfallBin :: string
  bf_adbBin :: string
  bf_adbDeviceName :: string
  bf_adbServerPort :: string

definition boot_main ::
    "adb_runner \<Rightarrow> adb_runner \<Rightarrow> boot_env \<Rightarrow> boot_flags \<Rightarrow> Result outcome"
where
  "boot_main adb adb' env fl =
     (if bf_forwarderBin fl = [] \<or> bf_waterfallBin fl = [] \<or> bf_qemuSocket fl = [] \<or> bf_adbBin fl = [] \<or>
         bf_adbDeviceName fl = [] \<or> bf_adbServerPort fl = []
      then Fail (Errorf ''need to provide -forwarder_bin, -waterfall_bin, -qemu_socket, -adb_bin, -adb_device_name and -adb_server_port when bootstrapping.'')
      else
        let d = \<lparr>dv_AdbPath = bf_adbBin fl, dv_DeviceName = bf_adbDeviceName fl, dv_AdbServerPort = bf_adbServerPort fl\<rparr>
        in case Connect adb adb' d of
             Some e \<Rightarrow> Fail (Errorf (''Error connecting to device '' @ dv_DeviceName d @ '': '' @ error_text e))
           | None \<Rightarrow>
               obind (if bf_socketDir fl \<noteq> [] then Return (bf_socketDir fl)
                      else obind (QemuPipeDir adb' d) (\<lambda>s. Return (if s \<noteq> [] then Dir s else [])))
                 (\<lambda>sts. fst (Bootstrap (env\<lparr>be_abis := AbiList adb' d\<rparr>) (dv_DeviceName d)
                              (split_on CHR '','' (bf_waterfallBin fl)) sts (bf_qemuSocket fl))))"


text \<open>
  \<open>connectToPipe\<close> of the bootstrap: the builder, or its error, and the outcome of its \<open>Accept\<close>, \<open>None\<close> while no server
  connects. The time limit is put on a context that the call of \<open>Accept\<close> does not see, and the error of \<open>Accept\<close> is dropped.
\<close>

definition connectToPipe :: "'b result \<Rightarrow> 'c result option \<Rightarrow> go_error option option" where
  "connectToPipe builder accept =
     (case builder of
        Inl e \<Rightarrow> Some (Some e)
      | Inr qb \<Rightarrow> (case accept of None \<Rightarrow> None | Some (Inl e) \<Rightarrow> Some None | Some (Inr c) \<Rightarrow> Some None))"


section \<open>Facts\<close>

text \<open>The child reads back the flags it was given; the snapshot address is not among them.\<close>

lemma child_flags:
  "parse_flags [''-addr'', a, ''-daemon=false'', ''-session_id'', sid, ''-cert'', c, ''-private_key'', k] default_flags =
     Some \<lparr>sf_addr = a, sf_snapshotAddr = ''qemu-guest:sockets/h2o2'', sf_sessionID = sid, sf_cert = c, sf_privateKey = k, sf_daemon = False\<rparr>"
  by (simp add: default_flags_def)

lemma server_main_fork:
  assumes "server_main env fl = ServerForked args inherits" and "sv_isSnapshot env = Inr False" and "ParseAddr (sf_addr fl) = Inr pa"
  shows "inherits = (pa_Kind pa = Tcp)"
    and "args = [''-addr'', if pa_Kind pa = Tcp then ''fd:3'' else pa_Kind pa @ '':'' @ pa_Addr pa, ''-daemon=false'',
           ''-session_id'', sf_sessionID fl, ''-cert'', sf_cert fl, ''-private_key'', sf_privateKey fl]"
    and "sf_addr fl \<noteq> []"
proof -
  have "\<not> sf_daemon fl \<Longrightarrow> server_main env fl \<noteq> ServerForked args inherits"
    using assms(2,3) by (auto simp: server_main_def server_serve_def split: outcome.splits option.splits)
  then have "sf_daemon fl" using assms(1) by blast
  then show "inherits = (pa_Kind pa = Tcp)"
    "args = [''-addr'', if pa_Kind pa = Tcp then ''fd:3'' else pa_Kind pa @ '':'' @ pa_Addr pa, ''-daemon=false'',
           ''-session_id'', sf_sessionID fl, ''-cert'', sf_cert fl, ''-private_key'', sf_privateKey fl]" "sf_addr fl \<noteq> []"
    using assms by (auto simp: server_main_def forkInDaemonMode_def Let_def split: if_splits sum.splits prod.splits option.splits)
qed

lemma parse_all_append: "parse_all as = Inr ps \<Longrightarrow> length ps = length as \<and> (\<forall>i < length as. ParseAddr (as ! i) = Inr (ps ! i))"
proof (induction as arbitrary: ps)
  case (Cons a as)
  then obtain p qs where p: "ParseAddr a = Inr p" "parse_all as = Inr qs" "ps = p # qs" by (auto split: sum.splits)
  then show ?case using Cons.IH [OF p(2)] by (auto simp: nth_Cons split: nat.splits)
qed simp

lemma open_listeners_ok: "open_listeners listen as = Inr ls \<longleftrightarrow> ls = filter can_listen as \<and> (\<forall>a \<in> set as. can_listen a \<longrightarrow> listen a = None)"
  by (induction as arbitrary: ls) (auto split: option.splits sum.splits)


section \<open>Properties\<close>

text \<open>
  The daemon. A server that forks itself, outside a snapshot, gives the child all flags but the snapshot address. For
  a Unix socket or a qemu pipe the child then does exactly what the server would have done without \<open>-daemon\<close>; for TCP
  it serves the listener it inherits. For a vsock, a file descriptor or a multiplexed address the child is given an
  address without its number or its nested address, and dies, although the parent has reported success.
\<close>

theorem daemon_child:
  assumes f: "server_main env fl = ServerForked args inherits" "sv_isSnapshot env = Inr False" "ParseAddr (sf_addr fl) = Inr pa"
    and c: "parse_flags args default_flags = Some cf" "sv_isSnapshot cenv = Inr False"
  shows "sf_snapshotAddr cf = ''qemu-guest:sockets/h2o2'' \<and>
    (pa_Kind pa \<in> {Unix, QemuGuest, QemuCtrl} \<longrightarrow> \<not> inherits \<and> server_main cenv cf = server_main cenv (fl\<lparr>sf_daemon := False\<rparr>)) \<and>
    (pa_Kind pa = Tcp \<longrightarrow> inherits \<and> (sv_open cenv (LisFD 3) = None \<longrightarrow> server_main cenv cf = server_serve cenv fl (LisFD 3))) \<and>
    (pa_Kind pa \<in> {VsockGuest, Fd, Mux} \<longrightarrow> (\<exists>e. server_main cenv cf = ServerDied e))"
proof -
  let ?a = "if pa_Kind pa = Tcp then ''fd:3'' else pa_Kind pa @ '':'' @ pa_Addr pa"
  note m = server_main_fork [OF f]
  have cf: "cf = \<lparr>sf_addr = ?a, sf_snapshotAddr = ''qemu-guest:sockets/h2o2'', sf_sessionID = sf_sessionID fl,
      sf_cert = sf_cert fl, sf_privateKey = sf_privateKey fl, sf_daemon = False\<rparr>"
    using c(1) child_flags [of ?a "sf_sessionID fl" "sf_cert fl" "sf_privateKey fl"] m(2) by simp
  have wf: "wf_addr pa" using ParseAddr_wf [OF f(3)] .
  obtain k a s fd mx where pa: "pa = ParsedAddr k a s fd mx" by (cases pa)
  have serve: "server_serve cenv cf l = server_serve cenv fl l" for l by (simp add: server_serve_def cf)
  have plain: "server_main cenv cf = server_main cenv (fl\<lparr>sf_daemon := False\<rparr>)" if k: "k \<in> {Unix, QemuGuest, QemuCtrl}"
  proof -
    have "show_addr pa = k @ '':'' @ a" using k wf pa by (auto simp: kind_defs split: option.splits)
    moreover have "\<not> uses_fd pa" using k wf pa by (auto simp: kind_defs split: option.splits)
    ultimately have "ParseAddr (k @ '':'' @ a) = Inr pa" using ParseAddr_show [OF f(3)] f(3) by simp
    moreover have "k \<noteq> Tcp" using k by (auto simp: kind_defs)
    ultimately show ?thesis using f(3) c(2) m(3) pa serve
      by (auto simp: server_main_def cf server_serve_def split: outcome.splits option.splits)
  qed
  have tcp: "server_main cenv cf = server_serve cenv fl (LisFD 3)" if "k = Tcp" "sv_open cenv (LisFD 3) = None"
  proof -
    have "ParseAddr ''fd:3'' = Inr (ParsedAddr Fd [] [] 3 None)" by code_simp
    moreover have "server_listener (ParsedAddr Fd [] [] 3 None) = Return (LisFD 3)" by (simp add: server_listener_def kind_defs)
    ultimately show ?thesis using that c(2) pa by (simp add: server_main_def cf server_serve_def)
  qed
  have bad: "\<exists>e. server_main cenv cf = ServerDied e" if k: "k \<in> {VsockGuest, Fd, Mux}"
  proof -
    have a: "a = []" "k \<noteq> Tcp" using k wf pa by (auto simp: kind_defs split: option.splits if_splits)
    have 1: "ParseAddr ''vsock-guest:'' = Inr (ParsedAddr VsockGuest [] [] 0 None)" "\<exists>e. ParseAddr ''fd:'' = Inl e" "\<exists>e. ParseAddr ''mux:'' = Inl e"
      by (code_simp, (rule exI, code_simp)+)
    have 2: "server_listener (ParsedAddr VsockGuest [] [] 0 None) = Fail (Errorf ''Failed to parse vsock'')" by code_simp
    from k have "k @ '':'' @ a = ''vsock-guest:'' \<or> k @ '':'' @ a = ''fd:'' \<or> k @ '':'' @ a = ''mux:''" using a by (auto simp: kind_defs)
    then show ?thesis using 1 2 c(2) a(2) pa
      by (auto simp: server_main_def cf)
  qed
  show ?thesis using plain tcp bad m(1) pa cf by (auto simp: kind_defs)
qed

theorem daemon_child_witness:
  "\<exists>e. server_main \<lparr>sv_isSnapshot = Inr False, sv_open = \<lambda>_. None, sv_listen = Inl EOF, sv_start = None, sv_keys = None\<rparr>
     \<lparr>sf_addr = ''mux:'', sf_snapshotAddr = ''qemu-guest:sockets/h2o2'', sf_sessionID = [], sf_cert = [], sf_privateKey = [], sf_daemon = False\<rparr>
   = ServerDied e"
proof -
  let ?env = "\<lparr>sv_isSnapshot = Inr False, sv_open = \<lambda>_. None, sv_listen = Inl EOF, sv_start = None, sv_keys = None\<rparr>"
  let ?fl = "\<lparr>sf_addr = ''mux:fd:3'', sf_snapshotAddr = ''qemu-guest:s'', sf_sessionID = [], sf_cert = [], sf_privateKey = [], sf_daemon = True\<rparr>"
  have 1: "ParseAddr (sf_addr ?fl) = Inr (ParsedAddr Mux [] [] 0 (Some (ParsedAddr Fd [] [] 3 None)))" by code_simp
  have 2: "server_main ?env ?fl = ServerForked [''-addr'', ''mux:'', ''-daemon=false'', ''-session_id'', [], ''-cert'', [], ''-private_key'', []] False"
    by code_simp
  have "sv_isSnapshot ?env = Inr False" by simp
  from daemon_child [OF 2 this 1 child_flags this] show ?thesis by simp
qed

text \<open>
  What the forwarder listens on. When the forwarder starts, every listening address was parsed and exactly those of
  the kinds \<open>qemu\<close>, \<open>unix\<close> and \<open>tcp\<close> are served, in their order. An address of another kind is dropped without an
  error: with none of a supported kind, the forwarder starts and serves nothing.
\<close>

theorem forward_main_listens:
  assumes "forward_main env listenAddr connectAddr = Forwarding b ls"
  shows "\<exists>ps cpa. length ps = length (split_on CHR '','' listenAddr) \<and>
      (\<forall>i < length ps. ParseAddr (split_on CHR '','' listenAddr ! i) = Inr (ps ! i)) \<and>
      ParseAddr connectAddr = Inr cpa \<and> forward_builder cpa = Return b \<and>
      ls = filter can_listen ps \<and> (\<forall>p \<in> set ls. fe_listen env p = None)"
proof -
  obtain ps where ps: "parse_all (split_on CHR '','' listenAddr) = Inr ps"
    using assms by (cases "parse_all (split_on CHR '','' listenAddr)") (auto simp: forward_main_def split: if_splits)
  obtain cpa where cpa: "ParseAddr connectAddr = Inr cpa"
    using assms ps by (cases "ParseAddr connectAddr") (auto simp: forward_main_def split: if_splits)
  have "forward_builder cpa = Return b" "open_listeners (fe_listen env) ps = Inr ls"
    using assms ps cpa by (auto simp: forward_main_def split: if_splits outcome.splits option.splits sum.splits)
  then show ?thesis using parse_all_append [OF ps] cpa by (auto simp: open_listeners_ok)
qed

theorem forward_main_listens_witness:
  "\<exists>b. forward_main \<lparr>fe_open = \<lambda>_. None, fe_accept = None, fe_listen = \<lambda>_. None\<rparr> ''fd:3'' ''tcp:h:1'' = Forwarding b [] \<and>
     forward_builder (ParsedAddr Tcp ''h:1'' [] 0 None) = Return b"
proof -
  let ?env = "\<lparr>fe_open = \<lambda>_. None, fe_accept = None, fe_listen = \<lambda>_. None\<rparr>"
  have p: "ParseAddr ''tcp:h:1'' = Inr (ParsedAddr Tcp ''h:1'' [] 0 None)" by code_simp
  have "forward_main ?env ''fd:3'' ''tcp:h:1'' = Forwarding (DialBuilder ''tcp'' ''h:1'') []" by code_simp
  from this forward_main_listens [OF this] show ?thesis using p by auto
qed

end
