(* ===== verification/Testutils.thy ===== *)
theory Testutils
  imports Prelude
begin

text \<open>
  Choosing a port: \<open>PickUnusedPort\<close> of \<open>testutils/net.go\<close>, which tries the ports of a range from a random one on, in a
  circle. Whether a port is free is a parameter, and so is the random number. The loop is bounded by the number of
  ports in the range, which is shown to be enough.
\<close>

definition minPort :: nat where "minPort = 32768"
definition maxPort :: nat where "maxPort = 65536"

definition errNoFreePort :: go_error where
  "errNoFreePort = Errorf ''no free port available''"

text \<open>\<open>isFree\<close>: the errors of opening a socket, of its option and of binding it to the port.\<close>

definition port_isFree :: "go_error option \<Rightarrow> go_error option \<Rightarrow> (nat \<Rightarrow> go_error option) \<Rightarrow> nat \<Rightarrow> bool" where
  "port_isFree socket setopt bind port = (first_err [socket, setopt, bind port] = None)"

fun pick_loop :: "nat \<Rightarrow> (nat \<Rightarrow> bool) \<Rightarrow> nat \<Rightarrow> nat \<Rightarrow> nat result option" where
  "pick_loop 0 isFree stop port = None"
| "pick_loop (Suc n) isFree stop port =
     (if isFree port then Some (Inr port)
      else let next = (if port + 1 > maxPort then minPort else port + 1)
           in if next = stop then Some (Inl errNoFreePort) else pick_loop n isFree stop next)"

definition PickUnusedPort :: "(nat \<Rightarrow> bool) \<Rightarrow> nat \<Rightarrow> nat result option" where
  "PickUnusedPort isFree random =
     (let port = minPort + random mod (maxPort - minPort + 1)
      in pick_loop (maxPort - minPort + 1) isFree port port)"

text \<open>The first \<open>i\<close> steps of the circle from \<open>p\<close>.\<close>

definition step :: "nat \<Rightarrow> nat \<Rightarrow> nat" where
  "step p i = minPort + (p - minPort + i) mod (maxPort - minPort + 1)"

lemma step_next:
  assumes "minPort \<le> p" "p \<le> maxPort"
  shows "(if step p i + 1 > maxPort then minPort else step p i + 1) = step p (Suc i)"
proof -
  let ?n = "maxPort - minPort + 1" and ?m = "(p - minPort + i) mod (maxPort - minPort + 1)"
  have n: "?m < ?n" "0 < ?n" by (simp_all add: maxPort_def minPort_def)
  have "(p - minPort + Suc i) mod ?n = (if Suc ?m = ?n then 0 else Suc ?m)" by (simp add: mod_Suc)
  then show ?thesis using n by (auto simp: step_def maxPort_def minPort_def)
qed

lemma step_zero: "minPort \<le> p \<Longrightarrow> p \<le> maxPort \<Longrightarrow> step p 0 = p"
  by (simp add: step_def maxPort_def minPort_def)

lemma step_back:
  assumes "minPort \<le> p" "p \<le> maxPort" "0 < i" "i \<le> maxPort - minPort + 1"
  shows "step p i = p \<longleftrightarrow> i = maxPort - minPort + 1"
proof -
  let ?n = "maxPort - minPort + 1"
  have "p - minPort < ?n" using assms(1,2) by simp
  then have "(p - minPort + i) mod ?n = (if p - minPort + i < ?n then p - minPort + i else p - minPort + i - ?n)"
    using assms(4) by (auto simp: mod_if)
  then show ?thesis using assms by (auto simp: step_def)
qed

lemma step_onto:
  assumes "minPort \<le> p" "p \<le> maxPort" "minPort \<le> q" "q \<le> maxPort"
  shows "\<exists>i < maxPort - minPort + 1. step p i = q"
proof (cases "p \<le> q")
  case True
  then have "(p - minPort + (q - p)) mod (maxPort - minPort + 1) = q - minPort" using assms by simp
  then show ?thesis using assms True by (intro exI [of _ "q - p"]) (simp add: step_def)
next
  case False
  let ?n = "maxPort - minPort + 1"
  have "p - minPort + (?n - (p - q)) = (q - minPort) + ?n" using False assms by simp
  then have "(p - minPort + (?n - (p - q))) mod ?n = q - minPort" using assms by (simp only: mod_add_self2) simp
  then show ?thesis using assms False by (intro exI [of _ "?n - (p - q)"]) (simp add: step_def)
qed

lemma pick_loop_spec:
  assumes p: "minPort \<le> p" "p \<le> maxPort" and i: "i + n = maxPort - minPort + 1" "0 < n"
    and tried: "\<And>j. j < i \<Longrightarrow> \<not> isFree (step p j)"
  shows "\<exists>r. pick_loop n isFree p (step p i) = Some r \<and>
      (case r of Inr q \<Rightarrow> isFree q \<and> (\<exists>k < maxPort - minPort + 1. q = step p k \<and> (\<forall>j < k. \<not> isFree (step p j)))
       | Inl e \<Rightarrow> e = errNoFreePort \<and> (\<forall>j < maxPort - minPort + 1. \<not> isFree (step p j)))"
  using i tried
proof (induction n arbitrary: i)
  case (Suc n)
  show ?case
  proof (cases "isFree (step p i)")
    case True
    have "i < maxPort - minPort + 1" using Suc.prems(1) by simp
    then show ?thesis using True Suc.prems(3) by (intro exI [of _ "Inr (step p i)"]) auto
  next
    case False
    have nx: "(if step p i + 1 > maxPort then minPort else step p i + 1) = step p (Suc i)" using step_next [OF p] .
    have t: "\<not> isFree (step p j)" if "j < Suc i" for j using that False Suc.prems(3) by (cases "j = i") auto
    show ?thesis
    proof (cases "n = 0")
      case True
      then have "step p (Suc i) = p" using Suc.prems(1) step_back [OF p, of "Suc i"] by simp
      then show ?thesis using False nx t True Suc.prems(1) by (intro exI [of _ "Inl errNoFreePort"]) (auto simp: Let_def)
    next
      case n: False
      then have "step p (Suc i) \<noteq> p" using Suc.prems(1) step_back [OF p, of "Suc i"] by simp
      then show ?thesis using Suc.IH [of "Suc i"] Suc.prems(1) n False nx t by (simp add: Let_def)
    qed
  qed
qed simp

lemma pick_cases:
  "(\<exists>q. PickUnusedPort isFree random = Some (Inr q) \<and> isFree q \<and> minPort \<le> q \<and> q \<le> maxPort) \<or>
   PickUnusedPort isFree random = Some (Inl errNoFreePort) \<and> (\<forall>q. minPort \<le> q \<and> q \<le> maxPort \<longrightarrow> \<not> isFree q)"
proof -
  let ?p = "minPort + random mod (maxPort - minPort + 1)" and ?n = "maxPort - minPort + 1"
  have p: "minPort \<le> ?p" "?p \<le> maxPort" by (simp_all add: maxPort_def minPort_def)
  have "0 < ?n" by simp
  from pick_loop_spec [OF p, of 0 ?n isFree] obtain r where r: "pick_loop ?n isFree ?p (step ?p 0) = Some r"
    "case r of Inr q \<Rightarrow> isFree q \<and> (\<exists>k < ?n. q = step ?p k \<and> (\<forall>j < k. \<not> isFree (step ?p j)))
       | Inl e \<Rightarrow> e = errNoFreePort \<and> (\<forall>j < ?n. \<not> isFree (step ?p j))" by auto
  have e: "PickUnusedPort isFree random = Some r" using r(1) unfolding PickUnusedPort_def Let_def step_zero [OF p] .
  show ?thesis
  proof (cases r)
    case (Inr q)
    then obtain k where "isFree q" "q = step ?p k" using r(2) by auto
    moreover have "minPort \<le> step ?p k" "step ?p k \<le> maxPort" for k
      using mod_less_divisor [of ?n "?p - minPort + k"] by (simp_all add: step_def maxPort_def minPort_def)
    ultimately show ?thesis using e Inr by auto
  next
    case (Inl x)
    then show ?thesis using e r(2) step_onto [OF p] by fastforce
  qed
qed

text \<open>
  Picking a port ends. For every random number, the search returns: a port of the range that is free, and the first
  free one from the random start on, if the range has a free port at all, and otherwise the error.
\<close>

theorem PickUnusedPort_total:
  "(\<exists>q. PickUnusedPort isFree random = Some (Inr q) \<and> isFree q \<and> minPort \<le> q \<and> q \<le> maxPort) \<or>
   PickUnusedPort isFree random = Some (Inl errNoFreePort) \<and> (\<forall>q. minPort \<le> q \<and> q \<le> maxPort \<longrightarrow> \<not> isFree q)"
  by (rule pick_cases)

theorem PickUnusedPort_total_witness:
  "(\<exists>q. PickUnusedPort (\<lambda>n. n = minPort) 7 = Some (Inr q) \<and> minPort \<le> q \<and> q \<le> maxPort) \<and> PickUnusedPort (\<lambda>_. False) 3 = Some (Inl errNoFreePort)"
proof -
  have "minPort \<le> maxPort" by (simp add: minPort_def maxPort_def)
  then show ?thesis
    using PickUnusedPort_total [of "\<lambda>n. n = minPort" 7] PickUnusedPort_total [of "\<lambda>_. False" 3] by blast
qed

end
