(* ===== verification/Usb.thy ===== *)
theory Usb
  imports Prelude
begin

text \<open>
  The USB transport of \<open>aoa/aoa.go\<close>: finding a device by its serial number, switching it to accessory mode, and opening
  its endpoints. The package \<open>gousb\<close> is a parameter, a record of the answers it gives. Every call is recorded in a
  history, and an answer may depend on the history before it. A device handle is a number.
\<close>

section \<open>The bus\<close>

record control =
  ct_rType :: "8 word"
  ct_request :: "8 word"
  ct_val :: "16 word"
  ct_idx :: "16 word"
  ct_data :: bytes

datatype usb_op =
    OpenDevs "nat list" | CloseDev nat | Serial nat | Control nat control | ReadConfigNum nat | OpenConfig nat nat
  | OpenIntf nat nat nat | ResetDev nat | CloseConfig nat | CloseIntf nat

record endpoint_desc =
  ep_In :: bool
  ep_Number :: nat

record interface_setting =
  is_Number :: nat
  is_Alternate :: nat
  is_Class :: nat
  is_SubClass :: nat
  is_Protocol :: nat
  is_Endpoints :: "endpoint_desc list"

text \<open>
  \<open>gb_OpenDevices\<close> is given the filter on the vendor and returns the opened devices with an error: after an error, the
  devices that were opened are returned too. \<open>gb_Config\<close> gives the alternate settings of every interface.
\<close>

record gousb =
  gb_OpenDevices :: "(16 word \<Rightarrow> bool) \<Rightarrow> usb_op list \<Rightarrow> nat list \<times> go_error option"
  gb_SerialNumber :: "usb_op list \<Rightarrow> nat \<Rightarrow> string result"
  gb_Product :: "nat \<Rightarrow> 16 word"
  gb_Close :: "usb_op list \<Rightarrow> nat \<Rightarrow> go_error option"
  gb_Control :: "usb_op list \<Rightarrow> nat \<Rightarrow> control \<Rightarrow> go_error option"
  gb_ActiveConfigNum :: "usb_op list \<Rightarrow> nat \<Rightarrow> nat result"
  gb_Config :: "usb_op list \<Rightarrow> nat \<Rightarrow> nat \<Rightarrow> interface_setting list list result"
  gb_Interface :: "usb_op list \<Rightarrow> nat \<Rightarrow> nat \<Rightarrow> nat \<Rightarrow> interface_setting result"
  gb_InEndpoint :: "interface_setting \<Rightarrow> nat \<Rightarrow> go_error option"
  gb_OutEndpoint :: "interface_setting \<Rightarrow> nat \<Rightarrow> go_error option"
  gb_CloseConfig :: "usb_op list \<Rightarrow> nat \<Rightarrow> go_error option"
  gb_Reset :: "usb_op list \<Rightarrow> nat \<Rightarrow> go_error option"

definition googleVendorID :: "16 word" where "googleVendorID = 0x18D1"

definition usbAccessoryIds :: "16 word list" where
  "usbAccessoryIds = [0x2D00, 0x2D01, 0x2D04, 0x2D05]"

definition manufacturer :: string where "manufacturer = ''devx''"
definition model :: string where "model = ''waterfall''"
definition description :: string where "description = ''Waterfall USB''"
definition version :: string where "version = ''1.0''"
definition serial_id :: string where "serial_id = ''00000012345678''"
definition uri :: string where
  "uri = ''http://play.google.com/store/apps/details?id=com.google.waterfall.usb''"


section \<open>Accessory mode\<close>

definition sendString_req :: "16 word \<Rightarrow> string \<Rightarrow> control" where
  "sendString_req i str = \<lparr>ct_rType = 0x40, ct_request = 52, ct_val = 0, ct_idx = i, ct_data = bytes_of str\<rparr>"

definition start_req :: control where
  "start_req = \<lparr>ct_rType = 0x40, ct_request = 53, ct_val = 0, ct_idx = 0, ct_data = []\<rparr>"

definition accessory_requests :: "control list" where
  "accessory_requests =
     [sendString_req 0 manufacturer, sendString_req 1 model, sendString_req 2 description, sendString_req 3 version,
      sendString_req 4 uri, sendString_req 5 serial_id, start_req]"

text \<open>The requests of \<open>switchToAccessory\<close>, each sent when the one before it has succeeded.\<close>

fun send_requests :: "gousb \<Rightarrow> nat \<Rightarrow> control list \<Rightarrow> usb_op list \<Rightarrow> go_error option \<times> usb_op list" where
  "send_requests gb dev [] h = (None, h)"
| "send_requests gb dev (r # rs) h =
     (case gb_Control gb h dev r of
        Some e \<Rightarrow> (Some e, h @ [Control dev r])
      | None \<Rightarrow> send_requests gb dev rs (h @ [Control dev r]))"

definition switchToAccessory :: "gousb \<Rightarrow> nat \<Rightarrow> usb_op list \<Rightarrow> go_error option \<times> usb_op list" where
  "switchToAccessory gb dev h = send_requests gb dev accessory_requests h"


section \<open>Finding the device\<close>

text \<open>The deferred loop of \<open>findDevice\<close> over the slice of devices, in which a device that is kept is nil.\<close>

fun close_devs :: "nat option list \<Rightarrow> usb_op list \<Rightarrow> usb_op list" where
  "close_devs [] h = h"
| "close_devs (None # ds) h = close_devs ds h"
| "close_devs (Some d # ds) h = close_devs ds (h @ [CloseDev d])"

fun find_serial :: "gousb \<Rightarrow> string \<Rightarrow> nat \<Rightarrow> nat list \<Rightarrow> usb_op list \<Rightarrow> nat option result \<times> usb_op list" where
  "find_serial gb serial i [] h = (Inr None, h)"
| "find_serial gb serial i (d # ds) h =
     (case gb_SerialNumber gb h d of
        Inl e \<Rightarrow> (Inl e, h @ [Serial d])
      | Inr s \<Rightarrow> if serial = s then (Inr (Some i), h @ [Serial d]) else find_serial gb serial (Suc i) ds (h @ [Serial d]))"

definition findDevice :: "gousb \<Rightarrow> string \<Rightarrow> usb_op list \<Rightarrow> nat result \<times> usb_op list" where
  "findDevice gb serial h =
     (case gb_OpenDevices gb (\<lambda>v. v = googleVendorID) h of
        (devs, Some e) \<Rightarrow> (Inl e, h @ [OpenDevs devs])
      | (devs, None) \<Rightarrow>
          (case find_serial gb serial 0 devs (h @ [OpenDevs devs]) of
             (Inl e, h1) \<Rightarrow> (Inl e, close_devs (map Some devs) h1)
           | (Inr None, h1) \<Rightarrow> (Inl (Errorf (''device with serial '' @ serial @ '' not found'')), close_devs (map Some devs) h1)
           | (Inr (Some i), h1) \<Rightarrow> (Inr (devs ! i), close_devs ((map Some devs)[i := None]) h1)))"

fun find_again :: "gousb \<Rightarrow> string \<Rightarrow> nat \<Rightarrow> nat result \<Rightarrow> usb_op list \<Rightarrow> nat result \<times> usb_op list" where
  "find_again gb serial 0 r h = (r, h)"
| "find_again gb serial (Suc n) r h =
     (case findDevice gb serial h of
        (Inr d, h1) \<Rightarrow> (Inr d, h1)
      | (Inl e, h1) \<Rightarrow> find_again gb serial n (Inl e) h1)"

definition configureAOA :: "gousb \<Rightarrow> string \<Rightarrow> usb_op list \<Rightarrow> nat result \<times> usb_op list" where
  "configureAOA gb serial h =
     (case findDevice gb serial h of
        (Inl e, h1) \<Rightarrow> (Inl e, h1)
      | (Inr dev, h1) \<Rightarrow>
          (case (if gb_Product gb dev \<in> set usbAccessoryIds then (None, h1) else switchToAccessory gb dev h1) of
             (Some e, h2) \<Rightarrow> (Inl e, h2 @ [CloseDev dev])
           | (None, h2) \<Rightarrow>
               (case gb_Close gb h2 dev of
                  Some e \<Rightarrow> (Inl e, h2 @ [CloseDev dev])
                | None \<Rightarrow> find_again gb serial 3 (Inr dev) (h2 @ [CloseDev dev]))))"


section \<open>Opening the endpoints\<close>

record usb_rwc =
  ur_dev :: nat
  ur_in :: "nat option"
  ur_out :: "nat option"

definition activeConfig :: "gousb \<Rightarrow> nat \<Rightarrow> usb_op list \<Rightarrow> interface_setting list list result \<times> usb_op list" where
  "activeConfig gb dev h =
     (case gb_ActiveConfigNum gb h dev of
        Inl e \<Rightarrow> (Inl e, h @ [ReadConfigNum dev])
      | Inr c \<Rightarrow> (gb_Config gb (h @ [ReadConfigNum dev]) dev c, h @ [ReadConfigNum dev, OpenConfig dev c]))"

definition is_aoa :: "interface_setting \<Rightarrow> bool" where
  "is_aoa s \<longleftrightarrow> is_Class s = 255 \<and> is_SubClass s = 255 \<and> is_Protocol s = 0"

text \<open>The inner loop ends at the first accessory setting of an interface, the outer one goes on.\<close>

fun aoa_setting :: "interface_setting option \<Rightarrow> interface_setting list list \<Rightarrow> interface_setting option" where
  "aoa_setting found [] = found"
| "aoa_setting found (alts # ids) =
     aoa_setting (case find is_aoa alts of Some s \<Rightarrow> Some s | None \<Rightarrow> found) ids"

definition getAccessoryInterface ::
    "gousb \<Rightarrow> nat \<Rightarrow> interface_setting list list \<Rightarrow> usb_op list \<Rightarrow> interface_setting result \<times> usb_op list"
where
  "getAccessoryInterface gb dev config h =
     (case aoa_setting None config of
        None \<Rightarrow> (Inl (Errorf ''couldn't find AOA interface''), h)
      | Some s \<Rightarrow>
          (gb_Interface gb h dev (is_Number s) (is_Alternate s), h @ [OpenIntf dev (is_Number s) (is_Alternate s)]))"

fun open_endpoints :: "gousb \<Rightarrow> interface_setting \<Rightarrow> endpoint_desc list \<Rightarrow> usb_rwc \<Rightarrow> usb_rwc result" where
  "open_endpoints gb i [] rw = Inr rw"
| "open_endpoints gb i (d # ds) rw =
     (case (if ep_In d then gb_InEndpoint gb i (ep_Number d) else gb_OutEndpoint gb i (ep_Number d)) of
        Some e \<Rightarrow> Inl e
      | None \<Rightarrow>
          open_endpoints gb i ds (if ep_In d then rw\<lparr>ur_in := Some (ep_Number d)\<rparr> else rw\<lparr>ur_out := Some (ep_Number d)\<rparr>))"

definition newReadWriteCloser :: "gousb \<Rightarrow> nat \<Rightarrow> interface_setting \<Rightarrow> usb_rwc result" where
  "newReadWriteCloser gb dev i = open_endpoints gb i (is_Endpoints i) \<lparr>ur_dev = dev, ur_in = None, ur_out = None\<rparr>"

definition usb_Connect :: "gousb \<Rightarrow> string \<Rightarrow> usb_op list \<Rightarrow> usb_rwc result \<times> usb_op list" where
  "usb_Connect gb serial h =
     (case configureAOA gb serial h of
        (Inl e, h1) \<Rightarrow> (Inl e, h1)
      | (Inr dev, h1) \<Rightarrow>
          (case activeConfig gb dev h1 of
             (Inl e, h2) \<Rightarrow> (Inl e, h2)
           | (Inr config, h2) \<Rightarrow>
               (case getAccessoryInterface gb dev config h2 of
                  (Inl e, h3) \<Rightarrow> (Inl e, h3 @ [CloseDev dev])
                | (Inr intf, h3) \<Rightarrow> (newReadWriteCloser gb dev intf, h3))))"

definition usb_Reset :: "gousb \<Rightarrow> string \<Rightarrow> usb_op list \<Rightarrow> go_error option \<times> usb_op list" where
  "usb_Reset gb serial h =
     (case findDevice gb serial h of
        (Inl e, h1) \<Rightarrow> (Some e, h1)
      | (Inr dev, h1) \<Rightarrow> (gb_Reset gb h1 dev, h1 @ [ResetDev dev]))"

definition usb_Close :: "gousb \<Rightarrow> usb_rwc \<Rightarrow> usb_op list \<Rightarrow> go_error option \<times> usb_op list" where
  "usb_Close gb u h =
     (let h1 = h @ [CloseIntf (ur_dev u)]
      in case gb_CloseConfig gb h1 (ur_dev u) of
           Some e \<Rightarrow> (Some e, h1 @ [CloseConfig (ur_dev u)])
         | None \<Rightarrow>
             let h2 = h1 @ [CloseConfig (ur_dev u)] in (gb_Close gb h2 (ur_dev u), h2 @ [CloseDev (ur_dev u)]))"

text \<open>\<open>Read\<close> and \<open>Write\<close> go to the endpoint; an interface without one leaves it nil.\<close>

definition usb_Read :: "(nat \<Rightarrow> nat \<Rightarrow> 'r) \<Rightarrow> usb_rwc \<Rightarrow> nat \<Rightarrow> 'r outcome" where
  "usb_Read read u n = (case ur_in u of None \<Rightarrow> Panic | Some p \<Rightarrow> Return (read p n))"

definition usb_Write :: "(nat \<Rightarrow> bytes \<Rightarrow> 'r) \<Rightarrow> usb_rwc \<Rightarrow> bytes \<Rightarrow> 'r outcome" where
  "usb_Write write u b = (case ur_out u of None \<Rightarrow> Panic | Some p \<Rightarrow> Return (write p b))"


section \<open>Facts\<close>

text \<open>Handles that are opened and closed by a history, and how many of a handle are open.\<close>

definition opened :: "usb_op list \<Rightarrow> nat list" where
  "opened h = concat (map (\<lambda>x. case x of OpenDevs ds \<Rightarrow> ds | _ \<Rightarrow> []) h)"

definition closed :: "usb_op list \<Rightarrow> nat list" where
  "closed h = concat (map (\<lambda>x. case x of CloseDev d \<Rightarrow> [d] | _ \<Rightarrow> []) h)"

definition live :: "usb_op list \<Rightarrow> nat \<Rightarrow> int" where
  "live h d = int (count_list (opened h) d) - int (count_list (closed h) d)"

definition controls :: "usb_op list \<Rightarrow> (nat \<times> control) list" where
  "controls h = concat (map (\<lambda>x. case x of Control d r \<Rightarrow> [(d, r)] | _ \<Rightarrow> []) h)"

definition opens :: "usb_op list \<Rightarrow> nat" where
  "opens h = length (filter (\<lambda>x. case x of OpenDevs _ \<Rightarrow> True | _ \<Rightarrow> False) h)"

lemma history_append [simp]:
  "opened (h @ h') = opened h @ opened h'" "closed (h @ h') = closed h @ closed h'"
  "controls (h @ h') = controls h @ controls h'" "opens (h @ h') = opens h + opens h'"
  by (simp_all add: opened_def closed_def controls_def opens_def)

lemma history_Cons [simp]:
  "opened (OpenDevs ds # h) = ds @ opened h" "opened (CloseDev d # h) = opened h" "opened (Serial d # h) = opened h"
  "opened (Control d r # h) = opened h" "opened (ReadConfigNum d # h) = opened h" "opened (OpenConfig d c # h) = opened h"
  "opened (OpenIntf d a b # h) = opened h" "opened (ResetDev d # h) = opened h" "opened [] = []"
  "closed (OpenDevs ds # h) = closed h" "closed (CloseDev d # h) = d # closed h" "closed (Serial d # h) = closed h"
  "closed (Control d r # h) = closed h" "closed (ReadConfigNum d # h) = closed h" "closed (OpenConfig d c # h) = closed h"
  "closed (OpenIntf d a b # h) = closed h" "closed (ResetDev d # h) = closed h" "closed [] = []"
  "controls (OpenDevs ds # h) = controls h" "controls (CloseDev d # h) = controls h" "controls (Serial d # h) = controls h"
  "controls (Control d r # h) = (d, r) # controls h" "controls [] = []"
  "opens (OpenDevs ds # h) = Suc (opens h)" "opens (CloseDev d # h) = opens h" "opens (Serial d # h) = opens h"
  "opens (Control d r # h) = opens h" "opens [] = 0"
  by (simp_all add: opened_def closed_def controls_def opens_def)

lemma history_map [simp]:
  "opened (map CloseDev ds) = []" "closed (map CloseDev ds) = ds" "controls (map CloseDev ds) = []" "opens (map CloseDev ds) = 0"
  "opened (map Serial ds) = []" "closed (map Serial ds) = []" "controls (map Serial ds) = []" "opens (map Serial ds) = 0"
  by (induction ds) simp_all

lemma history_map_Control [simp]:
  "opened (map (Control d) rs) = []" "closed (map (Control d) rs) = []" "opens (map (Control d) rs) = 0"
  "controls (map (Control d) rs) = map (Pair d) rs"
  by (induction rs) simp_all

text \<open>What is closed: the devices of the slice that are not nil.\<close>

fun present :: "'a option list \<Rightarrow> 'a list" where
  "present [] = []"
| "present (None # xs) = present xs"
| "present (Some x # xs) = x # present xs"

lemma close_devs_eq: "close_devs ds h = h @ map CloseDev (present ds)"
  by (induction ds h rule: close_devs.induct) simp_all

lemma present_map_Some [simp]: "present (map Some ds) = ds"
  by (induction ds) simp_all

lemma count_present_update:
  "i < length ds \<Longrightarrow> count_list ds x = count_list (present ((map Some ds)[i := None])) x + (if x = ds ! i then 1 else 0)"
proof (induction ds arbitrary: i)
  case (Cons d ds)
  then show ?case by (cases i) simp_all
qed simp

lemma find_serial_cases:
  assumes "find_serial gb serial i ds h = (r, h')"
  shows "\<exists>k \<le> length ds. h' = h @ map Serial (take k ds) \<and>
    (\<forall>j. r = Inr (Some j) \<longrightarrow> i \<le> j \<and> j - i < length ds \<and> (\<exists>h0. gb_SerialNumber gb h0 (ds ! (j - i)) = Inr serial))"
  using assms
proof (induction ds arbitrary: i h)
  case (Cons d ds)
  consider (stop) "h' = h @ [Serial d]" "\<forall>j. r = Inr (Some j) \<longrightarrow> j = i \<and> gb_SerialNumber gb h d = Inr serial"
    | (next1) "find_serial gb serial (Suc i) ds (h @ [Serial d]) = (r, h')"
    using Cons.prems by (auto split: sum.splits if_splits)
  then show ?case
  proof cases
    case stop
    then show ?thesis by (intro exI [of _ 1]) auto
  next
    case next1
    from Cons.IH [OF this] obtain k where k: "k \<le> length ds" "h' = (h @ [Serial d]) @ map Serial (take k ds)"
      "\<forall>j. r = Inr (Some j) \<longrightarrow> Suc i \<le> j \<and> j - Suc i < length ds \<and> (\<exists>h0. gb_SerialNumber gb h0 (ds ! (j - Suc i)) = Inr serial)"
      by blast
    have "i \<le> j \<and> j - i < length (d # ds) \<and> (\<exists>h0. gb_SerialNumber gb h0 ((d # ds) ! (j - i)) = Inr serial)" if "r = Inr (Some j)" for j
    proof -
      have j: "Suc i \<le> j" "j - Suc i < length ds" "\<exists>h0. gb_SerialNumber gb h0 (ds ! (j - Suc i)) = Inr serial" using k(3) that by auto
      then have "j - i = Suc (j - Suc i)" by simp
      then show ?thesis using j by simp
    qed
    then show ?thesis using k by (intro exI [of _ "Suc k"]) simp
  qed
qed auto

text \<open>The bus reports no error while it opens devices.\<close>

definition bus_ok :: "gousb \<Rightarrow> bool" where
  "bus_ok gb \<longleftrightarrow> (\<forall>p h. snd (gb_OpenDevices gb p h) = None)"

text \<open>
  \<open>kept r d\<close>: one if the result \<open>r\<close> of a search is the handle \<open>d\<close>.
\<close>

definition kept :: "nat result \<Rightarrow> nat \<Rightarrow> int" where
  "kept r d = (if r = Inr d then 1 else 0)"

lemma kept_simps [simp]: "kept (Inl e) d = 0" "kept (Inr x) d = (if x = d then 1 else 0)"
  by (simp_all add: kept_def)

lemma findDevice_history:
  assumes "findDevice gb serial h = (r, h')"
  shows "controls h' = controls h \<and> opens h' = Suc (opens h)"
proof -
  obtain devs e where o: "gb_OpenDevices gb (\<lambda>v. v = googleVendorID) h = (devs, e)" by fastforce
  obtain r1 h1 where f: "find_serial gb serial 0 devs (h @ [OpenDevs devs]) = (r1, h1)" by fastforce
  show ?thesis using assms o f find_serial_cases [OF f]
    by (auto simp: findDevice_def close_devs_eq split: option.splits sum.splits)
qed

lemma findDevice_ok:
  assumes "findDevice gb serial h = (r, h')" and "bus_ok gb"
  shows "live h' d = live h d + kept r d" and "r = Inr x \<Longrightarrow> \<exists>h0. gb_SerialNumber gb h0 x = Inr serial"
proof -
  obtain devs where o: "gb_OpenDevices gb (\<lambda>v. v = googleVendorID) h = (devs, None)"
    using assms(2) unfolding bus_ok_def by (metis prod.collapse)
  obtain r1 h1 where f: "find_serial gb serial 0 devs (h @ [OpenDevs devs]) = (r1, h1)" by fastforce
  obtain k where k: "h1 = (h @ [OpenDevs devs]) @ map Serial (take k devs)"
    "\<forall>j. r1 = Inr (Some j) \<longrightarrow> j < length devs \<and> (\<exists>h0. gb_SerialNumber gb h0 (devs ! j) = Inr serial)"
    using find_serial_cases [OF f] by auto
  consider (no) e where "r = Inl e" "h' = h1 @ map CloseDev devs"
    | (yes) j where "r1 = Inr (Some j)" "r = Inr (devs ! j)" "h' = h1 @ map CloseDev (present ((map Some devs)[j := None]))"
    using assms(1) o f by (auto simp: findDevice_def close_devs_eq split: sum.splits option.splits)
  note c = this
  show "live h' d = live h d + kept r d"
    by (cases rule: c) (use k count_present_update [of _ devs d] in \<open>auto simp: live_def\<close>)
  show "r = Inr x \<Longrightarrow> \<exists>h0. gb_SerialNumber gb h0 x = Inr serial"
    by (cases rule: c) (use k in auto)
qed

lemma find_again_history:
  "find_again gb serial n r h = (r', h') \<Longrightarrow> controls h' = controls h \<and> opens h \<le> opens h' \<and> opens h' \<le> opens h + n"
proof (induction n arbitrary: r h)
  case (Suc n)
  obtain r1 h1 where f: "findDevice gb serial h = (r1, h1)" by fastforce
  show ?case
  proof (cases r1)
    case (Inl e)
    then show ?thesis using Suc.prems Suc.IH [of "Inl e" h1] f findDevice_history [OF f] by auto
  next
    case (Inr d)
    then show ?thesis using Suc.prems f findDevice_history [OF f] by auto
  qed
qed simp

lemma find_again_ok:
  "find_again gb serial (Suc n) r h = (r', h') \<Longrightarrow> bus_ok gb \<Longrightarrow>
     live h' d = live h d + kept r' d \<and> (\<forall>x. r' = Inr x \<longrightarrow> (\<exists>h0. gb_SerialNumber gb h0 x = Inr serial)) \<and> opens h < opens h'"
proof (induction n arbitrary: r h)
  case 0
  obtain r1 h1 where f: "findDevice gb serial h = (r1, h1)" by fastforce
  then show ?case using 0 findDevice_ok [OF f] findDevice_history [OF f] by (cases r1) auto
next
  case (Suc n)
  obtain r1 h1 where f: "findDevice gb serial h = (r1, h1)" by fastforce
  show ?case
  proof (cases r1)
    case (Inl e)
    then have "find_again gb serial (Suc n) (Inl e) h1 = (r', h')" using Suc.prems(1) f by simp
    from Suc.IH [OF this Suc.prems(2)] show ?thesis using findDevice_ok(1) [OF f Suc.prems(2), of d] findDevice_history [OF f] Inl by auto
  next
    case (Inr x)
    then show ?thesis using Suc.prems f findDevice_ok [OF f] findDevice_history [OF f] by auto
  qed
qed

lemma send_requests_history:
  "send_requests gb dev rs h = (e, h') \<Longrightarrow>
     \<exists>k \<le> length rs. h' = h @ map (Control dev) (take k rs) \<and> (e = None \<longrightarrow> k = length rs)"
proof (induction rs arbitrary: h)
  case (Cons r rs)
  show ?case
  proof (cases "gb_Control gb h dev r")
    case None
    then have "send_requests gb dev rs (h @ [Control dev r]) = (e, h')" using Cons.prems by simp
    from Cons.IH [OF this] obtain k where k: "k \<le> length rs" "h' = (h @ [Control dev r]) @ map (Control dev) (take k rs)"
      "e = None \<longrightarrow> k = length rs" by blast
    then show ?thesis by (intro exI [of _ "Suc k"]) simp
  next
    case (Some x)
    then show ?thesis using Cons.prems by (intro exI [of _ 1]) auto
  qed
qed simp

text \<open>The requests that a device is sent before it is searched again.\<close>

definition prepared :: "gousb \<Rightarrow> nat \<Rightarrow> (nat \<times> control) list" where
  "prepared gb dev = (if gb_Product gb dev \<in> set usbAccessoryIds then [] else map (Pair dev) accessory_requests)"

lemma prepare_history:
  assumes "(if gb_Product gb dev \<in> set usbAccessoryIds then (None, h1) else switchToAccessory gb dev h1) = (e, h2)"
  shows "opened h2 = opened h1 \<and> closed h2 = closed h1 \<and> opens h2 = opens h1 \<and> (e = None \<longrightarrow> controls h2 = controls h1 @ prepared gb dev)"
  using assms send_requests_history [of gb dev accessory_requests h1 e h2]
  by (auto simp: prepared_def switchToAccessory_def split: if_splits)

lemma configureAOA_ok:
  assumes c: "configureAOA gb serial h = (r, h')" and b: "bus_ok gb"
  shows "live h' d = live h d + kept r d"
    and "r = Inr x \<Longrightarrow> \<exists>dev. (\<exists>h0. gb_SerialNumber gb h0 dev = Inr serial) \<and> (\<exists>h0. gb_SerialNumber gb h0 x = Inr serial) \<and>
           controls h' = controls h @ prepared gb dev \<and> opens h + 2 \<le> opens h' \<and> opens h' \<le> opens h + 4"
proof -
  obtain r1 h1 where f: "findDevice gb serial h = (r1, h1)" by fastforce
  note fo = findDevice_ok [OF f b] and fh = findDevice_history [OF f]
  consider (no) e where "r1 = Inl e" "r = Inl e" "h' = h1"
    | (unprepared) dev e h2 where "r1 = Inr dev" "r = Inl e" "h' = h2 @ [CloseDev dev]" "opened h2 = opened h1" "closed h2 = closed h1"
    | (again) dev h2 where "r1 = Inr dev" "find_again gb serial 3 (Inr dev) (h2 @ [CloseDev dev]) = (r, h')" "opened h2 = opened h1"
        "closed h2 = closed h1" "opens h2 = opens h1" "controls h2 = controls h1 @ prepared gb dev"
  proof (cases r1)
    case (Inl e)
    then have "r = Inl e" "h' = h1" using c f by (simp_all add: configureAOA_def)
    then show ?thesis using Inl by (rule no [rotated])
  next
    case (Inr dev)
    obtain e h2 where p: "(if gb_Product gb dev \<in> set usbAccessoryIds then (None, h1) else switchToAccessory gb dev h1) = (e, h2)"
      by (metis surj_pair)
    note ph = prepare_history [OF p]
    show ?thesis
    proof (cases e)
      case (Some x)
      then have "r = Inl x" "h' = h2 @ [CloseDev dev]" using c f p Inr by (simp_all add: configureAOA_def)
      then show ?thesis using ph Inr by (intro unprepared [of dev x h2]) simp_all
    next
      case None
      show ?thesis
      proof (cases "gb_Close gb h2 dev")
        case cl: None
        then have "find_again gb serial 3 (Inr dev) (h2 @ [CloseDev dev]) = (r, h')" using c f p Inr None by (simp add: configureAOA_def)
        then show ?thesis using ph Inr None by (intro again [of dev h2]) simp_all
      next
        case cl: (Some x)
        then have "r = Inl x" "h' = h2 @ [CloseDev dev]" using c f p Inr None by (simp_all add: configureAOA_def)
        then show ?thesis using ph Inr by (intro unprepared [of dev x h2]) simp_all
      qed
    qed
  qed
  note cs = this
  show "live h' d = live h d + kept r d"
  proof (cases rule: cs)
    case again
    have "find_again gb serial (Suc 2) (Inr dev) (h2 @ [CloseDev dev]) = (r, h')" using again(2) by (simp add: numeral_3_eq_3 numeral_2_eq_2)
    from find_again_ok [OF this b, of d] show ?thesis using again(1,3,4) fo(1) [of d] by (auto simp: live_def)
  qed (use fo(1) [of d] in \<open>auto simp: live_def\<close>)
  show "\<exists>dev. (\<exists>h0. gb_SerialNumber gb h0 dev = Inr serial) \<and> (\<exists>h0. gb_SerialNumber gb h0 x = Inr serial) \<and>
           controls h' = controls h @ prepared gb dev \<and> opens h + 2 \<le> opens h' \<and> opens h' \<le> opens h + 4" if "r = Inr x"
  proof (cases rule: cs)
    case again
    have "find_again gb serial (Suc 2) (Inr dev) (h2 @ [CloseDev dev]) = (r, h')" using again(2) by (simp add: numeral_3_eq_3 numeral_2_eq_2)
    from find_again_ok [OF this b, of dev] find_again_history [OF this] fo(2) [OF again(1)] fh again that show ?thesis
      by (intro exI [of _ dev]) auto
  qed (use that in auto)
qed


section \<open>Properties\<close>

lemma activeConfig_history: "activeConfig gb dev h = (r, h') \<Longrightarrow> opened h' = opened h \<and> closed h' = closed h"
  by (auto simp: activeConfig_def split: sum.splits)

lemma getAccessoryInterface_history:
  "getAccessoryInterface gb dev config h = (r, h') \<Longrightarrow> opened h' = opened h \<and> closed h' = closed h"
  by (auto simp: getAccessoryInterface_def split: option.splits)

lemma open_endpoints_dev: "open_endpoints gb i ds rw = Inr rw' \<Longrightarrow> ur_dev rw' = ur_dev rw"
  by (induction ds arbitrary: rw) (auto split: option.splits)

text \<open>The configuration and the endpoints of a device can be opened.\<close>

definition device_ok :: "gousb \<Rightarrow> nat \<Rightarrow> bool" where
  "device_ok gb dev \<longleftrightarrow> (\<forall>h. \<exists>cfg. fst (activeConfig gb dev h) = Inr cfg) \<and> (\<forall>i. \<exists>rw. newReadWriteCloser gb dev i = Inr rw)"

lemma usb_Connect_cases:
  assumes "usb_Connect gb serial h = (r, h')"
  obtains (unconfigured) e where "configureAOA gb serial h = (Inl e, h')" "r = Inl e"
    | (leaked) dev h1 e where "configureAOA gb serial h = (Inr dev, h1)" "r = Inl e" "\<not> device_ok gb dev" "live h' = live h1"
    | (nointf) dev h1 e where "configureAOA gb serial h = (Inr dev, h1)" "r = Inl e" "live h' = (live h1)(dev := live h1 dev - 1)"
    | (open1) dev h1 rw where "configureAOA gb serial h = (Inr dev, h1)" "r = Inr rw" "ur_dev rw = dev" "live h' = live h1"
proof -
  obtain r1 h1 where c: "configureAOA gb serial h = (r1, h1)" by fastforce
  show ?thesis
  proof (cases r1)
    case (Inl e)
    then show ?thesis using c assms by (intro unconfigured [of e]) (simp_all add: usb_Connect_def)
  next
    case dev: (Inr dev)
    obtain r2 h2 where a: "activeConfig gb dev h1 = (r2, h2)" by fastforce
    note l2 = activeConfig_history [OF a]
    show ?thesis
    proof (cases r2)
      case (Inl e)
      have "\<not> device_ok gb dev" using a Inl unfolding device_ok_def by (metis fst_conv sum.distinct(1))
      then show ?thesis using c dev a Inl assms l2 by (intro leaked [of dev h1 e]) (auto simp: usb_Connect_def live_def)
    next
      case cfg: (Inr cfg)
      obtain r3 h3 where g: "getAccessoryInterface gb dev cfg h2 = (r3, h3)" by fastforce
      note l3 = getAccessoryInterface_history [OF g]
      show ?thesis
      proof (cases r3)
        case (Inl e)
        then show ?thesis using c dev a cfg g assms l2 l3 by (intro nointf [of dev h1 e]) (auto simp: usb_Connect_def live_def)
      next
        case intf: (Inr intf)
        have r: "r = newReadWriteCloser gb dev intf" "h' = h3" using c dev a cfg g intf assms by (simp_all add: usb_Connect_def)
        show ?thesis
        proof (cases r)
          case (Inl e)
          then have "\<not> device_ok gb dev" using r unfolding device_ok_def by (metis sum.distinct(1))
          then show ?thesis using c dev Inl r l2 l3 by (intro leaked [of dev h1 e]) (auto simp: live_def)
        next
          case (Inr rw)
          then have "ur_dev rw = dev" using r(1) open_endpoints_dev [of gb intf _ _ rw] by (simp add: newReadWriteCloser_def)
          then show ?thesis using c dev Inr r l2 l3 by (intro open1 [of dev h1 rw]) (auto simp: live_def)
        qed
      qed
    qed
  qed
qed

text \<open>A bus with two devices, of which the second has the serial number A and is not in accessory mode at first.\<close>

definition demo_bus :: gousb where
  "demo_bus = \<lparr>gb_OpenDevices = \<lambda>p h. ([0, 1], None), gb_SerialNumber = \<lambda>h d. Inr (if d = 1 then ''A'' else ''B''),
     gb_Product = \<lambda>d. 0x4EE1, gb_Close = \<lambda>h d. None, gb_Control = \<lambda>h d r. None, gb_ActiveConfigNum = \<lambda>h d. Inr 1,
     gb_Config = \<lambda>h d c. Inr [[\<lparr>is_Number = 0, is_Alternate = 0, is_Class = 255, is_SubClass = 255, is_Protocol = 0, is_Endpoints = []\<rparr>]],
     gb_Interface = \<lambda>h d n a. Inr \<lparr>is_Number = n, is_Alternate = a, is_Class = 255, is_SubClass = 255, is_Protocol = 0,
       is_Endpoints = [\<lparr>ep_In = True, ep_Number = 2\<rparr>, \<lparr>ep_In = False, ep_Number = 3\<rparr>]\<rparr>,
     gb_InEndpoint = \<lambda>i n. None, gb_OutEndpoint = \<lambda>i n. None, gb_CloseConfig = \<lambda>h d. None, gb_Reset = \<lambda>h d. None\<rparr>"



text \<open>
  Accessory mode. The device with the serial number is sent the six strings that identify the host and the request to
  start, in this order, once, and only if its product is none of the accessory ones; nothing is sent to another device.
  It is then searched again, at most three times.
\<close>

theorem configureAOA_protocol:
  assumes "configureAOA gb serial h = (Inr x, h')" and "bus_ok gb"
  shows "\<exists>dev. (\<exists>h0. gb_SerialNumber gb h0 dev = Inr serial) \<and>
      controls h' = controls h @ (if gb_Product gb dev \<in> set usbAccessoryIds then [] else map (Pair dev) accessory_requests) \<and>
      map ct_idx accessory_requests = [0, 1, 2, 3, 4, 5, 0] \<and> map ct_request accessory_requests = [52, 52, 52, 52, 52, 52, 53] \<and>
      opens h + 2 \<le> opens h' \<and> opens h' \<le> opens h + 4"
  using configureAOA_ok(2) [OF assms refl]
  by (auto simp: prepared_def accessory_requests_def sendString_req_def start_req_def)

theorem configureAOA_protocol_witness:
  "controls (snd (configureAOA demo_bus ''A'' [])) = map (Pair 1) accessory_requests"
proof -
  have c: "configureAOA demo_bus ''A'' [] = (Inr 1, snd (configureAOA demo_bus ''A'' []))" by code_simp
  have "bus_ok demo_bus" by (simp add: bus_ok_def demo_bus_def)
  from configureAOA_protocol [OF c this] obtain dev where
    "\<exists>h0. gb_SerialNumber demo_bus h0 dev = Inr ''A''"
    "controls (snd (configureAOA demo_bus ''A'' [])) =
       controls [] @ (if gb_Product demo_bus dev \<in> set usbAccessoryIds then [] else map (Pair dev) accessory_requests)" by blast
  then show ?thesis by (auto simp: demo_bus_def usbAccessoryIds_def split: if_splits)
qed

text \<open>
  Devices that are lost. A bus error leaves every device open that was opened with it; a device whose active
  configuration cannot be read stays open after the failed connection; and \<open>Reset\<close> never closes the device it found.
\<close>

theorem usb_devices_lost:
  "(gb_OpenDevices gb (\<lambda>v. v = googleVendorID) h = (devs, Some e) \<longrightarrow>
      findDevice gb serial h = (Inl e, h @ [OpenDevs devs]) \<and> live (h @ [OpenDevs devs]) d = live h d + int (count_list devs d)) \<and>
   (configureAOA gb serial h = (Inr dev, h1) \<and> gb_ActiveConfigNum gb h1 dev = Inl e \<and> bus_ok gb \<longrightarrow>
      usb_Connect gb serial h = (Inl e, h1 @ [ReadConfigNum dev]) \<and> live (h1 @ [ReadConfigNum dev]) dev = live h dev + 1) \<and>
   (findDevice gb serial h = (Inr dev, h2) \<and> bus_ok gb \<longrightarrow>
      usb_Reset gb serial h = (gb_Reset gb h2 dev, h2 @ [ResetDev dev]) \<and> live (h2 @ [ResetDev dev]) dev = live h dev + 1)"
  using configureAOA_ok(1) [of gb serial h "Inr dev" h1 dev] findDevice_ok(1) [of gb serial h "Inr dev" h2 dev]
  by (auto simp: findDevice_def usb_Connect_def activeConfig_def usb_Reset_def live_def)

theorem usb_devices_lost_witness:
  "usb_Connect (demo_bus\<lparr>gb_ActiveConfigNum := \<lambda>h d. Inl EOF\<rparr>) ''A'' [] =
     (Inl EOF, snd (configureAOA demo_bus ''A'' []) @ [ReadConfigNum 1]) \<and>
   live (snd (configureAOA demo_bus ''A'' []) @ [ReadConfigNum 1]) 1 = 1"
proof -
  let ?gb = "demo_bus\<lparr>gb_ActiveConfigNum := \<lambda>h d. Inl EOF\<rparr>"
  have c: "configureAOA ?gb ''A'' [] = (Inr 1, snd (configureAOA demo_bus ''A'' []))" by code_simp
  have b: "bus_ok ?gb" by (simp add: bus_ok_def demo_bus_def)
  have a: "gb_ActiveConfigNum ?gb (snd (configureAOA demo_bus ''A'' [])) 1 = Inl EOF" by simp
  have "live [] 1 = 0" by (simp add: live_def)
  then show ?thesis using usb_devices_lost [of ?gb "[]" _ EOF "''A''" _ 1 "snd (configureAOA demo_bus ''A'' [])"] a b c by simp
qed

text \<open>
  Which interface is used: the first accessory setting of the last interface that has one.
\<close>

lemma aoa_setting_last:
  "aoa_setting found ids =
     (case filter (\<lambda>alts. list_ex is_aoa alts) ids of [] \<Rightarrow> found | xs \<Rightarrow> find is_aoa (last xs))"
proof (induction ids arbitrary: found)
  case (Cons alts ids)
  show ?case
  proof (cases "list_ex is_aoa alts")
    case True
    then obtain s where "find is_aoa alts = Some s" by (cases "find is_aoa alts") (auto simp: find_None_iff list_ex_iff)
    then show ?thesis using Cons True by (auto split: list.splits)
  next
    case False
    then have "find is_aoa alts = None" by (auto simp: find_None_iff list_ex_iff)
    then show ?thesis using Cons False by simp
  qed
qed simp

end
