(* ===== verification/UsbTools.thy ===== *)
theory UsbTools
  imports Usb Daemons
begin

text \<open>
  The programs of the USB transport: \<open>forward/forward_usb_bin.go\<close>, which joins a listening address with the streams of
  a USB accessory, \<open>bootstrap/bootstrap_usb_bin.go\<close>, which brings the transport up through adb, and the main program
  of \<open>forkfd/forkfd.go\<close>, which hands every connection of a port to a child of its own. A program
  that fails ends with the underlying error; the text that is logged with it is not modelled in full.
\<close>

section \<open>The forwarder\<close>

datatype usb_builder = UsbDial string string | UsbAccessory string

record usb_forward_env =
  uf_open :: "usb_builder \<Rightarrow> go_error option"
  uf_accept :: "go_error option"
  uf_listen :: "string \<Rightarrow> string \<Rightarrow> go_error option"

datatype usb_forward_run = UsbDied go_error | UsbCrashed | UsbForwarding usb_builder string string

definition usb_forward_builder :: "ParsedAddr \<Rightarrow> usb_builder outcome" where
  "usb_forward_builder cpa =
     (if pa_Kind cpa = Unix \<or> pa_Kind cpa = Tcp then Return (UsbDial (pa_Kind cpa) (pa_Addr cpa))
      else if pa_Kind cpa = Mux then
        (case pa_MuxAddr cpa of None \<Rightarrow> Panic | Some m \<Rightarrow> Return (UsbAccessory (pa_Addr m)))
      else Fail (Errorf (''Unsupported network type: '' @ pa_Kind cpa)))"

definition usb_forward_main :: "usb_forward_env \<Rightarrow> string \<Rightarrow> string \<Rightarrow> usb_forward_run" where
  "usb_forward_main env listenAddr connectAddr =
     (if listenAddr = [] \<or> connectAddr = [] then UsbDied (Errorf ''Need to specify -listen_addr and -connect_addr.'')
      else case ParseAddr connectAddr of
        Inl e \<Rightarrow> UsbDied e
      | Inr cpa \<Rightarrow>
          (case ParseAddr listenAddr of
             Inl e \<Rightarrow> UsbDied e
           | Inr lpa \<Rightarrow>
               (case usb_forward_builder cpa of
                  Panic \<Rightarrow> UsbCrashed
                | Fail e \<Rightarrow> UsbDied e
                | Return b \<Rightarrow>
                    (case first_err [uf_open env b, uf_accept env] of
                       Some e \<Rightarrow> UsbDied e
                     | None \<Rightarrow>
                         if pa_Kind lpa = Unix \<or> pa_Kind lpa = Tcp then
                           (case uf_listen env (pa_Kind lpa) (pa_Addr lpa) of
                              Some e \<Rightarrow> UsbDied e
                            | None \<Rightarrow> UsbForwarding b (pa_Kind lpa) (pa_Addr lpa))
                         else UsbDied (Errorf (''Unsupported network type: '' @ pa_Kind cpa))))))"

text \<open>
  The loop: \<open>cy\<close> is the stream that was opened in advance, \<open>lis\<close> and \<open>strms\<close> what the listener and the accessory
  give next. The result is the pairs that are joined and the error that ends the program, if the input suffices.
\<close>

fun usb_forward_loop :: "'c \<Rightarrow> 'c result list \<Rightarrow> 'c result list \<Rightarrow> ('c \<times> 'c) list \<times> go_error option" where
  "usb_forward_loop cy (Inl e # lis) strms = ([], Some e)"
| "usb_forward_loop cy (Inr cx # lis) (Inl e # strms) = ([(cx, cy)], Some e)"
| "usb_forward_loop cy (Inr cx # lis) (Inr cy' # strms) = apfst (Cons (cx, cy)) (usb_forward_loop cy' lis strms)"
| "usb_forward_loop cy (Inr cx # lis) [] = ([(cx, cy)], None)"
| "usb_forward_loop cy [] strms = ([], None)"


section \<open>The bootstrap\<close>

record usb_boot_flags =
  bu_usbServiceAPK :: string
  bu_forwarderBin :: string
  bu_waterfallBin :: string
  bu_forkfdBin :: string
  bu_adbBin :: string
  bu_adbDeviceSerial :: string
  bu_adbServerPort :: string
  bu_waterfallServicePort :: string

definition waterfallDevicePath :: string where "waterfallDevicePath = ''/data/local/tmp/waterfall''"
definition forkfdDevicePath :: string where "forkfdDevicePath = ''/data/local/tmp/forkfd''"
definition usbPackageName :: string where "usbPackageName = ''com.google.waterfall.usb''"
definition sdkProp :: string where "sdkProp = ''ro.build.version.sdk''"

definition service_args :: "int \<Rightarrow> string \<Rightarrow> string list" where
  "service_args v port =
     [''am''] @ (if v \<ge> 26 then [''start-foreground-service''] else [''startservice'']) @
     [''-a'', ''proxy'', ''-n'', usbPackageName @ ''/.UsbService'', ''--ei'', ''waterfallPort'', port]"

definition fork_args :: "string \<Rightarrow> string list" where
  "fork_args port = [forkfdDevicePath, ''-fork'', ''-binary_to_launch'', waterfallDevicePath, ''--addr'', ''localhost:'' @ port]"

text \<open>
  \<open>adb i\<close> answers the \<open>i\<close>-th use of adb, \<open>dial\<close> is the attempt to reach a forwarder that runs already and \<open>startErr\<close> the
  start of the new one. The result is the command line of the forwarder that was started, or \<open>None\<close> if there was
  nothing to do. The outcome of the three commands that clean up is ignored, unless one panics.
\<close>

definition usb_boot_main ::
    "(nat \<Rightarrow> adb_runner) \<Rightarrow> go_error option \<Rightarrow> go_error option \<Rightarrow> usb_boot_flags \<Rightarrow> string list option outcome"
where
  "usb_boot_main adb dial startErr fl =
     (if bu_forwarderBin fl = [] \<or> bu_waterfallBin fl = [] \<or> bu_forkfdBin fl = [] \<or> bu_adbBin fl = [] \<or>
         bu_adbDeviceSerial fl = [] \<or> bu_adbServerPort fl = [] \<or> bu_usbServiceAPK fl = []
      then Fail (Errorf ''Need to provide -forwarder_bin, -waterfall_bin, -forkfd_bin, -adb_bin and -adb_device_serial when bootstrapping.'')
      else if dial = None then Return None
      else
        let d = \<lparr>dv_AdbPath = bu_adbBin fl, dv_DeviceName = bu_adbDeviceSerial fl, dv_AdbServerPort = bu_adbServerPort fl\<rparr>;
            devAddr = ''unix:@h2o_'' @ bu_adbDeviceSerial fl
        in case Connect (adb 0) (adb 1) d of
             Some e \<Rightarrow> Fail (Errorf (''Error connecting to device '' @ dv_DeviceName d @ '': '' @ error_text e))
           | None \<Rightarrow>
          (case first_err [Device_Push (adb 2) d (bu_waterfallBin fl) waterfallDevicePath,
                           Device_Push (adb 3) d (bu_forkfdBin fl) forkfdDevicePath,
                           map_option (\<lambda>e. Errorf (''Failed to install USB service: '' @ error_text e))
                             (snd (Device_Install (adb 4) d (bu_usbServiceAPK fl)))] of
             Some e \<Rightarrow> Fail e
           | None \<Rightarrow>
               if Shell (adb 5) d [''pkill'', ''forkfd''] = Panic \<or> Shell (adb 6) d [''pkill'', ''waterfall''] = Panic \<or>
                  Shell (adb 7) d [''am'', ''force-stop'', usbPackageName] = Panic
               then Panic
               else
                 obind (Shell (adb 8) d (fork_args (bu_waterfallServicePort fl))) (\<lambda>_.
                 obind (Shell (adb 9) d [''getprop'', sdkProp]) (\<lambda>out.
                 obind (lift_result (atoi out)) (\<lambda>v.
                 obind (Shell (adb 10) d (service_args v (bu_waterfallServicePort fl))) (\<lambda>_.
                 case startErr of
                   Some e \<Rightarrow> Fail e
                 | None \<Rightarrow>
                     Return (Some [bu_forwarderBin fl, ''-connect_addr'', ''mux:usb:'' @ bu_adbDeviceSerial fl,
                                   ''-listen_addr'', devAddr])))))))"


section \<open>Handing connections over\<close>

text \<open>
  \<open>main\<close> of forkfd: the command line of the copy it starts, or the address it listens on and, for each
  connection, what the child is started with. \<open>rest\<close>: the arguments behind the flags.
\<close>

datatype forkfd_run = ForkDied go_error | ForkedCopy "string list" | Launching string "string list"

definition forkfd_main :: "go_error option \<Rightarrow> (string \<Rightarrow> go_error option) \<Rightarrow> string \<Rightarrow> string \<Rightarrow> bool \<Rightarrow> string \<Rightarrow> string list \<Rightarrow> forkfd_run" where
  "forkfd_main startErr listen self addr fork binaryToLaunch rest =
     (if addr = [] then ForkDied (Errorf ''Need to provide -addr.'')
      else if binaryToLaunch = [] then ForkDied (Errorf ''Need to provide -binary_to_launch.'')
      else if fork then
        (case startErr of
           Some e \<Rightarrow> ForkDied e
         | None \<Rightarrow> ForkedCopy [self, ''-addr'', addr, ''-binary_to_launch'', binaryToLaunch])
      else
        (case listen addr of
           Some e \<Rightarrow> ForkDied (Errorf (''Failed to listen: '' @ error_text e))
         | None \<Rightarrow> Launching addr (launch_args binaryToLaunch rest)))"

text \<open>
  The flags of forkfd, as \<open>flag.Parse\<close> reads them: with one dash or two, up to the first argument that is not a flag.
\<close>

record forkfd_args =
  ff_addr :: string
  ff_fork :: bool
  ff_binaryToLaunch :: string
  ff_rest :: "string list"

definition forkfd_defaults :: forkfd_args where
  "forkfd_defaults = \<lparr>ff_addr = ''localhost:8080'', ff_fork = False, ff_binaryToLaunch = [], ff_rest = []\<rparr>"

fun forkfd_flags :: "string list \<Rightarrow> forkfd_args \<Rightarrow> forkfd_args option" where
  "forkfd_flags [] f = Some f"
| "forkfd_flags (a # as) f =
     (if a = ''-fork'' \<or> a = ''--fork'' then forkfd_flags as (f\<lparr>ff_fork := True\<rparr>)
      else if \<not> prefix ''-'' a then Some (f\<lparr>ff_rest := a # as\<rparr>)
      else case as of
        [] \<Rightarrow> None
      | v # rest \<Rightarrow>
          if a = ''-addr'' \<or> a = ''--addr'' then forkfd_flags rest (f\<lparr>ff_addr := v\<rparr>)
          else if a = ''-binary_to_launch'' \<or> a = ''--binary_to_launch'' then forkfd_flags rest (f\<lparr>ff_binaryToLaunch := v\<rparr>)
          else None)"

definition run_forkfd :: "go_error option \<Rightarrow> (string \<Rightarrow> go_error option) \<Rightarrow> string list \<Rightarrow> forkfd_run option" where
  "run_forkfd startErr listen argv =
     (case argv of
        [] \<Rightarrow> None
      | self # args \<Rightarrow>
          map_option (\<lambda>f. forkfd_main startErr listen self (ff_addr f) (ff_fork f) (ff_binaryToLaunch f) (ff_rest f))
            (forkfd_flags args forkfd_defaults))"

text \<open>
  A turn of its loop: the child's command line and the connection that is closed once the child has ended,
  whatever the child's outcome was, or the error that ends the program.
\<close>

definition forkfd_turn :: "'c result \<Rightarrow> go_error option \<Rightarrow> string \<Rightarrow> string list \<Rightarrow> (string list \<times> 'c) result" where
  "forkfd_turn acc rawErr binaryToLaunch rest =
     (case acc of
        Inl e \<Rightarrow> Inl (Errorf (''Failed to accept: '' @ error_text e))
      | Inr conn \<Rightarrow>
          (case rawErr of
             Some e \<Rightarrow> Inl (Errorf (''Failed to get raw conn: '' @ error_text e))
           | None \<Rightarrow> Inr (launch_args binaryToLaunch rest, conn)))"


section \<open>Facts\<close>

lemma ParseAddr_usb: "ParseAddr (''mux:usb:'' @ s) = Inr (ParsedAddr Mux [] [] 0 (Some (ParsedAddr Usb s [] 0 None)))"
proof -
  have "wf_addr (ParsedAddr Mux [] [] 0 (Some (ParsedAddr Usb s [] 0 None)))" by (simp add: kind_defs validKinds_def)
  from ParseAddr_show_wf [OF this] show ?thesis by (simp add: kind_defs)
qed

lemma ParseAddr_unix: "ParseAddr (''unix:'' @ a) = Inr (ParsedAddr Unix a [] 0 None)"
proof -
  have "wf_addr (ParsedAddr Unix a [] 0 None)" by (simp add: kind_defs validKinds_def)
  from ParseAddr_show_wf [OF this] show ?thesis by (simp add: kind_defs)
qed

text \<open>Every connection is joined with a stream of its own, in the order in which they come.\<close>

lemma usb_forward_loop_pairs: "\<exists>k. fst (usb_forward_loop cy lis strms) = take k (zip [x. Inr x \<leftarrow> lis] (cy # [y. Inr y \<leftarrow> strms]))"
proof (induction cy lis strms rule: usb_forward_loop.induct)
  case (3 cy cx lis cy' strms)
  then obtain k where "fst (usb_forward_loop cy' lis strms) = take k (zip [x. Inr x \<leftarrow> lis] (cy' # [y. Inr y \<leftarrow> strms]))" by blast
  then show ?case by (intro exI [of _ "Suc k"]) simp
next
  case (2 cy cx lis e strms)
  show ?case by (intro exI [of _ 1]) simp
next
  case (4 cy cx lis)
  show ?case by (intro exI [of _ 1]) simp
qed (auto intro: exI [of _ 0])


section \<open>Properties\<close>

text \<open>
  The USB bootstrap. When it reports success after starting a forwarder, the forwarder it started connects to the
  accessory with the serial number of the device, and listens on the abstract socket of that device, whatever the
  serial number is; without an error of the environment it reaches its loop.
\<close>

theorem usb_bootstrap_forwarder:
  assumes "usb_boot_main adb dial startErr fl = Return (Some args)"
  shows "dial \<noteq> None \<and> args = [bu_forwarderBin fl, ''-connect_addr'', args ! 2, ''-listen_addr'', args ! 4] \<and>
    (uf_open env (UsbAccessory (bu_adbDeviceSerial fl)) = None \<and> uf_accept env = None \<and>
       uf_listen env ''unix'' (''@h2o_'' @ bu_adbDeviceSerial fl) = None \<longrightarrow>
     usb_forward_main env (args ! 4) (args ! 2) =
       UsbForwarding (UsbAccessory (bu_adbDeviceSerial fl)) ''unix'' (''@h2o_'' @ bu_adbDeviceSerial fl))"
proof -
  have a: "dial \<noteq> None" "args = [bu_forwarderBin fl, ''-connect_addr'', ''mux:usb:'' @ bu_adbDeviceSerial fl, ''-listen_addr'', ''unix:@h2o_'' @ bu_adbDeviceSerial fl]"
    using assms by (auto simp: usb_boot_main_def Let_def split: if_splits option.splits)
  show ?thesis
    using a ParseAddr_usb [of "bu_adbDeviceSerial fl"] ParseAddr_unix [of "''@h2o_'' @ bu_adbDeviceSerial fl"]
    by (simp add: usb_forward_main_def usb_forward_builder_def kind_defs)
qed

theorem usb_bootstrap_forwarder_witness:
  "usb_boot_main (\<lambda>i args. (if i = 0 then ''S1 device'' else ''28'' @ [CHR 0x0A] @ ''ret=0'', None)) (Some EOF) None
     \<lparr>bu_usbServiceAPK = ''u.apk'', bu_forwarderBin = ''fwd'', bu_waterfallBin = ''w'', bu_forkfdBin = ''f'', bu_adbBin = ''adb'',
      bu_adbDeviceSerial = ''S1'', bu_adbServerPort = ''5037'', bu_waterfallServicePort = ''8080''\<rparr> =
     Return (Some [''fwd'', ''-connect_addr'', ''mux:usb:S1'', ''-listen_addr'', ''unix:@h2o_S1'']) \<and>
   usb_forward_main \<lparr>uf_open = \<lambda>_. None, uf_accept = None, uf_listen = \<lambda>_ _. None\<rparr> ''unix:@h2o_S1'' ''mux:usb:S1'' =
     UsbForwarding (UsbAccessory ''S1'') ''unix'' ''@h2o_S1''"
proof -
  let ?adb = "\<lambda>i args. (if i = 0 then ''S1 device'' else ''28'' @ [CHR 0x0A] @ ''ret=0'', None)"
  let ?fl = "\<lparr>bu_usbServiceAPK = ''u.apk'', bu_forwarderBin = ''fwd'', bu_waterfallBin = ''w'', bu_forkfdBin = ''f'', bu_adbBin = ''adb'',
      bu_adbDeviceSerial = ''S1'', bu_adbServerPort = ''5037'', bu_waterfallServicePort = ''8080''\<rparr>"
  let ?env = "\<lparr>uf_open = \<lambda>_. None, uf_accept = None, uf_listen = \<lambda>_ _. None\<rparr>"
  have b: "usb_boot_main ?adb (Some EOF) None ?fl =
     Return (Some [''fwd'', ''-connect_addr'', ''mux:usb:S1'', ''-listen_addr'', ''unix:@h2o_S1''])" by code_simp
  from usb_bootstrap_forwarder [OF b, of ?env] show ?thesis using b by simp
qed

text \<open>
  The arguments behind the flags of forkfd are given to every child, but not when forkfd is asked to fork: the copy that
  does the work is started without them.
\<close>

lemma forkfd_fork_drops_arguments:
  assumes "addr \<noteq> []" "bin \<noteq> []"
  shows "forkfd_main None (\<lambda>_. None) self addr False bin rest = Launching addr ([bin, ''-addr'', ''mux:fd:3''] @ rest)"
    and "forkfd_main None listen self addr True bin rest = ForkedCopy [self, ''-addr'', addr, ''-binary_to_launch'', bin]"
proof -
  have "show_nat 3 = ''3''" by code_simp
  then show "forkfd_main None (\<lambda>_. None) self addr False bin rest = Launching addr ([bin, ''-addr'', ''mux:fd:3''] @ rest)"
    using assms by (simp add: forkfd_main_def launch_args_def)
  show "forkfd_main None listen self addr True bin rest = ForkedCopy [self, ''-addr'', addr, ''-binary_to_launch'', bin]"
    using assms by (simp add: forkfd_main_def)
qed

text \<open>
  The device's side of the USB bootstrap. The command line with which the bootstrap starts forkfd makes it start a copy of
  itself; the copy listens on the port that the USB service is told to connect to; and the server that the copy
  starts for a connection serves a multiplexer on the file descriptor that it inherits, for every port.
\<close>

theorem usb_server_chain:
  assumes "listen (''localhost:'' @ port) = None" and "sv_isSnapshot env = Inr False" and "sv_open env (LisMux 3) = None"
  shows "\<exists>copy args fl. run_forkfd None listen (fork_args port) = Some (ForkedCopy copy) \<and>
    run_forkfd None listen copy = Some (Launching (''localhost:'' @ port) (waterfallDevicePath # args)) \<and>
    parse_flags args default_flags = Some fl \<and> server_main env fl = Serving (LisMux 3) False [] \<and>
    last (service_args v port) = port"
proof -
  let ?copy = "[forkfdDevicePath, ''-addr'', ''localhost:'' @ port, ''-binary_to_launch'', waterfallDevicePath]"
  let ?fl = "default_flags\<lparr>sf_addr := ''mux:fd:3''\<rparr>"
  have bin: "waterfallDevicePath \<noteq> []" by (simp add: waterfallDevicePath_def)
  have 1: "run_forkfd None listen (fork_args port) = Some (ForkedCopy ?copy)"
    using forkfd_fork_drops_arguments(2) [of "''localhost:'' @ port" waterfallDevicePath listen forkfdDevicePath "[]"] bin
    by (simp add: run_forkfd_def fork_args_def forkfd_defaults_def)
  have n: "show_nat 3 = ''3''" by code_simp
  have 2: "run_forkfd None listen ?copy = Some (Launching (''localhost:'' @ port) (waterfallDevicePath # [''-addr'', ''mux:fd:3'']))"
    using assms(1) bin by (simp add: run_forkfd_def forkfd_defaults_def forkfd_main_def launch_args_def n)
  have "ParseAddr ''mux:fd:3'' = Inr (ParsedAddr Mux [] [] 0 (Some (ParsedAddr Fd [] [] 3 None)))" by code_simp
  then have "server_main env ?fl = Serving (LisMux 3) False []"
    using assms(2,3) by (simp add: server_main_def server_listener_def server_serve_def default_flags_def kind_defs)
  moreover have "parse_flags [''-addr'', ''mux:fd:3''] default_flags = Some ?fl" by simp
  moreover have "last (service_args v port) = port" by (simp add: service_args_def)
  ultimately show ?thesis using 1 2 by blast
qed

theorem usb_server_chain_witness:
  "\<exists>copy args fl. run_forkfd None (\<lambda>_. None) (fork_args ''8080'') = Some (ForkedCopy copy) \<and>
    run_forkfd None (\<lambda>_. None) copy = Some (Launching ''localhost:8080'' (waterfallDevicePath # args)) \<and>
    parse_flags args default_flags = Some fl"
  using usb_server_chain [of "\<lambda>_. None" "''8080''"
      "\<lparr>sv_isSnapshot = Inr False, sv_open = \<lambda>_. None, sv_listen = Inl EOF, sv_start = None, sv_keys = None\<rparr>" 26]
  by auto

end
