(* ===== verification/ExecInput.thy ===== *)
theory ExecInput
  imports RemoteExec Stream Runs
begin

text \<open>
  The rest of remote execution. On the client, \<open>Exec\<close> of \<open>client/client.go\<close> with its goroutines: the one that
  copies the standard input to the stream (\<open>cancelCopy\<close> with its inner goroutine and the unbuffered \<open>errCh\<close>),
  the receiving loop, the channel \<open>earlyExitCh\<close> and the error group; shown for every interleaving. On the
  server, the parts of \<open>Exec\<close> of \<open>server/server.go\<close> around the process: \<open>chanWriter\<close>, the goroutine that feeds
  the process's standard input, and the deferred calls on the process.
\<close>

section \<open>The server's side\<close>

text \<open>
  \<open>chanWriter\<close>: the chunks are copied onto the channel. The channel is the list of all chunks ever put on
  it; that a full channel delays the writer is part of the merging loop.
\<close>

definition chanWriter_Write :: "bytes list \<Rightarrow> bytes \<Rightarrow> (nat \<times> go_error option) \<times> bytes list" where
  "chanWriter_Write c b = (let nb = b in ((length nb, None), c @ [nb]))"

interpretation chan_writer: io_writer chanWriter_Write "\<lambda>_. True" concat
  by unfold_locales (simp add: chanWriter_Write_def Let_def)

interpretation chan_copy: io_pipe input_read in_delivers in_work chanWriter_Write "\<lambda>_. True" concat
  ..

text \<open>
  The goroutine that feeds the process: it copies the messages behind the first to the process's input
  and closes it, whatever the copy returned. The result is what the process can read, and that the pipe
  was closed; \<open>None\<close> if the copy does not end.
\<close>

definition stdin_goroutine :: "nat \<Rightarrow> CmdProgress sreader \<Rightarrow> sink \<Rightarrow> (bytes \<times> bool) option" where
  "stdin_goroutine fuel r si =
     map_option (\<lambda>(_, _, si'). (snk_bytes si', True)) (io_copy fuel (Reader_Read exec_GetBytes) sink_write r si)"

text \<open>
  \<open>os.Process\<close> as far as the deferred calls need it. \<open>Kill\<close> of a released or a finished process is an error
  and has no effect.
\<close>

record os_process =
  op_released :: bool
  op_done :: bool
  op_killed :: bool

definition Process_Release :: "os_process \<Rightarrow> os_process" where
  "Process_Release p = p\<lparr>op_released := True\<rparr>"

definition Process_Kill :: "os_process \<Rightarrow> os_process" where
  "Process_Kill p = (if op_released p \<or> op_done p then p else p\<lparr>op_killed := True\<rparr>)"

text \<open>Deferred calls run in the reverse of the order in which they were deferred.\<close>

definition run_defers :: "('a \<Rightarrow> 'a) list \<Rightarrow> 'a \<Rightarrow> 'a" where
  "run_defers ds p = foldr (\<lambda>f. f) ds p"

definition exec_defers :: "os_process \<Rightarrow> os_process" where
  "exec_defers = run_defers [Process_Kill, Process_Release]"

text \<open>
  The process after a call of the server's \<open>Exec\<close> that started it: it was waited for only when the group
  ended without an error.
\<close>

definition exec_process :: "exec_env \<Rightarrow> bool list \<Rightarrow> (nat \<Rightarrow> go_error option) \<Rightarrow> os_process option" where
  "exec_process env sch sendErr =
     (case exec_mux sch sendErr 0 True True (xe_out env) (xe_err env) of
        None \<Rightarrow> None
      | Some (muxErr, ms, os, es) \<Rightarrow>
          if \<not> copies_end os es then None
          else Some (exec_defers
                 \<lparr>op_released = False, op_done = (first_err [xe_outErr env, xe_errErr env, muxErr] = None), op_killed = False\<rparr>))"


section \<open>The client's goroutines\<close>

text \<open>
  The inner goroutine of \<open>cancelCopy\<close>: it copies, then sends the result on the unbuffered \<open>errCh\<close>. The
  group's goroutine: it waits in the \<open>select\<close>, calls \<open>CloseSend\<close>, and ends with an error or nil. When the copy failed it
  returns \<open>err\<close>, which outside the \<open>if\<close> is not the error of the copy but the variable of the enclosing function, nil here.
\<close>

datatype copier = NoCopy | Copies | Sends "go_error option" | CopyEnded "go_error option"

datatype feeder = NoFeeder | Selects | Closes | FeederEnded "go_error option"

datatype caller = Receives | Waits | Returned "(bytes \<times> bytes \<times> int) outcome"

record xclient =
  xc_copier :: copier
  xc_feeder :: feeder
  xc_early :: bool
  xc_sendClosed :: bool
  xc_caller :: caller
  xc_inbox :: "CmdProgress list"
  xc_out :: bytes
  xc_err :: bytes
  xc_last :: "CmdProgress option"

text \<open>
  The start of \<open>Exec\<close>: opening the stream, sending the request, and, without an input, closing the sending
  side at once. The result is the error returned, or the state in which the receiving loop starts.
\<close>

definition exec_begin ::
    "go_error option \<Rightarrow> go_error option \<Rightarrow> go_error option \<Rightarrow> bool \<Rightarrow> CmdProgress list \<Rightarrow> xclient result"
where
  "exec_begin openErr sendErr closeErr stdin ms =
     (case first_err [openErr, sendErr, if stdin then None else closeErr] of
        Some e \<Rightarrow> Inl e
      | None \<Rightarrow> Inr \<lparr>xc_copier = (if stdin then Copies else NoCopy), xc_feeder = (if stdin then Selects else NoFeeder),
                    xc_early = False, xc_sendClosed = (\<not> stdin), xc_caller = Receives, xc_inbox = ms, xc_out = [], xc_err = [], xc_last = None\<rparr>)"

text \<open>One turn of the receiving loop; \<open>fin\<close> is what \<open>Recv\<close> returns after the last message.\<close>

definition recv_turn :: "client_writer \<Rightarrow> client_writer \<Rightarrow> go_error \<Rightarrow> xclient \<Rightarrow> xclient" where
  "recv_turn wo we fin s =
     (case xc_inbox s of
        [] \<Rightarrow> if fin = EOF then s\<lparr>xc_early := True, xc_caller := Waits\<rparr> else s\<lparr>xc_caller := Returned (Fail fin)\<rparr>
      | m # ms \<Rightarrow>
          (case client_write wo (xc_out s) (cp_stdout m) of
             Inl e \<Rightarrow> s\<lparr>xc_caller := Returned (Fail e)\<rparr>
           | Inr o2 \<Rightarrow>
               (case client_write we (xc_err s) (cp_stderr m) of
                  Inl e \<Rightarrow> s\<lparr>xc_caller := Returned (Fail e)\<rparr>
                | Inr e2 \<Rightarrow> s\<lparr>xc_inbox := ms, xc_out := o2, xc_err := e2, xc_last := Some m\<rparr>)))"

text \<open>What \<open>eg.Wait\<close> returns: nothing while the group's goroutine runs.\<close>

definition group_result :: "feeder \<Rightarrow> go_error option option" where
  "group_result f = (case f of NoFeeder \<Rightarrow> Some None | FeederEnded e \<Rightarrow> Some e | _ \<Rightarrow> None)"

definition exec_result :: "xclient \<Rightarrow> go_error option \<Rightarrow> (bytes \<times> bytes \<times> int) outcome" where
  "exec_result s err =
     (case err of
        Some e \<Rightarrow> Fail e
      | None \<Rightarrow> (case xc_last s of None \<Rightarrow> Panic | Some m \<Rightarrow> Return (xc_out s, xc_err s, uint (cp_exit_code m))))"

inductive xstep :: "client_writer \<Rightarrow> client_writer \<Rightarrow> go_error \<Rightarrow> xclient \<Rightarrow> xclient \<Rightarrow> bool"
  for wo we fin
where
  copy_ends: "xc_copier s = Copies \<Longrightarrow> xstep wo we fin s (s\<lparr>xc_copier := Sends e\<rparr>)"
| copy_result: "xc_copier s = Sends e \<Longrightarrow> xc_feeder s = Selects \<Longrightarrow>
    xstep wo we fin s (s\<lparr>xc_copier := CopyEnded e, xc_feeder := (if e = None \<or> e = Some EOF then Closes else FeederEnded None)\<rparr>)"
| early_exit: "xc_feeder s = Selects \<Longrightarrow> xc_early s \<Longrightarrow> xstep wo we fin s (s\<lparr>xc_feeder := Closes\<rparr>)"
| close_send: "xc_feeder s = Closes \<Longrightarrow> xstep wo we fin s (s\<lparr>xc_feeder := FeederEnded e, xc_sendClosed := True\<rparr>)"
| receive: "xc_caller s = Receives \<Longrightarrow> xstep wo we fin s (recv_turn wo we fin s)"
| wait: "xc_caller s = Waits \<Longrightarrow> group_result (xc_feeder s) = Some err \<Longrightarrow>
    xstep wo we fin s (s\<lparr>xc_caller := Returned (exec_result s err)\<rparr>)"

inductive xreach :: "client_writer \<Rightarrow> client_writer \<Rightarrow> go_error \<Rightarrow> bool \<Rightarrow> CmdProgress list \<Rightarrow> xclient \<Rightarrow> bool"
  for wo we fin stdin ms
where
  xinit: "exec_begin None None closeErr stdin ms = Inr s \<Longrightarrow> xreach wo we fin stdin ms s"
| xnext: "xreach wo we fin stdin ms s \<Longrightarrow> xstep wo we fin s t \<Longrightarrow> xreach wo we fin stdin ms t"


section \<open>Facts on the client\<close>

lemma recv_turn_frame [simp]:
  "xc_copier (recv_turn wo we fin s) = xc_copier s" "xc_feeder (recv_turn wo we fin s) = xc_feeder s"
  "xc_sendClosed (recv_turn wo we fin s) = xc_sendClosed s"
  by (simp_all add: recv_turn_def split: list.splits sum.splits)

text \<open>The loop, turn by turn, is the receiving loop of the sequential definition.\<close>

definition rest_recv :: "client_writer \<Rightarrow> client_writer \<Rightarrow> go_error \<Rightarrow> xclient \<Rightarrow> (bytes \<times> bytes \<times> CmdProgress option) result" where
  "rest_recv wo we fin s = exec_recv wo we (xc_inbox s) fin (xc_out s) (xc_err s) (xc_last s)"

lemma recv_turn_cases:
  obtains (eof) "recv_turn wo we fin s = s\<lparr>xc_early := True, xc_caller := Waits\<rparr>"
      "rest_recv wo we fin s = Inr (xc_out s, xc_err s, xc_last s)"
    | (fails) e where "recv_turn wo we fin s = s\<lparr>xc_caller := Returned (Fail e)\<rparr>" "rest_recv wo we fin s = Inl e"
    | (more) m ms where "xc_inbox s = m # ms" "xc_inbox (recv_turn wo we fin s) = ms"
      "xc_caller (recv_turn wo we fin s) = xc_caller s" "xc_early (recv_turn wo we fin s) = xc_early s"
      "rest_recv wo we fin (recv_turn wo we fin s) = rest_recv wo we fin s"
proof (cases "xc_inbox s")
  case Nil
  then show ?thesis by (cases "fin = EOF") (auto simp: recv_turn_def rest_recv_def intro: eof fails)
next
  case (Cons m ms)
  show ?thesis
  proof (cases "client_write wo (xc_out s) (cp_stdout m)")
    case (Inl e)
    with Cons show ?thesis by (intro fails [of e]) (simp_all add: recv_turn_def rest_recv_def)
  next
    case o2: (Inr o2)
    show ?thesis
    proof (cases "client_write we (xc_err s) (cp_stderr m)")
      case (Inl e)
      with Cons o2 show ?thesis by (intro fails [of e]) (simp_all add: recv_turn_def rest_recv_def)
    next
      case (Inr e2)
      with Cons o2 show ?thesis by (intro more [of m ms]) (simp_all add: recv_turn_def rest_recv_def)
    qed
  qed
qed

definition caller_ok :: "client_writer \<Rightarrow> client_writer \<Rightarrow> go_error \<Rightarrow> CmdProgress list \<Rightarrow> xclient \<Rightarrow> bool" where
  "caller_ok wo we fin ms s \<longleftrightarrow>
     (case xc_caller s of
        Receives \<Rightarrow> rest_recv wo we fin s = exec_recv wo we ms fin [] [] None
      | Waits \<Rightarrow> exec_recv wo we ms fin [] [] None = Inr (xc_out s, xc_err s, xc_last s) \<and> xc_early s
      | Returned r \<Rightarrow> (\<exists>err. r = client_Exec wo we err ms fin \<and> (err \<noteq> None \<longrightarrow> xc_feeder s = FeederEnded err)))"

lemma feeder_changes:
  "caller_ok wo we fin ms s \<Longrightarrow> (\<forall>e. xc_feeder s \<noteq> FeederEnded e) \<Longrightarrow>
   caller_ok wo we fin ms (s\<lparr>xc_feeder := f\<rparr>) \<and> caller_ok wo we fin ms (s\<lparr>xc_feeder := f, xc_sendClosed := b\<rparr>) \<and> caller_ok wo we fin ms (s\<lparr>xc_copier := c, xc_feeder := f\<rparr>)"
  by (cases "xc_caller s") (auto simp: caller_ok_def rest_recv_def)

lemma xstep_caller_ok:
  assumes "xstep wo we fin s t" "caller_ok wo we fin ms s"
  shows "caller_ok wo we fin ms t"
  using assms
proof (induction rule: xstep.induct)
  case (copy_ends s e)
  then show ?case by (cases "xc_caller s") (auto simp: caller_ok_def rest_recv_def)
next
  case (receive s)
  then have r: "rest_recv wo we fin s = exec_recv wo we ms fin [] [] None" by (simp add: caller_ok_def)
  show ?case
  proof (cases rule: recv_turn_cases [of wo we fin s])
    case eof
    with r show ?thesis by (simp add: caller_ok_def)
  next
    case (fails e)
    with r have "client_Exec wo we None ms fin = Fail e" by (simp add: client_Exec_def flip: r)
    with fails show ?thesis by (auto simp: caller_ok_def intro: exI [of _ None])
  next
    case (more m ms')
    with r receive show ?thesis by (simp add: caller_ok_def)
  qed
next
  case (wait s err)
  then have "exec_result s err = client_Exec wo we err ms fin"
    by (cases err; cases "xc_last s") (simp_all add: caller_ok_def exec_result_def client_Exec_def)
  with wait show ?case
    by (auto simp: caller_ok_def group_result_def split: feeder.splits)
qed (use feeder_changes in auto)

lemma xreach_caller_ok: "xreach wo we fin stdin ms s \<Longrightarrow> caller_ok wo we fin ms s"
proof (induction rule: xreach.induct)
  case (xinit closeErr s)
  then show ?case by (auto simp: exec_begin_def caller_ok_def rest_recv_def split: option.splits)
qed (rule xstep_caller_ok)

definition xwork :: "xclient \<Rightarrow> nat" where
  "xwork s = (case xc_copier s of Copies \<Rightarrow> 2 | Sends _ \<Rightarrow> 1 | _ \<Rightarrow> 0) +
     (case xc_feeder s of Selects \<Rightarrow> 2 | Closes \<Rightarrow> 1 | _ \<Rightarrow> 0) +
     (case xc_caller s of Receives \<Rightarrow> Suc (Suc (length (xc_inbox s))) | Waits \<Rightarrow> 1 | _ \<Rightarrow> 0)"

lemma xstep_work: "xstep wo we fin s t \<Longrightarrow> xwork t < xwork s"
proof (induction rule: xstep.induct)
  case (receive s)
  then show ?case by (cases rule: recv_turn_cases [of wo we fin s]) (simp_all add: xwork_def)
qed (simp_all add: xwork_def split: caller.split)

text \<open>A call that has not returned can go on without its input.\<close>

lemma xstep_without_input:
  assumes "caller_ok wo we fin ms s" "\<forall>r. xc_caller s \<noteq> Returned r"
  shows "\<exists>t. xstep wo we fin s t \<and> xc_copier t = xc_copier s"
proof (cases "xc_caller s")
  case Receives
  from xstep.receive [OF this, of wo we fin] show ?thesis by fastforce
next
  case Waits
  show ?thesis
  proof (cases "group_result (xc_feeder s)")
    case (Some err)
    from xstep.wait [OF Waits Some, of wo we fin] show ?thesis by fastforce
  next
    case None
    have "xc_early s" using assms(1) Waits by (simp add: caller_ok_def)
    moreover from None have "xc_feeder s = Selects \<or> xc_feeder s = Closes"
      by (cases "xc_feeder s") (simp_all add: group_result_def)
    ultimately show ?thesis
      using xstep.early_exit [of s wo we fin] xstep.close_send [of s wo we fin None] by fastforce
  qed
qed (use assms(2) in simp)

interpretation exec_runs: bounded_run "xstep wo we fin" "caller_ok wo we fin ms" xwork "\<lambda>s. \<exists>r. xc_caller s = Returned r"
  for wo we fin ms
  by unfold_locales (auto intro: xstep_caller_ok xstep_work dest: xstep_without_input)

text \<open>The same without the steps of the goroutine that copies the input.\<close>

interpretation inputless: bounded_run "\<lambda>s t. xstep wo we fin s t \<and> xc_copier t = xc_copier s" "\<lambda>s. caller_ok wo we fin ms s \<and> xc_copier s = c"
    xwork "\<lambda>s. \<exists>r. xc_caller s = Returned r"
  for wo we fin ms c
  by unfold_locales (auto intro: xstep_caller_ok xstep_work dest: xstep_without_input)

lemma inputless_run: "(\<lambda>s t. xstep wo we fin s t \<and> xc_copier t = xc_copier s)\<^sup>*\<^sup>* s t \<Longrightarrow> (xstep wo we fin)\<^sup>*\<^sup>* s t"
  by (rule rtranclp_mono [THEN predicate2D]) auto

text \<open>The sending side is closed by the group's goroutine only, and only when the copy did not fail.\<close>

definition send_ok :: "xclient \<Rightarrow> bool" where
  "send_ok s \<longleftrightarrow> (xc_feeder s = Selects \<or> xc_feeder s = Closes \<longrightarrow> \<not> xc_sendClosed s) \<and>
     (\<forall>e. xc_copier s = CopyEnded (Some e) \<and> e \<noteq> EOF \<longrightarrow> xc_feeder s = FeederEnded None \<and> \<not> xc_sendClosed s) \<and>
     (\<forall>e. xc_feeder s = FeederEnded (Some e) \<longrightarrow> xc_sendClosed s)"

lemma xstep_send_ok: "xstep wo we fin s t \<Longrightarrow> send_ok s \<Longrightarrow> send_ok t"
  by (induction rule: xstep.induct) (auto simp: send_ok_def)

lemma xreach_send_ok: "xreach wo we fin stdin ms s \<Longrightarrow> send_ok s"
proof (induction rule: xreach.induct)
  case (xinit closeErr s)
  then show ?case by (auto simp: exec_begin_def send_ok_def split: option.splits if_splits)
qed (rule xstep_send_ok)

text \<open>A copying goroutine whose result nobody waits for never ends.\<close>

definition abandoned :: "xclient \<Rightarrow> bool" where
  "abandoned s \<longleftrightarrow> xc_feeder s \<noteq> Selects \<and> (xc_copier s = Copies \<or> (\<exists>e. xc_copier s = Sends e))"

lemma xstep_abandoned: "xstep wo we fin s t \<Longrightarrow> abandoned s \<Longrightarrow> abandoned t"
  by (induction rule: xstep.induct) (auto simp: abandoned_def)


section \<open>Properties\<close>


definition exec_start :: "bool \<Rightarrow> CmdProgress list \<Rightarrow> xclient" where
  "exec_start stdin ms = \<lparr>xc_copier = (if stdin then Copies else NoCopy), xc_feeder = (if stdin then Selects else NoFeeder),
     xc_early = False, xc_sendClosed = (\<not> stdin), xc_caller = Receives, xc_inbox = ms, xc_out = [], xc_err = [], xc_last = None\<rparr>"

lemma exec_start_reach: "xreach wo we fin stdin ms (exec_start stdin ms)"
  by (rule xinit [of None]) (simp add: exec_begin_def exec_start_def first_err_def)

text \<open>The device's process ends without reading its input, and the caller's input has not ended.\<close>

definition early_state :: "caller \<Rightarrow> feeder \<Rightarrow> xclient" where
  "early_state c f = \<lparr>xc_copier = Copies, xc_feeder = f, xc_early = True, xc_sendClosed = (\<exists>e. f = FeederEnded e), xc_caller = c, xc_inbox = [],
     xc_out = [], xc_err = [], xc_last = Some (exit_msg 3)\<rparr>"

lemma early_reach:
  "xreach accepts accepts EOF True [exit_msg 3] (early_state Waits Closes)"
  "xreach accepts accepts EOF True [exit_msg 3] (early_state (Returned (Return ([], [], 3))) (FeederEnded None))"
proof -
  let ?R = "xreach accepts accepts EOF True [exit_msg 3]"
  let ?s1 = "recv_turn accepts accepts EOF (exec_start True [exit_msg 3])"
  have 1: "?R ?s1" by (rule xnext [OF exec_start_reach receive]) (simp add: exec_start_def)
  have s1: "?s1 = (exec_start True [])\<lparr>xc_last := Some (exit_msg 3)\<rparr>"
    by (simp add: recv_turn_def exec_start_def client_write_def)
  have 2: "?R (recv_turn accepts accepts EOF ?s1)"
    by (rule xnext [OF 1 receive], unfold s1) (simp add: exec_start_def)
  have s2: "recv_turn accepts accepts EOF ?s1 = early_state Waits Selects"
    unfolding s1 by (simp add: recv_turn_def exec_start_def early_state_def)
  from xnext [OF 2 early_exit] show 3: "?R (early_state Waits Closes)"
    by (simp add: s2 early_state_def)
  from xnext [OF 3 close_send [of _ _ _ _ None]] have 4: "?R (early_state Waits (FeederEnded None))"
    by (simp add: early_state_def)
  from xnext [OF 4 wait [of _ None]]
  show "?R (early_state (Returned (Return ([], [], 3))) (FeederEnded None))"
    by (simp add: early_state_def group_result_def exec_result_def)
qed


text \<open>
  (C21) \<open>Exec\<close> on the client always returns, and does not depend on its input to do so: no run of its goroutines is longer than the
  number of messages and six, a run that cannot be continued has returned, and from every state of the call there is a run to
  its return in which the copying of the input makes no step, so a process that exits early ends the call although the
  caller's input stays open.
\<close>

theorem client_Exec_returns:
  assumes "xreach wo we fin stdin ms s"
  shows "(\<exists>t r. (xstep wo we fin)\<^sup>*\<^sup>* s t \<and> xc_caller t = Returned r \<and> xc_copier t = xc_copier s) \<and>
    (\<forall>t. (xstep wo we fin)\<^sup>*\<^sup>* s t \<and> (\<nexists>u. xstep wo we fin t u) \<longrightarrow> (\<exists>r. xc_caller t = Returned r)) \<and>
    (\<forall>n t. (xstep wo we fin ^^ n) (exec_start stdin ms) t \<longrightarrow> n \<le> length ms + 6)"
proof -
  have inv: "caller_ok wo we fin ms s" by (rule xreach_caller_ok [OF assms])
  have start: "caller_ok wo we fin ms (exec_start stdin ms)" by (rule xreach_caller_ok [OF exec_start_reach])
  have "xwork (exec_start stdin ms) \<le> length ms + 6" by (simp add: xwork_def exec_start_def)
  with exec_runs.run_length [OF _ start] have "\<forall>n t. (xstep wo we fin ^^ n) (exec_start stdin ms) t \<longrightarrow> n \<le> length ms + 6"
    by fastforce
  moreover have "\<exists>t r. (xstep wo we fin)\<^sup>*\<^sup>* s t \<and> xc_caller t = Returned r \<and> xc_copier t = xc_copier s"
    using inputless.reaches_end [of wo we fin ms s "xc_copier s"] inv inputless_run by blast
  ultimately show ?thesis using exec_runs.stuck_ended [OF inv] by blast
qed

theorem client_Exec_returns_witness:
  "\<exists>t r. (xstep accepts accepts EOF)\<^sup>*\<^sup>* (exec_start True [exit_msg 3]) t \<and> xc_caller t = Returned r \<and> xc_copier t = Copies"
  using client_Exec_returns [OF exec_start_reach [of accepts accepts EOF True "[exit_msg 3]"]]
  by (simp add: exec_start_def)

text \<open>
  (C22) An error of the input is lost. When copying the caller's input to the stream fails, \<open>Exec\<close> does not report it: the
  goroutine ends with nil, and the result is the one of a call without an error of the input. Nor is the sending side
  closed, in any continuation, so that the process on the device never sees the end of its input.
\<close>

theorem input_error_is_lost:
  assumes "xreach wo we fin stdin ms s" "xc_copier s = CopyEnded (Some e)" "e \<noteq> EOF"
  shows "xc_feeder s = FeederEnded None \<and> \<not> xc_sendClosed s \<and>
    (\<forall>r. xc_caller s = Returned r \<longrightarrow> r = client_Exec wo we None ms fin)"
proof -
  have f: "xc_feeder s = FeederEnded None" "\<not> xc_sendClosed s"
    using xreach_send_ok [OF assms(1)] assms(2,3) by (auto simp: send_ok_def)
  have "r = client_Exec wo we None ms fin" if "xc_caller s = Returned r" for r
    using xreach_caller_ok [OF assms(1)] that f(1) by (auto simp: caller_ok_def)
  with f show ?thesis by blast
qed

text \<open>The copy fails at once, and the process ends with exit code 3.\<close>

definition lost_state :: "caller \<Rightarrow> CmdProgress list \<Rightarrow> CmdProgress option \<Rightarrow> bool \<Rightarrow> xclient" where
  "lost_state c ms l early = \<lparr>xc_copier = CopyEnded (Some ErrClosedPipe), xc_feeder = FeederEnded None, xc_early = early,
     xc_sendClosed = False, xc_caller = c, xc_inbox = ms, xc_out = [], xc_err = [], xc_last = l\<rparr>"

lemma lost_reach: "xreach accepts accepts EOF True [exit_msg 3] (lost_state (Returned (Return ([], [], 3))) [] (Some (exit_msg 3)) True)"
proof -
  let ?R = "xreach accepts accepts EOF True [exit_msg 3]"
  have 1: "?R ((exec_start True [exit_msg 3])\<lparr>xc_copier := Sends (Some ErrClosedPipe)\<rparr>)"
    by (rule xnext [OF exec_start_reach copy_ends]) (simp add: exec_start_def)
  from xnext [OF 1 copy_result [of _ "Some ErrClosedPipe"]] have 2: "?R (lost_state Receives [exit_msg 3] None False)"
    by (simp add: exec_start_def lost_state_def)
  have r1: "recv_turn accepts accepts EOF (lost_state Receives [exit_msg 3] None False) = lost_state Receives [] (Some (exit_msg 3)) False"
    by (simp add: recv_turn_def lost_state_def client_write_def)
  from xnext [OF 2 receive] have 3: "?R (lost_state Receives [] (Some (exit_msg 3)) False)"
    unfolding r1 by (simp add: lost_state_def)
  have r2: "recv_turn accepts accepts EOF (lost_state Receives [] (Some (exit_msg 3)) False) = lost_state Waits [] (Some (exit_msg 3)) True"
    by (simp add: recv_turn_def lost_state_def)
  from xnext [OF 3 receive] have 4: "?R (lost_state Waits [] (Some (exit_msg 3)) True)"
    unfolding r2 by (simp add: lost_state_def)
  from xnext [OF 4 wait [of _ None]] show ?thesis
    by (simp add: lost_state_def group_result_def exec_result_def)
qed

theorem input_error_is_lost_witness:
  "Return ([], [], 3) = client_Exec accepts accepts None [exit_msg 3] EOF"
  using input_error_is_lost [OF lost_reach, of ErrClosedPipe] by (simp add: lost_state_def)

text \<open>
  An early exit leaks the copying goroutine. Once the group's goroutine has left its \<open>select\<close> while the input
  is still being copied, the copying goroutine never ends: when its copy ends it blocks on the unbuffered
  \<open>errCh\<close> for good.
\<close>

theorem early_exit_leaks_copier:
  assumes "abandoned s" "(xstep wo we fin)\<^sup>*\<^sup>* s t"
  shows "xc_copier t \<noteq> CopyEnded e"
proof -
  from assms(2,1) have "abandoned t" by (induction rule: rtranclp_induct) (auto intro: xstep_abandoned)
  then show ?thesis by (auto simp: abandoned_def)
qed

text \<open>
  After an early exit \<open>CloseSend\<close> is called while the copying goroutine may be in \<open>SendMsg\<close>, which gRPC does
  not allow.
\<close>

theorem CloseSend_races_SendMsg:
  "\<exists>s. xreach accepts accepts EOF True [exit_msg 3] s \<and> xc_feeder s = Closes \<and> xc_copier s = Copies \<and> abandoned s"
  using early_reach(1) by (intro exI [of _ "early_state Waits Closes"]) (simp add: early_state_def abandoned_def)

text \<open>
  (C19) Standard input end to end. The client copies its input into messages behind the request, the server's
  goroutine copies the messages behind the request to the process and closes its input: the process reads
  exactly the bytes of the caller's input and then the end of the file, whatever the portions in which
  the input arrives, and however the server's receiving goroutine is scheduled; and both copies end.
\<close>

theorem exec_stdin_end_to_end:
  assumes "in_err i = EOF" and "sd_room s = None" and "sd_sent s = [exec_request cmd args True]"
    and "length (in_chunks i) + length (concat (in_chunks i)) < fuel"
    and "snk_room si = None" and "snk_bytes si = []" and "2 * length (concat (in_chunks i)) < fuel'"
  shows "\<exists>i' s' ms. io_copy fuel input_read (swrite exec_BuildMsg exec_SetBytes) i s = Some (None, i', s') \<and>
    sd_sent s' = exec_request cmd args True # ms \<and>
    stdin_goroutine fuel' (NewReader ms EOF sched) si = Some (concat (in_chunks i), True)"
proof -
  have "in_delivers i (concat (in_chunks i))" "in_work i < fuel"
    using assms(1,4) by (simp_all add: in_delivers_def in_work_def)
  from exec.copied_up [OF assms(2,3) this] obtain i' s' ms where
    up: "io_copy fuel input_read (swrite exec_BuildMsg exec_SetBytes) i s = Some (None, i', s')"
      "sd_sent s' = exec_request cmd args True # ms" "carries exec_GetBytes ms (concat (in_chunks i))"
    by auto
  from copied_down [OF up(3) assms(5,7), of sched] assms(6) up(1,2) show ?thesis by (auto simp: stdin_goroutine_def)
qed

theorem exec_stdin_end_to_end_witness:
  "\<exists>i' s' ms. io_copy 9 input_read (swrite exec_BuildMsg exec_SetBytes) \<lparr>in_chunks = [[1, 2], [], [3]], in_err = EOF\<rparr>
       \<lparr>sd_sent = [exec_request ''cat'' [] True], sd_room = None, sd_err = EOF\<rparr> = Some (None, i', s') \<and>
     sd_sent s' = exec_request ''cat'' [] True # ms \<and>
     stdin_goroutine 9 (NewReader ms EOF [0, 1, 5]) \<lparr>snk_bytes = [], snk_room = None, snk_err = EOF\<rparr> = Some ([1, 2, 3], True)"
  using exec_stdin_end_to_end [of "\<lparr>in_chunks = [[1, 2], [], [3]], in_err = EOF\<rparr>"
      "\<lparr>sd_sent = [exec_request ''cat'' [] True], sd_room = None, sd_err = EOF\<rparr>" "''cat''" "[]" 9
      "\<lparr>snk_bytes = [], snk_room = None, snk_err = EOF\<rparr>" 9 "[0, 1, 5]"]
  by simp

text \<open>
  The chunks that the merging loop receives are the process's output: \<open>io.Copy\<close> into the channel ends and
  puts the whole output on it, in order.
\<close>

theorem exec_output_chunks:
  assumes "in_err i = EOF" and "length (in_chunks i) + length (concat (in_chunks i)) < fuel"
  shows "\<exists>i' cs. io_copy fuel input_read chanWriter_Write i [] = Some (None, i', cs) \<and> concat cs = concat (in_chunks i)"
  using chan_copy.io_copy_all [where r = i and bs = "concat (in_chunks i)" and w = "[]" and fuel = fuel] assms by (auto simp: in_delivers_def in_work_def)

text \<open>
  The deferred \<open>Kill\<close> never kills. \<open>Release\<close> is deferred after \<open>Kill\<close> and therefore runs before it, and a
  released process cannot be killed through its handle: when the call returns early because a message
  could not be sent, the process was neither waited for nor killed by the call.
\<close>

theorem exec_never_kills:
  assumes "exec_process env sch sendErr = Some p"
    and "exec_mux sch sendErr 0 True True (xe_out env) (xe_err env) = Some (Some e, rest)"
  shows "\<not> op_killed p \<and> \<not> op_done p \<and> op_released p"
  using assms
  by (auto simp: exec_process_def exec_defers_def run_defers_def Process_Kill_def Process_Release_def first_err_def
      split: prod.splits if_splits)

end
