(* ===== verification/QemuPipe.thy ===== *)
theory QemuPipe
  imports QemuListen
begin

text \<open>
  The rest of \<open>net/qemu/qemu.go\<close>: how \<open>Pipe.Accept\<close> opens a connection to the host, the wrapper \<open>QemuConn\<close> with its
  addresses and deadlines, the goroutine of \<open>withTimeout\<close>, and closing a \<open>PipeConnBuilder\<close> while a call of its
  \<open>Accept\<close> is under way. The last is a step relation: \<open>Accept\<close> blocks in the device and in the handshake, and \<open>Close\<close>
  runs in another goroutine.
\<close>

section \<open>Opening the connection\<close>

definition qemuDriver :: string where
  "qemuDriver = ''/dev/qemu_pipe''"

definition vsockDriver :: string where
  "vsockDriver = ''/dev/vsock''"

definition cidHost :: nat where
  "cidHost = 2"

definition hostPort :: nat where
  "hostPort = 5002"

text \<open>What is opened, and how the operating system answers.\<close>

datatype opened = DevFile string nat | VsockConn nat nat

definition openQemuDevBlocking :: "(string \<Rightarrow> nat result) \<Rightarrow> opened result" where
  "openQemuDevBlocking sysopen =
     (case sysopen qemuDriver of Inl e \<Rightarrow> Inl e | Inr r \<Rightarrow> Inr (DevFile qemuDriver r))"

definition connFn :: "(string \<Rightarrow> nat result) \<Rightarrow> (nat \<Rightarrow> nat \<Rightarrow> opened result) \<Rightarrow> Pipe \<Rightarrow> opened result" where
  "connFn sysopen dial q =
     (if pp_useVsock q then dial cidHost hostPort else openQemuDevBlocking sysopen)"

text \<open>\<open>qemuAddr\<close>: its network is the driver, its text the name.\<close>

definition qemuAddr_Network :: "string \<Rightarrow> string" where
  "qemuAddr_Network a = qemuDriver"

definition qemuAddr_String :: "string \<Rightarrow> string" where
  "qemuAddr_String a = a"

definition Pipe_Addr :: "Pipe \<Rightarrow> string \<times> string" where
  "Pipe_Addr q = (qemuAddr_Network (pp_socketName q), qemuAddr_String (pp_socketName q))"


section \<open>The wrapper\<close>

text \<open>
  \<open>QemuConn\<close>: reads, writes and closes are those of the embedded connection. A deadline is handed on when the
  embedded connection is a \<open>net.Conn\<close>, which a vsock connection is and a device file is not; \<open>setd\<close> is what
  the embedded connection does with it.
\<close>

record QemuConn =
  qw_conn :: opened

definition MakeQemuConn :: "opened \<Rightarrow> QemuConn" where
  "MakeQemuConn c = \<lparr>qw_conn = c\<rparr>"

definition is_netConn :: "opened \<Rightarrow> bool" where
  "is_netConn c = (case c of VsockConn _ _ \<Rightarrow> True | DevFile _ _ \<Rightarrow> False)"

definition QemuConn_LocalAddr :: "QemuConn \<Rightarrow> string" where
  "QemuConn_LocalAddr q = ''qemu-pipe''"

definition QemuConn_RemoteAddr :: "QemuConn \<Rightarrow> string" where
  "QemuConn_RemoteAddr q = ''qemu-pipe''"

datatype which_deadline = Both | ReadOnly | WriteOnly

text \<open>\<open>SetDeadline\<close>, \<open>SetReadDeadline\<close> and \<open>SetWriteDeadline\<close>, which differ in the method they call.\<close>

definition QemuConn_SetDeadline ::
    "(which_deadline \<Rightarrow> opened \<Rightarrow> go_error option) \<Rightarrow> which_deadline \<Rightarrow> QemuConn \<Rightarrow> go_error option"
where
  "QemuConn_SetDeadline setd w q =
     (if is_netConn (qw_conn q) then setd w (qw_conn q) else Some ErrNotImplemented)"

text \<open>
  Over the life of a pipe: a pipe made on a device without the vsock driver opens device files only, and
  every deadline on its connections is refused; with the driver it dials the host's port and deadlines
  reach the connection.
\<close>

theorem pipe_deadlines:
  assumes "MakePipe stat name = Inr q" and "connFn sysopen dial q = Inr c"
    and "\<And>a b x. dial a b = Inr x \<Longrightarrow> x = VsockConn a b"
  shows "(if stat vsockDriver = None
          then c = VsockConn cidHost hostPort \<and> QemuConn_SetDeadline setd w (MakeQemuConn c) = setd w c
          else (\<exists>r. sysopen qemuDriver = Inr r \<and> c = DevFile qemuDriver r) \<and>
               QemuConn_SetDeadline setd w (MakeQemuConn c) = Some ErrNotImplemented)"
proof (cases "stat vsockDriver")
  case None
  then have "dial cidHost hostPort = Inr c" using assms(1,2) by (auto simp: MakePipe_def connFn_def vsockDriver_def)
  from assms(3) [OF this] None show ?thesis by (simp add: QemuConn_SetDeadline_def MakeQemuConn_def is_netConn_def)
next
  case (Some e)
  then have "openQemuDevBlocking sysopen = Inr c"
    using assms(1,2) by (auto simp: MakePipe_def connFn_def vsockDriver_def split: option.splits)
  with Some show ?thesis
    by (auto simp: openQemuDevBlocking_def QemuConn_SetDeadline_def MakeQemuConn_def is_netConn_def split: sum.splits)
qed


section \<open>The goroutine of the handshake's timeout\<close>

text \<open>
  The goroutine sends the error, if there is one, and then nil on a channel of capacity 1; the caller
  receives once, unless it gave up. A send that finds the channel full, with nobody to receive, never ends.
\<close>

definition timeout_sends :: "go_error option \<Rightarrow> go_error option list" where
  "timeout_sends err = (case err of Some e \<Rightarrow> [Some e, None] | None \<Rightarrow> [None])"

definition timeout_goroutine_ends :: "bool \<Rightarrow> go_error option \<Rightarrow> bool" where
  "timeout_goroutine_ends gaveUp err \<longleftrightarrow> length (timeout_sends err) \<le> 1 + (if gaveUp then 0 else 1)"

text \<open>
  The goroutine leaks exactly when the operation fails after the timeout, which is the case of a write on
  a connection that \<open>Pipe.Accept\<close> closes because of the timeout.
\<close>

theorem timeout_goroutine_leaks: "\<not> timeout_goroutine_ends gaveUp err \<longleftrightarrow> gaveUp \<and> err \<noteq> None"
  by (simp add: timeout_goroutine_ends_def timeout_sends_def split: option.splits)


section \<open>Closing a builder while it accepts\<close>

text \<open>
  The phases of \<open>PipeConnBuilder.Accept\<close>: about to call the pipe's \<open>Accept\<close>; in it, past its test of \<open>closed\<close>;
  holding a connection that is not yet \<open>pendingConn\<close>; in the handshake; past it, with \<open>pendingConn\<close> still set;
  returned. The phases of \<open>Close\<close>: not called, listener closed, returned. Connections are numbered.
\<close>

datatype aphase = Calling | InPipe | Got nat | Syncing nat | Synced nat | Ret "nat result"

datatype cphase = NotCalled | LisClosed | CloseDone

record pbuilder =
  pb_acc :: aphase
  pb_cl :: cphase
  pb_pendingConn :: "nat option"
  pb_pipeClosed :: bool
  pb_closes :: "nat list"
  pb_next :: nat

definition MakePipeConnBuilder :: pbuilder where
  "MakePipeConnBuilder = \<lparr>pb_acc = Calling, pb_cl = NotCalled, pb_pendingConn = None, pb_pipeClosed = False,
     pb_closes = [], pb_next = 0\<rparr>"

text \<open>
  A handshake on a connection that was closed cannot succeed. The last rule is the part of \<open>Close\<close> after
  the listener was closed.
\<close>

definition PipeConnBuilder_Close :: "pbuilder \<Rightarrow> pbuilder" where
  "PipeConnBuilder_Close s = s\<lparr>pb_cl := CloseDone,
     pb_closes := pb_closes s @ (case pb_pendingConn s of None \<Rightarrow> [] | Some n \<Rightarrow> [n])\<rparr>"

inductive pb_step :: "pbuilder \<Rightarrow> pbuilder \<Rightarrow> bool" where
  pb_refused: "pb_acc s = Calling \<Longrightarrow> pb_pipeClosed s \<Longrightarrow> pb_step s (s\<lparr>pb_acc := Ret (Inl ErrClosed)\<rparr>)"
| pb_enter: "pb_acc s = Calling \<Longrightarrow> \<not> pb_pipeClosed s \<Longrightarrow> pb_step s (s\<lparr>pb_acc := InPipe\<rparr>)"
| pb_error: "pb_acc s = InPipe \<Longrightarrow> pb_step s (s\<lparr>pb_acc := Ret (Inl e)\<rparr>)"
| pb_opened: "pb_acc s = InPipe \<Longrightarrow> pb_step s (s\<lparr>pb_acc := Got (pb_next s), pb_next := Suc (pb_next s)\<rparr>)"
| pb_pend: "pb_acc s = Got n \<Longrightarrow> pb_step s (s\<lparr>pb_acc := Syncing n, pb_pendingConn := Some n\<rparr>)"
| pb_fails: "pb_acc s = Syncing n \<Longrightarrow> pb_step s (s\<lparr>pb_acc := Calling, pb_closes := pb_closes s @ [n]\<rparr>)"
| pb_syncs: "pb_acc s = Syncing n \<Longrightarrow> n \<notin> set (pb_closes s) \<Longrightarrow> pb_step s (s\<lparr>pb_acc := Synced n\<rparr>)"
| pb_returns: "pb_acc s = Synced n \<Longrightarrow> pb_step s (s\<lparr>pb_acc := Ret (Inr n), pb_pendingConn := None\<rparr>)"
| pb_close: "pb_cl s = NotCalled \<Longrightarrow> pb_step s (s\<lparr>pb_cl := LisClosed, pb_pipeClosed := True\<rparr>)"
| pb_close_pending: "pb_cl s = LisClosed \<Longrightarrow> pb_step s (PipeConnBuilder_Close s)"

inductive pb_reach :: "pbuilder \<Rightarrow> bool" where
  pb_init: "pb_reach MakePipeConnBuilder"
| pb_next: "pb_reach s \<Longrightarrow> pb_step s t \<Longrightarrow> pb_reach t"

inductive_cases pb_stepE: "pb_step s t"

definition pb_inv :: "pbuilder \<Rightarrow> bool" where
  "pb_inv s \<longleftrightarrow> (pb_cl s \<noteq> NotCalled \<longleftrightarrow> pb_pipeClosed s) \<and> (\<forall>n \<in> set (pb_closes s). n < pb_next s) \<and>
     (\<forall>n. pb_pendingConn s = Some n \<longrightarrow> n < pb_next s) \<and>
     (case pb_acc s of
        Got n \<Rightarrow> n < pb_next s \<and> n \<notin> set (pb_closes s) \<and> (\<forall>p. pb_pendingConn s = Some p \<longrightarrow> p \<in> set (pb_closes s))
      | Syncing n \<Rightarrow> n < pb_next s \<and> pb_pendingConn s = Some n
      | Synced n \<Rightarrow> n < pb_next s \<and> pb_pendingConn s = Some n
      | Ret (Inr n) \<Rightarrow> pb_pendingConn s = None
      | _ \<Rightarrow> (\<forall>p. pb_pendingConn s = Some p \<longrightarrow> p \<in> set (pb_closes s)))"

lemma pb_inv_step: "pb_step s t \<Longrightarrow> pb_inv s \<Longrightarrow> pb_inv t"
proof (induction rule: pb_step.induct)
  case (pb_opened s)
  then show ?case by (fastforce simp: pb_inv_def)
next
  case (pb_close_pending s)
  then show ?case
    by (auto simp: pb_inv_def PipeConnBuilder_Close_def split: aphase.splits sum.splits option.splits)
qed (auto simp: pb_inv_def split: aphase.splits sum.splits)

lemma pb_reach_inv: "pb_reach s \<Longrightarrow> pb_inv s"
proof (induction rule: pb_reach.induct)
  case pb_init
  then show ?case by (simp add: pb_inv_def MakePipeConnBuilder_def)
qed (rule pb_inv_step)


definition closing :: "aphase \<Rightarrow> cphase \<Rightarrow> nat option \<Rightarrow> nat list \<Rightarrow> pbuilder" where
  "closing a c p cs = \<lparr>pb_acc = a, pb_cl = c, pb_pendingConn = p, pb_pipeClosed = (c \<noteq> NotCalled), pb_closes = cs, pb_next = 1\<rparr>"

lemma closing_reach:
  "pb_reach (closing (Got 0) NotCalled None [])"
  "pb_reach (closing (Syncing 0) CloseDone (Some 0) [0])"
  "pb_reach (closing (Syncing 0) CloseDone (Some 0) [])"
proof -
  have 1: "pb_reach (MakePipeConnBuilder\<lparr>pb_acc := InPipe\<rparr>)"
    by (rule pb_next [OF pb_init pb_enter]) (simp_all add: MakePipeConnBuilder_def)
  from pb_next [OF 1 pb_opened] show 2: "pb_reach (closing (Got 0) NotCalled None [])"
    by (simp add: MakePipeConnBuilder_def closing_def)
  from pb_next [OF 2 pb_pend] have a: "pb_reach (closing (Syncing 0) NotCalled (Some 0) [])" by (simp add: closing_def)
  from pb_next [OF a pb_close] have b: "pb_reach (closing (Syncing 0) LisClosed (Some 0) [])" by (simp add: closing_def)
  from pb_next [OF b pb_close_pending] show "pb_reach (closing (Syncing 0) CloseDone (Some 0) [0])"
    by (simp add: closing_def PipeConnBuilder_Close_def)
  from pb_next [OF 2 pb_close] have c: "pb_reach (closing (Got 0) LisClosed None [])" by (simp add: closing_def)
  from pb_next [OF c pb_close_pending] have d: "pb_reach (closing (Got 0) CloseDone None [])"
    by (simp add: closing_def PipeConnBuilder_Close_def)
  from pb_next [OF d pb_pend] show "pb_reach (closing (Syncing 0) CloseDone (Some 0) [])" by (simp add: closing_def)
qed


text \<open>
  The field is not guarded: a \<open>Close\<close> that runs between the pipe's \<open>Accept\<close> and the assignment of \<open>pendingConn\<close>
  returns without closing the connection, and the call of \<open>Accept\<close> goes on to a handshake that nothing ends
  any more, and may return a connection after the close.
\<close>

theorem pipe_close_misses_connection:
  "\<exists>s. pb_reach s \<and> pb_cl s = CloseDone \<and> pb_acc s = Syncing 0 \<and> pb_closes s = [] \<and>
     (\<exists>t u. pb_step s t \<and> pb_step t u \<and> pb_acc u = Ret (Inr 0))"
proof -
  let ?s = "closing (Syncing 0) CloseDone (Some 0) []"
  have "pb_step ?s (?s\<lparr>pb_acc := Synced 0\<rparr>)" by (rule pb_syncs) (simp_all add: closing_def)
  moreover have "pb_step (?s\<lparr>pb_acc := Synced 0\<rparr>) (?s\<lparr>pb_acc := Ret (Inr 0), pb_pendingConn := None\<rparr>)"
    using pb_returns [of "?s\<lparr>pb_acc := Synced 0\<rparr>" 0] by (simp add: closing_def)
  ultimately have "\<exists>t u. pb_step ?s t \<and> pb_step t u \<and> pb_acc u = Ret (Inr 0)" by fastforce
  then show ?thesis using closing_reach(3) by (intro exI [of _ ?s]) (simp add: closing_def)
qed

end
