(* ===== verification/TestServer.thy ===== *)
theory TestServer
  imports QemuPipe Forward
begin

text \<open>
  The test server of \<open>net/qemu/test_server.go\<close>: it accepts a number of connections over the pipe and echoes each of
  them through an \<open>io.Pipe\<close>, with one goroutine that reads and one that writes, and checks the number of bytes. The
  two goroutines of a connection work on its two sides, and the pipe hands every write to the reader, so that
  the model runs the reading before the writing.
\<close>

section \<open>One connection\<close>

record test_flags =
  tf_conns :: nat
  tf_recN :: nat
  tf_logFile :: string

definition test_defaults :: test_flags where
  "test_defaults = \<lparr>tf_conns = 1, tf_recN = 4 * 1024 * 1024, tf_logFile = []\<rparr>"

text \<open>The writer of the pipe: each write is one portion that the reader receives.\<close>

definition pipe_write :: "bytes list \<Rightarrow> bytes \<Rightarrow> (nat \<times> go_error option) \<times> bytes list" where
  "pipe_write c b = ((length b, None), c @ [b])"

definition count_error :: "string \<Rightarrow> string \<Rightarrow> nat \<Rightarrow> nat \<Rightarrow> go_error option \<Rightarrow> go_error option" where
  "count_error did verb n recN err =
     (if err \<noteq> None \<and> err \<noteq> Some EOF then err
      else if n \<noteq> recN
      then Some (Errorf (did @ '' '' @ show_nat n @ '' bytes but was supposed to '' @ verb @ '' '' @ show_nat recN))
      else None)"

text \<open>
  The two goroutines of a connection, and its close. When the writing fails it ends the reading, and its error is
  the one of the group; otherwise the error of the reading comes first. \<open>None\<close>: the connection is not ended by the peer.
\<close>

definition echo_conn :: "nat \<Rightarrow> nat \<Rightarrow> qconn \<Rightarrow> (go_error option \<times> qconn) outcome option" where
  "echo_conn recN fuel c =
     (case io_copy fuel (\<lambda>q n. Some (Conn_Read q n)) pipe_write c [] of
        None \<Rightarrow> None
      | Some (rdErr, c1, chunks) \<Rightarrow>
          (case io_copy fuel input_read Conn_Write \<lparr>in_chunks = chunks, in_err = EOF\<rparr> c1 of
             None \<Rightarrow> None
           | Some (wrErr, rest, c2) \<Rightarrow>
               let n = length (concat chunks); m = n - length (concat (in_chunks rest));
                   e1 = count_error ''read'' ''read'' n recN rdErr;
                   e2 = count_error ''wrote'' ''write'' m recN wrErr
               in Some (obind (Conn_Close c2) (\<lambda>(_, c3). Return (if wrErr \<noteq> None then e2 else first_err [e1, e2], c3)))))"


section \<open>The program\<close>

datatype test_exit = Exits "qconn list" | Fatal string | Crash

fun accept_conns :: "nat \<Rightarrow> nat \<Rightarrow> nat \<Rightarrow> qconn accepting list \<Rightarrow> (go_error option \<times> qconn) list outcome option" where
  "accept_conns 0 recN fuel accs = Some (Return [])"
| "accept_conns (Suc k) recN fuel accs =
     (case accs of
        [] \<Rightarrow> None
      | Waiting # _ \<Rightarrow> None
      | AcceptErr e # _ \<Rightarrow> Some (Fail e)
      | Accepted c # accs' \<Rightarrow>
          (case echo_conn recN fuel c of
             None \<Rightarrow> None
           | Some r \<Rightarrow>
               (case accept_conns k recN fuel accs' of
                  None \<Rightarrow> None
                | Some rs \<Rightarrow> Some (obind r (\<lambda>x. obind rs (\<lambda>xs. Return (x # xs)))))))"

text \<open>
  \<open>main\<close>: the log file, the pipe, and the builder, whose accepted connections are \<open>accs\<close>; then the wait for the
  group, whose first error ends the program.
\<close>

definition test_main ::
    "test_flags \<Rightarrow> (string \<Rightarrow> go_error option) \<Rightarrow> (string \<Rightarrow> go_error option) \<Rightarrow> nat \<Rightarrow> qconn accepting list \<Rightarrow> test_exit option"
where
  "test_main f create stat fuel accs =
     (case (if tf_logFile f \<noteq> [] then create (tf_logFile f) else None) of
        Some e \<Rightarrow> Some (Fatal (error_text e))
      | None \<Rightarrow>
          (case MakePipe stat ''sockets/h2o'' of
             Inl e \<Rightarrow> Some (Fatal (''error opening pipe: '' @ error_text e))
           | Inr pip \<Rightarrow>
               (case accept_conns (tf_conns f) (tf_recN f) fuel accs of
                  None \<Rightarrow> None
                | Some Panic \<Rightarrow> Some Crash
                | Some (Fail e) \<Rightarrow> Some (Fatal (''error accepting connection: '' @ error_text e))
                | Some (Return rs) \<Rightarrow>
                    (case first_err (map fst rs) of
                       Some e \<Rightarrow> Some (Fatal (''got error: '' @ error_text e))
                     | None \<Rightarrow> Some (Exits (map snd rs))))))"


section \<open>Facts\<close>

interpretation pipe_writer: io_writer pipe_write "\<lambda>_. True" concat
  by unfold_locales (simp add: pipe_write_def)

interpretation echo_in: io_pipe "\<lambda>q n. Some (Conn_Read q n)" q_delivers q_work pipe_write "\<lambda>_. True" concat
  ..

interpretation echo_out: io_pipe input_read in_delivers in_work Conn_Write q_ready_open q_written
  ..

text \<open>What every read and every write keeps, a copy keeps.\<close>

lemma io_copy_keeps:
  assumes "\<And>r n d e r'. rd r n = Some ((d, e), r') \<Longrightarrow> P r \<Longrightarrow> P r'"
    and "\<And>w b x w'. wr w b = (x, w') \<Longrightarrow> b \<noteq> [] \<Longrightarrow> Q w \<Longrightarrow> Q w'"
  shows "io_copy fuel rd wr r w = Some (e, r', w') \<Longrightarrow> P r \<Longrightarrow> Q w \<Longrightarrow> P r' \<and> Q w'"
proof (induction fuel arbitrary: r w)
  case (Suc fuel)
  obtain d er r1 where rd: "rd r copy_buf = Some ((d, er), r1)" using Suc.prems(1) by (auto split: option.splits)
  obtain nw ew w1 where wr: "(if d = [] then ((0, None), w) else wr w d) = ((nw, ew), w1)" by (metis prod.exhaust)
  have "P r1" "Q w1" using assms(1) [OF rd Suc.prems(2)] assms(2) [of w d _ w1] wr Suc.prems(3) by (auto split: if_splits)
  then show ?case using Suc.prems(1) Suc.IH [of r1 w1] rd wr by (auto split: option.splits if_splits)
qed simp

text \<open>A read does not touch the writing side, and a write keeps the flags.\<close>

definition w_side :: "qconn \<Rightarrow> bufw \<times> bool \<times> bool \<times> bool \<times> bool" where
  "w_side q = (qc_wb q, qc_closedWrites q, qc_writesCloseChan q, qc_closed q, chan_inv q)"

lemma Conn_Read_wb: "qc_wb (snd (Conn_Read q n)) = qc_wb q"
  by (auto simp: Conn_Read_def Conn_read_def Let_def split: prod.splits option.splits)

lemma Conn_Read_w_side:
  assumes "Some (Conn_Read q n) = Some ((d, e), q')"
  shows "w_side q' = w_side q"
proof -
  have "q' = snd (Conn_Read q n)" using assms by simp
  then show ?thesis using Read_flags [of q n] Conn_Read_wb [of q n] by (simp add: w_side_def same_flags_def chan_inv_def)
qed

lemma echo_copy_w_side:
  "io_copy fuel (\<lambda>q n. Some (Conn_Read q n)) pipe_write c cs = Some (e, c', cs') \<Longrightarrow>
   \<forall>b \<in> set cs. b \<noteq> [] \<Longrightarrow> w_side c' = w_side c \<and> (\<forall>b \<in> set cs'. b \<noteq> [])"
  using io_copy_keeps [where rd = "\<lambda>q n. Some (Conn_Read q n)" and wr = pipe_write and P = "\<lambda>q. w_side q = w_side c"
      and Q = "\<lambda>cs. \<forall>b \<in> set cs. b \<noteq> []" and fuel = fuel and r = c and w = cs and e = e and r' = c' and w' = cs']
    Conn_Read_w_side
  by (auto simp: pipe_write_def)

definition open_flags :: "qconn \<Rightarrow> bool" where
  "open_flags q \<longleftrightarrow> \<not> qc_closed q \<and> chan_inv q"

lemma echo_copy_flags:
  assumes "io_copy fuel input_read Conn_Write i c = Some (e, i', c')" "open_flags c"
  shows "open_flags c'"
proof -
  have "open_flags w'" if "Conn_Write w b = (x, w')" "open_flags w" for w b x w'
    using Write_flags [of w b] that by (auto simp: open_flags_def same_flags_def chan_inv_def)
  then show ?thesis
    using io_copy_keeps [where rd = input_read and wr = Conn_Write and P = "\<lambda>_. True" and Q = open_flags, OF _ _ assms(1)] assms(2)
    by blast
qed

text \<open>A copy that ended without an error has read its input to the end.\<close>

lemma io_copy_drained:
  "io_copy fuel input_read wr i w = Some (None, i', w') \<Longrightarrow> in_err i = EOF \<Longrightarrow> in_chunks i' = []"
proof (induction fuel arbitrary: i w)
  case (Suc fuel)
  obtain d er i1 where rd: "input_read i copy_buf = Some ((d, er), i1)" using Suc.prems(1) by (auto split: option.splits)
  obtain nw ew w1 where wr: "(if d = [] then ((0, None), w) else wr w d) = ((nw, ew), w1)" by (metis prod.exhaust)
  have "in_err i1 = EOF" "er \<noteq> None \<Longrightarrow> in_chunks i1 = []"
    using rd Suc.prems(2) by (auto simp: input_read_def split: list.splits)
  then show ?case using Suc.prems(1) Suc.IH [of i1 w1] rd wr by (auto split: option.splits if_splits)
qed simp

lemma nonempty_chunks_le: "\<forall>b \<in> set cs. b \<noteq> [] \<Longrightarrow> length cs \<le> length (concat cs)"
proof (induction cs)
  case (Cons b cs)
  then show ?case by (cases b) auto
qed simp

lemma w_side_open:
  assumes "w_side c' = w_side c" "q_ready_open c" "open_flags c"
  shows "q_ready_open c' \<and> q_written c' = q_written c \<and> open_flags c'"
  using assms by (simp add: w_side_def q_ready_open_def q_ready_def q_open_w_def q_written_def q_sent_def open_flags_def)

lemma Conn_Close_peer:
  assumes "q_ready_open q" "open_flags q"
  shows "\<exists>q'. Conn_Close q = Return (None, q') \<and> q_peer_gets q' (q_written q)"
proof -
  let ?q = "q\<lparr>qc_closed := True\<rparr>"
  have "chan_inv ?q" using assms(2) by (simp add: open_flags_def chan_inv_def)
  from CloseWrite_flags [OF this] obtain e1 q1 where q1: "Conn_CloseWrite ?q = Return (e1, q1)" "chan_inv q1" by blast
  from CloseRead_flags [OF q1(2)] obtain e2 q2 where q2: "Conn_CloseRead q1 = Return (e2, q2)" by blast
  have "q_sent q2 = q_sent q1" using q2 by (auto simp: Conn_CloseRead_def q_sent_def split: if_splits)
  moreover have "q_peer_gets q1 (q_written q)"
    using q_closeWrite_ends [of ?q] assms(1) q1(1)
    by (simp add: q_closeWrite_def q_ready_open_def q_ready_def q_open_w_def q_written_def q_sent_def)
  ultimately have "q_peer_gets (q2\<lparr>qc_connCloses := Suc (qc_connCloses q2)\<rparr>) (q_written q)"
    by (simp add: q_peer_gets_def q_sent_def)
  then show ?thesis using assms(2) q1(1) q2 by (simp add: Conn_Close_def open_flags_def)
qed

text \<open>A fresh connection whose peer will send \<open>bs\<close> and close.\<close>

definition echo_ready :: "nat \<Rightarrow> qconn \<Rightarrow> bytes \<Rightarrow> bool" where
  "echo_ready fuel c bs \<longleftrightarrow> q_delivers c bs \<and> q_ready_open c \<and> open_flags c \<and> q_written c = [] \<and>
     q_work c < fuel \<and> 2 * length bs < fuel"

lemma echo_conn_spec:
  assumes "echo_ready fuel c bs"
  shows "\<exists>c'. echo_conn recN fuel c = Some (Return (count_error ''read'' ''read'' (length bs) recN None, c')) \<and>
           q_peer_gets c' bs"
proof -
  note er = assms [unfolded echo_ready_def]
  obtain c1 cs where rd: "io_copy fuel (\<lambda>q n. Some (Conn_Read q n)) pipe_write c [] = Some (None, c1, cs)" "concat cs = bs"
    using echo_in.io_copy_all [where r = c and bs = bs and w = "[]" and fuel = fuel] er by auto
  have side: "w_side c1 = w_side c" "\<forall>b \<in> set cs. b \<noteq> []" using echo_copy_w_side [OF rd(1)] by auto
  with w_side_open [OF side(1)] er have c1: "q_ready_open c1" "q_written c1 = []" "open_flags c1" by auto
  let ?i = "\<lparr>in_chunks = cs, in_err = EOF\<rparr>"
  have i: "in_delivers ?i bs" "in_work ?i < fuel"
    using rd(2) nonempty_chunks_le [OF side(2)] er by (simp_all add: in_delivers_def in_work_def)
  obtain i' c2 where wr: "io_copy fuel input_read Conn_Write ?i c1 = Some (None, i', c2)" "q_ready_open c2" "q_written c2 = bs"
    using echo_out.io_copy_all [OF i(1) c1(1) i(2)] c1(2) by auto
  have left: "in_chunks i' = []" by (rule io_copy_drained [OF wr(1)]) simp
  from Conn_Close_peer [OF wr(2) echo_copy_flags [OF wr(1) c1(3)]] wr(3) obtain c3
    where "Conn_Close c2 = Return (None, c3)" "q_peer_gets c3 bs" by auto
  then show ?thesis
    using rd wr(1) left by (auto simp: echo_conn_def Let_def count_error_def)
qed

definition all_ready :: "nat \<Rightarrow> qconn list \<Rightarrow> bytes list \<Rightarrow> bool" where
  "all_ready fuel cs bss \<longleftrightarrow> list_all2 (echo_ready fuel) cs bss"

lemma accept_conns_spec:
  "all_ready fuel cs bss \<Longrightarrow> \<exists>rs. accept_conns (length cs) recN fuel (map Accepted cs @ accs) = Some (Return rs) \<and>
     map fst rs = map (\<lambda>bs. count_error ''read'' ''read'' (length bs) recN None) bss \<and>
     list_all2 q_peer_gets (map snd rs) bss"
  unfolding all_ready_def
proof (induction cs bss rule: list_all2_induct)
  case (Cons c cs bs bss)
  from echo_conn_spec [OF Cons.hyps(1), of recN] obtain c' where
    "echo_conn recN fuel c = Some (Return (count_error ''read'' ''read'' (length bs) recN None, c'))" "q_peer_gets c' bs" by blast
  with Cons.IH show ?case by auto
qed simp

lemma first_err_None: "first_err es = None \<longleftrightarrow> set es \<subseteq> {None}"
  by (induction es) (auto simp: first_err_def)

text \<open>
  The test server echoes. With the pipe available, and one connection for each that the flags ask for, whose peer
  sends some bytes and closes its side: the program ends without an error exactly when every peer sent \<open>rec_n\<close> bytes,
  and then every peer has received the bytes it sent, followed by the end of the stream.
\<close>

theorem test_server_echoes:
  assumes "tf_logFile f = []" and "MakePipe stat ''sockets/h2o'' = Inr pip" and "tf_conns f = length cs"
    and "all_ready fuel cs bss"
  shows "if \<forall>bs \<in> set bss. length bs = tf_recN f
         then \<exists>cs'. test_main f create stat fuel (map Accepted cs) = Some (Exits cs') \<and> list_all2 q_peer_gets cs' bss
         else \<exists>e. test_main f create stat fuel (map Accepted cs) = Some (Fatal (''got error: '' @ error_text e))"
proof -
  obtain rs where rs: "accept_conns (tf_conns f) (tf_recN f) fuel (map Accepted cs) = Some (Return rs)"
      "map fst rs = map (\<lambda>bs. count_error ''read'' ''read'' (length bs) (tf_recN f) None) bss"
      "list_all2 q_peer_gets (map snd rs) bss"
    using accept_conns_spec [OF assms(4), of "tf_recN f" "[]"] assms(3) by auto
  have "first_err (map fst rs) = None \<longleftrightarrow> (\<forall>bs \<in> set bss. length bs = tf_recN f)"
    unfolding first_err_None rs(2) by (auto simp: count_error_def)
  then show ?thesis using assms(1,2) rs(1,3) by (auto simp: test_main_def split: option.splits)
qed

definition demo_conn :: "bytes \<Rightarrow> qconn" where
  "demo_conn b = makeConn \<lparr>src_bytes = frame b @ stop_frame, src_err = EOF\<rparr> \<lparr>snk_bytes = [], snk_room = None, snk_err = EOF\<rparr>"

lemma demo_ready: "echo_ready 20 (demo_conn [1, 2, 3]) [1, 2, 3]"
proof -
  have "q_delivers (demo_conn [1, 2, 3]) (concat [[1, 2, 3]])"
    unfolding demo_conn_def by (rule sent_delivered) (simp_all add: msg_ok_def)
  moreover have "q_ready_open (demo_conn [1, 2, 3])"
    unfolding q_ready_open_def q_ready_def
    by (intro conjI exI [of _ "[]"]) (simp_all add: demo_conn_def makeConn_open_w q_sent_def, simp_all add: makeConn_def newWriterSize_def)
  moreover have "q_written (demo_conn [1, 2, 3]) = []" "open_flags (demo_conn [1, 2, 3])"
    by (simp_all add: q_written_def q_sent_def demo_conn_def makeConn_def newWriterSize_def deframe_Nil open_flags_def chan_inv_def)
  ultimately show ?thesis by (simp add: echo_ready_def) (simp add: demo_conn_def makeConn_def frame_def)
qed

theorem test_server_echoes_witness:
  "\<exists>cs'. test_main \<lparr>tf_conns = 2, tf_recN = 3, tf_logFile = []\<rparr> (\<lambda>_. None) (\<lambda>_. None) 20
      [Accepted (demo_conn [1, 2, 3]), Accepted (demo_conn [1, 2, 3])] = Some (Exits cs') \<and>
    list_all2 q_peer_gets cs' [[1, 2, 3], [1, 2, 3]]"
  using test_server_echoes [of "\<lparr>tf_conns = 2, tf_recN = 3, tf_logFile = []\<rparr>" "\<lambda>_. None" _
      "[demo_conn [1, 2, 3], demo_conn [1, 2, 3]]" 20 "[[1, 2, 3], [1, 2, 3]]" "\<lambda>_. None"] demo_ready
  by (simp add: all_ready_def MakePipe_def)

end
