(* ===== verification/Emulator.thy ===== *)
theory Emulator
  imports HostTools Testutils Addr FileSys
begin

text \<open>
  The emulator of the integration tests: \<open>testutils/emu.go\<close>, which starts and stops an emulator, chooses its ports and runs
  adb commands on it, and \<open>testutils/runfiles.go\<close>, which finds the files of a test run. Running a program is outside the
  model: \<open>run\<close> gives the combined output and the error for a program and its arguments.
\<close>

section \<open>Starting and stopping\<close>

type_synonym runner = "string \<Rightarrow> string list \<Rightarrow> string \<times> go_error option"

definition startEmulator_args :: "string \<Rightarrow> string \<Rightarrow> string \<Rightarrow> string \<Rightarrow> string list" where
  "startEmulator_args emuDir adbServerPort adbPort emuPort =
     [''--action'', ''mini_boot'', ''--emulator_tmp_dir'', emuDir, ''--adb_server_port'', adbServerPort,
      ''--adb_port'', adbPort, ''--emulator_port'', emuPort, ''--noenable_display'', ''--nowith_audio'']"

definition startEmulator :: "runner \<Rightarrow> string \<Rightarrow> string \<Rightarrow> string \<Rightarrow> string \<Rightarrow> string \<Rightarrow> go_error option" where
  "startEmulator run emuDir launcher adbServerPort adbPort emuPort =
     (case run launcher (startEmulator_args emuDir adbServerPort adbPort emuPort) of
        (out, Some e) \<Rightarrow> Some (Errorf (''error '' @ error_text e @ '' starting emulator: '' @ out))
      | (out, None) \<Rightarrow> None)"

definition KillEmu :: "runner \<Rightarrow> string \<Rightarrow> string \<Rightarrow> string \<Rightarrow> string \<Rightarrow> go_error option" where
  "KillEmu run launcher adbServerPort adbPort emuPort =
     snd (run launcher [''--action'', ''kill'', ''--adb_server_port'', adbServerPort, ''--adb_port'', adbPort,
       ''--emulator_port'', emuPort])"

text \<open>\<open>SetupEmu\<close>: the directory, or the error, and the temporary directories that are left behind.\<close>

definition SetupEmu :: "string result \<Rightarrow> runner \<Rightarrow> string \<Rightarrow> string \<Rightarrow> string \<Rightarrow> string \<Rightarrow> string result \<times> string list" where
  "SetupEmu tempDir run launcher adbServerPort adbPort emuPort =
     (case tempDir of
        Inl e \<Rightarrow> (Inl e, [])
      | Inr emuDir \<Rightarrow>
          (case startEmulator run emuDir launcher adbServerPort adbPort emuPort of
             Some e \<Rightarrow> (Inl e, [emuDir])
           | None \<Rightarrow> (Inr emuDir, [emuDir])))"

text \<open>
  \<open>GetAdbPorts\<close>: three ports, each chosen with what is free at that time and a random number of its own. \<open>None\<close> would
  be a choice that does not end.
\<close>

type_synonym probe = "(nat \<Rightarrow> bool) \<times> nat"

definition GetAdbPorts :: "probe \<Rightarrow> probe \<Rightarrow> probe \<Rightarrow> (string \<times> string \<times> string) result option" where
  "GetAdbPorts p1 p2 p3 =
     (case PickUnusedPort (fst p1) (snd p1) of
        None \<Rightarrow> None
      | Some (Inl e) \<Rightarrow> Some (Inl e)
      | Some (Inr a) \<Rightarrow>
          (case PickUnusedPort (fst p2) (snd p2) of
             None \<Rightarrow> None
           | Some (Inl e) \<Rightarrow> Some (Inl e)
           | Some (Inr b) \<Rightarrow>
               (case PickUnusedPort (fst p3) (snd p3) of
                  None \<Rightarrow> None
                | Some (Inl e) \<Rightarrow> Some (Inl e)
                | Some (Inr c) \<Rightarrow> Some (Inr (show_nat a, show_nat b, show_nat c)))))"


section \<open>Running commands\<close>

definition exec_args :: "string \<Rightarrow> string \<Rightarrow> string list \<Rightarrow> string list" where
  "exec_args device cmd args =
     (if cmd = ''shell'' then [''-s'', device, cmd, str_join args '' '' @ ''; echo ret=$?'']
      else [''-s'', device, cmd] @ args)"

text \<open>\<open>ExecOnDevice\<close>: the output and the error, or the panic of a slice from a position that was not found.\<close>

definition ExecOnDevice :: "adb_runner \<Rightarrow> string \<Rightarrow> string \<Rightarrow> string list \<Rightarrow> (string \<times> go_error option) outcome" where
  "ExecOnDevice adb device cmd args =
     (case adb (exec_args device cmd args) of
        (o1, err) \<Rightarrow>
          if cmd = ''shell'' \<and> err = None then
            (case str_last_index o1 ''ret='' of
               None \<Rightarrow> Panic
             | Some i \<Rightarrow>
                 let r = drop i o1; o2 = trim_space (take (length o1 - length r) o1)
                 in case atoi (trim_space (drop 4 r)) of
                      Inl _ \<Rightarrow> Return (o2, Some (Errorf (''error parsing return code '' @ r)))
                    | Inr ret \<Rightarrow>
                        if ret \<noteq> 0
                        then Return (o2, Some (Errorf (''non-zero return code '' @ [CHR 0x27] @ show_int ret @ [CHR 0x27] @ '' out '' @ o2)))
                        else Return (o2, None))
          else Return (o1, err))"


section \<open>The files of a test run\<close>

definition workspaceDir :: string where
  "workspaceDir = ''runfiles/devx''"

text \<open>
  \<open>wd[:strings.LastIndex(wd, execRoot)+len(execRoot)]\<close>: a name that is not found has the index -1.
\<close>

definition slice_root :: "string \<Rightarrow> string \<Rightarrow> string outcome" where
  "slice_root wd execRoot =
     (let n = (case str_last_index wd execRoot of Some i \<Rightarrow> i + length execRoot | None \<Rightarrow> length execRoot - 1)
      in if n \<le> length wd then Return (take n wd) else Panic)"

definition find_root :: "string result \<Rightarrow> string \<Rightarrow> string outcome" where
  "find_root getwd argz =
     (case getwd of
        Inl _ \<Rightarrow> Panic
      | Inr wd \<Rightarrow>
          if suffix workspaceDir wd then Return wd
          else slice_root wd (Base argz @ ''.'' @ workspaceDir))"

text \<open>
  \<open>RunfilesRoot\<close> with its \<open>sync.Once\<close>: the state says whether the function ran, also when it panicked, and holds the
  variable \<open>runfiles\<close>.
\<close>

definition RunfilesRoot :: "string result \<Rightarrow> string \<Rightarrow> bool \<times> string \<Rightarrow> string outcome \<times> (bool \<times> string)" where
  "RunfilesRoot getwd argz s =
     (if fst s then (Return (snd s), s)
      else case find_root getwd argz of
        Return r \<Rightarrow> (Return r, (True, r))
      | x \<Rightarrow> (x, (True, snd s)))"


section \<open>Properties\<close>

text \<open>
  The test helper and the device's shell agree. For a device without a server port, \<open>ExecOnDevice\<close> with \<open>shell\<close> runs
  adb with the arguments that \<open>Shell\<close> of \<open>adb/adb.go\<close> uses, succeeds with an output exactly when \<open>Shell\<close> returns
  that output, panics exactly when \<open>Shell\<close> panics, and reports an error exactly when \<open>Shell\<close> does.
\<close>

theorem ExecOnDevice_is_Shell:
  fixes a :: Device
  assumes "dv_AdbServerPort a = []"
  shows "(ExecOnDevice adb (dv_DeviceName a) ''shell'' args = Return (out, None) \<longleftrightarrow> Shell adb a args = Return out) \<and>
         (ExecOnDevice adb (dv_DeviceName a) ''shell'' args = Panic \<longleftrightarrow> Shell adb a args = Panic) \<and>
         ((\<exists>o' e. ExecOnDevice adb (dv_DeviceName a) ''shell'' args = Return (o', Some e)) \<longleftrightarrow> (\<exists>e. Shell adb a args = Fail e))"
proof -
  have args: "exec_args (dv_DeviceName a) ''shell'' args = deviceArgs a @ [''shell'', str_join args '' '' @ ''; echo ret=$?'']"
    using assms by (simp add: exec_args_def deviceArgs_def)
  obtain o1 err where run: "adb (deviceArgs a @ [''shell'', str_join args '' '' @ ''; echo ret=$?'']) = (o1, err)" by fastforce
  show ?thesis
  proof (cases err)
    case (Some e)
    then show ?thesis using run by (simp add: ExecOnDevice_def Shell_def args)
  next
    case None
    then show ?thesis using run
      by (simp add: ExecOnDevice_def Shell_def args parse_shell_def Let_def split: option.splits sum.splits)
  qed
qed

theorem ExecOnDevice_is_Shell_witness:
  "Shell (\<lambda>_. (''ok ret=0'', None)) \<lparr>dv_AdbPath = ''adb'', dv_DeviceName = ''emu'', dv_AdbServerPort = []\<rparr> [''ls''] = Return ''ok''"
proof -
  let ?d = "\<lparr>dv_AdbPath = ''adb'', dv_DeviceName = ''emu'', dv_AdbServerPort = []\<rparr>"
  have "ExecOnDevice (\<lambda>_. (''ok ret=0'', None)) ''emu'' ''shell'' [''ls''] = Return (''ok'', None)" by code_simp
  with ExecOnDevice_is_Shell [of ?d "\<lambda>_. (''ok ret=0'', None)" "[''ls'']" "''ok''"] show ?thesis by simp
qed

text \<open>
  The root of the test files. From a directory inside the test's root, the result is that root and every later call
  returns it; from a directory outside, the function returns a piece of the directory's name that means nothing, or
  panics, and after a panic the next call returns the empty name without an error.
\<close>

theorem RunfilesRoot_spec:
  assumes "getwd = Inr wd" and "\<not> suffix workspaceDir wd" and "root = Base argz @ ''.'' @ workspaceDir"
    and "RunfilesRoot getwd argz (False, []) = (res, s)"
  shows "(case str_last_index wd root of
            Some i \<Rightarrow> (\<exists>r. res = Return r \<and> prefix r wd \<and> suffix root r \<and> s = (True, r))
          | None \<Rightarrow> if length root - 1 \<le> length wd then res = Return (take (length root - 1) wd)
                    else res = Panic \<and> fst (RunfilesRoot getwd' argz s) = Return [])"
proof (cases "str_last_index wd root")
  case None
  with assms show ?thesis by (auto simp: RunfilesRoot_def find_root_def slice_root_def Let_def split: if_splits)
next
  case (Some i)
  note p = str_last_index_Some_prefix [OF Some]
  then obtain t where t: "drop i wd = root @ t" by (auto elim: prefixE)
  then have wd: "wd = take i wd @ root @ t" by (metis append_take_drop_id)
  have len: "i + length root \<le> length wd" using p t by (metis add_leD1 append_take_drop_id le_add1 length_append length_take min.absorb2 nat_add_left_cancel_le wd)
  have tk: "take (i + length root) wd = take i wd @ root" using t by (simp add: take_add)
  have "res = Return (take i wd @ root) \<and> s = (True, take i wd @ root)"
    using assms Some len tk by (simp add: RunfilesRoot_def find_root_def slice_root_def Let_def)
  moreover have "prefix (take i wd @ root) wd" using wd by (metis append.assoc prefixI)
  ultimately show ?thesis using Some by (simp add: suffix_def)
qed

theorem RunfilesRoot_spec_witness:
  "fst (RunfilesRoot (Inr ''/tmp'') ''/bin/t'' (False, [])) = Panic"
proof -
  have b: "Base ''/bin/t'' = ''t''" "\<not> suffix workspaceDir ''/tmp''" by code_simp+
  have n: "str_last_index ''/tmp'' (''t'' @ ''.'' @ workspaceDir) = None" by code_simp
  show ?thesis
    using RunfilesRoot_spec [OF refl b(2) refl prod.collapse [symmetric], where argz = "''/bin/t''" and getwd' = "Inr []"]
    by (simp add: b(1) n [simplified]) (simp add: workspaceDir_def)
qed

text \<open>
  The ports of an emulator. The choice always ends; on success every port was free when it was looked at and lies in
  the range, and the choice fails only when one of the three looks found no free port. The ports need not be different:
  a port that was found is released again and can be found once more.
\<close>

theorem GetAdbPorts_total:
  "case GetAdbPorts p1 p2 p3 of
     None \<Rightarrow> False
   | Some (Inl e) \<Rightarrow> e = errNoFreePort \<and> (\<exists>p \<in> {p1, p2, p3}. \<forall>q. minPort \<le> q \<and> q \<le> maxPort \<longrightarrow> \<not> fst p q)
   | Some (Inr (a, b, c)) \<Rightarrow> (\<exists>i j k. a = show_nat i \<and> b = show_nat j \<and> c = show_nat k \<and> fst p1 i \<and> fst p2 j \<and> fst p3 k \<and>
       {i, j, k} \<subseteq> {minPort..maxPort})"
  using pick_cases [of "fst p1" "snd p1"] pick_cases [of "fst p2" "snd p2"] pick_cases [of "fst p3" "snd p3"]
  by (elim disjE exE conjE) (auto simp: GetAdbPorts_def)

theorem GetAdbPorts_may_coincide:
  "\<exists>a. GetAdbPorts (\<lambda>_. True, n) (\<lambda>_. True, n) (\<lambda>_. True, n) = Some (Inr (a, a, a))"
proof -
  have "minPort \<le> maxPort" by (simp add: minPort_def maxPort_def)
  then show ?thesis using pick_cases [of "\<lambda>_. True" n] by (auto simp: GetAdbPorts_def)
qed

end
