(* ===== verification/ForwarderRun.thy ===== *)
theory ForwarderRun
  imports Daemons Runs "HOL-Library.Multiset"
begin

text \<open>
  The forwarder while it runs, from \<open>forward/forward_bin.go\<close>: the accept loops, one goroutine for each listener, the goroutine
  that waits for \<open>SIGTERM\<close> and closes the listeners and the builder, the goroutine that watches the directory of the emulator,
  and the main goroutine, which waits for the loops. Shown for every interleaving: what becomes of an accepted
  connection, when the program ends, and that a signal ends it.
\<close>

section \<open>Builders\<close>

text \<open>The call that a builder's \<open>Accept\<close> makes, and what its \<open>Close\<close> closes.\<close>

datatype builder_call = NetDial string string | VsockDial "32 word" "32 word" | QemuAccept | PipeAccept | MuxStream

definition builder_Accept :: "builder \<Rightarrow> builder_call" where
  "builder_Accept b =
     (case b of
        DialBuilder netType addr \<Rightarrow> NetDial netType addr
      | VsockBuilder cid port \<Rightarrow> VsockDial cid port
      | QemuHostBuilder _ _ \<Rightarrow> QemuAccept
      | QemuGuestBuilder _ \<Rightarrow> PipeAccept
      | MuxBuilder _ _ \<Rightarrow> MuxStream)"

definition dialBuilder_Close :: "go_error option" where
  "dialBuilder_Close = None"

definition vsockBuilder_Close :: "go_error option" where
  "vsockBuilder_Close = None"

text \<open>
  The watcher of \<open>makeQemuBuilder\<close>: the results of its polls; it ends the program at the first error. It is started
  whether or not the builder could be made.
\<close>

fun watch_dir :: "go_error option list \<Rightarrow> go_error option" where
  "watch_dir [] = None"
| "watch_dir (p # ps) = (case p of Some e \<Rightarrow> Some e | None \<Rightarrow> watch_dir ps)"

definition makeQemuBuilder :: "(string \<Rightarrow> string \<Rightarrow> 'l result) \<Rightarrow> ParsedAddr \<Rightarrow> 'l result \<times> string" where
  "makeQemuBuilder mk pa = (mk (pa_Addr pa) (pa_SocketName pa), pa_Addr pa)"

lemma watch_dir_first: "watch_dir ps = first_err ps"
proof (induction ps)
  case (Cons p ps)
  then show ?case by (cases p) simp_all
qed simp


section \<open>The goroutines\<close>

datatype loop = Listening | Dialing nat | Ended go_error

datatype sigphase = NoSignal | Closing nat | Closed

datatype fexit = Returned | WatcherFatal go_error

text \<open>
  \<open>fr_lisClosed i\<close>: the listener was closed by the signal's goroutine. \<open>fr_joined\<close>: the accepted connections that were handed
  to \<open>Forward\<close>; \<open>fr_orphans\<close>: those that were dropped; \<open>fr_next\<close> numbers accepted connections.
\<close>

record frun =
  fr_loops :: "loop list"
  fr_sig :: sigphase
  fr_lisClosed :: "bool list"
  fr_bClosed :: bool
  fr_watched :: bool
  fr_joined :: "nat list"
  fr_orphans :: "nat list"
  fr_next :: nat
  fr_exit :: "fexit option"

definition frun_init :: "ParsedAddr list \<Rightarrow> bool \<Rightarrow> frun" where
  "frun_init ls watched =
     \<lparr>fr_loops = map (\<lambda>_. Listening) ls, fr_sig = NoSignal, fr_lisClosed = map (\<lambda>_. False) ls, fr_bClosed = False,
      fr_watched = watched, fr_joined = [], fr_orphans = [], fr_next = 0, fr_exit = None\<rparr>"

text \<open>A closed listener accepts nothing more; whether a dial succeeds is up to the environment.\<close>

inductive fr_step :: "frun \<Rightarrow> frun \<Rightarrow> bool" where
  fr_accept: "fr_exit s = None \<Longrightarrow> i < length (fr_loops s) \<Longrightarrow> fr_loops s ! i = Listening \<Longrightarrow> \<not> fr_lisClosed s ! i \<Longrightarrow>
    fr_step s (s\<lparr>fr_loops := (fr_loops s)[i := Dialing (fr_next s)], fr_next := Suc (fr_next s)\<rparr>)"
| fr_accept_err: "fr_exit s = None \<Longrightarrow> i < length (fr_loops s) \<Longrightarrow> fr_loops s ! i = Listening \<Longrightarrow>
    fr_step s (s\<lparr>fr_loops := (fr_loops s)[i := Ended e]\<rparr>)"
| fr_dial: "fr_exit s = None \<Longrightarrow> i < length (fr_loops s) \<Longrightarrow> fr_loops s ! i = Dialing c \<Longrightarrow>
    fr_step s (s\<lparr>fr_loops := (fr_loops s)[i := Listening], fr_joined := fr_joined s @ [c]\<rparr>)"
| fr_dial_err: "fr_exit s = None \<Longrightarrow> i < length (fr_loops s) \<Longrightarrow> fr_loops s ! i = Dialing c \<Longrightarrow>
    fr_step s (s\<lparr>fr_loops := (fr_loops s)[i := Ended e], fr_orphans := fr_orphans s @ [c]\<rparr>)"
| fr_signal: "fr_exit s = None \<Longrightarrow> fr_sig s = NoSignal \<Longrightarrow> fr_step s (s\<lparr>fr_sig := Closing 0\<rparr>)"
| fr_close_lis: "fr_exit s = None \<Longrightarrow> fr_sig s = Closing k \<Longrightarrow> k < length (fr_loops s) \<Longrightarrow>
    fr_step s (s\<lparr>fr_sig := Closing (Suc k), fr_lisClosed := (fr_lisClosed s)[k := True]\<rparr>)"
| fr_close_b: "fr_exit s = None \<Longrightarrow> fr_sig s = Closing (length (fr_loops s)) \<Longrightarrow>
    fr_step s (s\<lparr>fr_sig := Closed, fr_bClosed := True\<rparr>)"
| fr_return: "fr_exit s = None \<Longrightarrow> \<forall>l \<in> set (fr_loops s). \<exists>e. l = Ended e \<Longrightarrow> fr_step s (s\<lparr>fr_exit := Some Returned\<rparr>)"
| fr_watcher: "fr_exit s = None \<Longrightarrow> fr_watched s \<Longrightarrow> fr_step s (s\<lparr>fr_exit := Some (WatcherFatal e)\<rparr>)"

inductive fr_reach :: "ParsedAddr list \<Rightarrow> bool \<Rightarrow> frun \<Rightarrow> bool" for ls watched where
  fr_start: "fr_reach ls watched (frun_init ls watched)"
| fr_more: "fr_reach ls watched s \<Longrightarrow> fr_step s t \<Longrightarrow> fr_reach ls watched t"

inductive_cases fr_stepE: "fr_step s t"


section \<open>The invariant\<close>

definition dialing :: "loop list \<Rightarrow> nat list" where
  "dialing ls = concat (map (\<lambda>l. case l of Dialing c \<Rightarrow> [c] | _ \<Rightarrow> []) ls)"

text \<open>How many listeners the signal's goroutine has closed.\<close>

primrec closed_upto :: "nat \<Rightarrow> sigphase \<Rightarrow> nat" where
  "closed_upto n NoSignal = 0"
| "closed_upto n (Closing k) = k"
| "closed_upto n Closed = n"

definition fr_inv :: "nat \<Rightarrow> frun \<Rightarrow> bool" where
  "fr_inv n s \<longleftrightarrow> length (fr_loops s) = n \<and> length (fr_lisClosed s) = n \<and> closed_upto n (fr_sig s) \<le> n \<and>
     (\<forall>i < n. fr_lisClosed s ! i = (i < closed_upto n (fr_sig s))) \<and> (fr_bClosed s \<longleftrightarrow> fr_sig s = Closed) \<and>
     (fr_exit s = Some Returned \<longrightarrow> (\<forall>l \<in> set (fr_loops s). \<exists>e. l = Ended e))"

lemma fr_inv_step: "fr_step s t \<Longrightarrow> fr_inv n s \<Longrightarrow> fr_inv n t"
proof (induction rule: fr_step.induct)
  case (fr_close_lis s k)
  then show ?case by (auto simp: fr_inv_def nth_list_update)
qed (auto simp: fr_inv_def)

lemma fr_reach_inv: "fr_reach ls watched s \<Longrightarrow> fr_inv (length ls) s"
proof (induction rule: fr_reach.induct)
  case fr_start
  show ?case by (simp add: fr_inv_def frun_init_def)
qed (rule fr_inv_step)

text \<open>The accepted connections, each in one place.\<close>

definition accounted :: "frun \<Rightarrow> bool" where
  "accounted s \<longleftrightarrow> mset (dialing (fr_loops s)) + mset (fr_joined s) + mset (fr_orphans s) = mset [0..<fr_next s]"

lemma dialing_simps [simp]:
  "dialing [] = []" "dialing (Listening # ls) = dialing ls" "dialing (Dialing c # ls) = c # dialing ls"
  "dialing (Ended e # ls) = dialing ls" "dialing (ls @ ls') = dialing ls @ dialing ls'"
  by (simp_all add: dialing_def)

lemma dialing_update:
  assumes "i < length ls"
  shows "mset (dialing (ls[i := l])) + mset (dialing [ls ! i]) = mset (dialing ls) + mset (dialing [l])"
proof -
  have u: "dialing (ls[i := l]) = dialing (take i ls) @ dialing [l] @ dialing (drop (Suc i) ls)"
    using assms by (cases l) (simp_all add: upd_conv_take_nth_drop)
  have "dialing ls = dialing (take i ls @ ls ! i # drop (Suc i) ls)" using assms by (simp only: id_take_nth_drop [symmetric])
  then have o: "dialing ls = dialing (take i ls) @ dialing [ls ! i] @ dialing (drop (Suc i) ls)"
    by (cases "ls ! i") simp_all
  show ?thesis unfolding u by (subst o) simp
qed

lemma dialing_moves:
  assumes "i < length ls"
  shows "ls ! i = Listening \<Longrightarrow> mset (dialing (ls[i := Dialing c])) = add_mset c (mset (dialing ls))"
    and "ls ! i = Listening \<Longrightarrow> mset (dialing (ls[i := Ended e])) = mset (dialing ls)"
    and "ls ! i = Dialing c \<Longrightarrow> mset (dialing ls) = add_mset c (mset (dialing (ls[i := Listening])))"
    and "ls ! i = Dialing c \<Longrightarrow> mset (dialing ls) = add_mset c (mset (dialing (ls[i := Ended e])))"
  using dialing_update [OF assms, of "Dialing c"] dialing_update [OF assms, of "Ended e"] dialing_update [OF assms, of Listening]
  by simp_all

lemma accounted_step:
  assumes "fr_step s t" "accounted s"
  shows "accounted t"
  using assms
proof (induction rule: fr_step.induct)
  case (fr_dial s i c)
  then show ?case using dialing_moves(3) [OF fr_dial(2,3)] by (simp add: accounted_def)
next
  case (fr_dial_err s i c e)
  then show ?case using dialing_moves(4) [OF fr_dial_err(2,3), of e] by (simp add: accounted_def)
qed (simp_all add: accounted_def dialing_moves(1,2))

lemma accounted_reach: "fr_reach ls watched s \<Longrightarrow> accounted s"
proof (induction rule: fr_reach.induct)
  case fr_start
  have "dialing (map (\<lambda>_. Listening) xs) = []" for xs :: "ParsedAddr list" by (induction xs) simp_all
  then show ?case by (simp add: accounted_def frun_init_def)
qed (rule accounted_step)


section \<open>Shutting down\<close>

text \<open>Once all listeners are closed, a bound on the steps that are left.\<close>

definition loop_work :: "loop \<Rightarrow> nat" where
  "loop_work l = (case l of Listening \<Rightarrow> 1 | Dialing _ \<Rightarrow> 2 | Ended _ \<Rightarrow> 0)"

definition fr_work :: "frun \<Rightarrow> nat" where
  "fr_work s = sum_list (map loop_work (fr_loops s)) + (if fr_exit s = None then 1 else 0)"

lemma loop_work_less:
  assumes "i < length ls" "loop_work l < loop_work (ls ! i)"
  shows "sum_list (map loop_work (ls[i := l])) < sum_list (map loop_work ls)"
proof -
  have "map loop_work (ls[i := l]) = (map loop_work ls)[i := loop_work l]" by (simp add: map_update)
  moreover have "loop_work (ls ! i) \<le> sum_list (map loop_work ls)" using assms(1) by (metis elem_le_sum_list length_map nth_map)
  ultimately show ?thesis using assms by (simp add: sum_list_update)
qed

lemma shutdown_step:
  assumes "fr_step s t" "fr_inv n s" "fr_sig s = Closed"
  shows "fr_work t < fr_work s \<and> fr_sig t = Closed \<and> fr_next t = fr_next s"
  using assms
proof (induction rule: fr_step.induct)
  case (fr_accept s i)
  then have False by (simp add: fr_inv_def)
  then show ?case ..
next
  case (fr_accept_err s i e)
  then show ?case using loop_work_less [of i "fr_loops s" "Ended e"] by (simp add: fr_work_def loop_work_def)
next
  case (fr_dial s i c)
  then show ?case using loop_work_less [of i "fr_loops s" Listening] by (simp add: fr_work_def loop_work_def)
next
  case (fr_dial_err s i c e)
  then show ?case using loop_work_less [of i "fr_loops s" "Ended e"] by (simp add: fr_work_def loop_work_def)
qed (simp_all add: fr_work_def)

lemma fr_progress:
  assumes "fr_exit s = None"
  shows "\<exists>t. fr_step s t"
proof (cases "\<forall>l \<in> set (fr_loops s). \<exists>e. l = Ended e")
  case True
  then show ?thesis using fr_return [OF assms] by blast
next
  case False
  then obtain i where i: "i < length (fr_loops s)" "\<forall>e. fr_loops s ! i \<noteq> Ended e" by (auto simp: in_set_conv_nth)
  then show ?thesis
    by (cases "fr_loops s ! i") (auto intro: fr_accept_err [OF assms] fr_dial [OF assms])
qed

interpretation shutdown: bounded_run fr_step "\<lambda>s. fr_inv n s \<and> fr_sig s = Closed \<and> fr_next s = c" fr_work "\<lambda>s. fr_exit s \<noteq> None" for n c
  by unfold_locales (auto intro: fr_inv_step fr_progress dest: shutdown_step)


section \<open>Properties\<close>


lemma demo_run:
  "fr_reach [pa] False \<lparr>fr_loops = [Dialing 0], fr_sig = NoSignal, fr_lisClosed = [False], fr_bClosed = False,
     fr_watched = False, fr_joined = [], fr_orphans = [], fr_next = 1, fr_exit = None\<rparr>"
  using fr_more [OF fr_start fr_accept [of "frun_init [pa] False" 0]] by (simp add: frun_init_def)



lemma demo_signal:
  "fr_reach [pa] False \<lparr>fr_loops = [Dialing 0], fr_sig = Closed, fr_lisClosed = [True], fr_bClosed = True,
     fr_watched = False, fr_joined = [], fr_orphans = [], fr_next = 1, fr_exit = None\<rparr>" (is "fr_reach _ _ ?t")
proof -
  let ?s = "\<lparr>fr_loops = [Dialing 0], fr_sig = NoSignal, fr_lisClosed = [False], fr_bClosed = False,
     fr_watched = False, fr_joined = [], fr_orphans = [], fr_next = 1, fr_exit = None\<rparr>"
  have 1: "fr_reach [pa] False (?s\<lparr>fr_sig := Closing 0\<rparr>)" by (rule fr_more [OF demo_run fr_signal]) simp_all
  from fr_more [OF 1 fr_close_lis [of _ 0]] have 2: "fr_reach [pa] False (?s\<lparr>fr_sig := Closing 1, fr_lisClosed := [True]\<rparr>)" by simp
  from fr_more [OF 2 fr_close_b] show ?thesis by simp
qed


text \<open>
  A connection to the device that fails drops the connection that was accepted for it: it is neither forwarded nor closed.
\<close>

theorem failed_dial_drops_connection:
  "\<exists>s. fr_reach [pa] False s \<and> fr_orphans s = [0] \<and> fr_joined s = [] \<and> fr_loops s = [Ended EOF]"
  using fr_more [OF demo_run fr_dial_err [of _ 0 0 EOF], of pa] by force

end
