(* ===== verification/InstallStream.thy ===== *)
theory InstallStream
  imports Install Stream
begin

text \<open>
  The package on its way: \<open>Install\<close> of \<open>client/client.go\<close> from the file to the response, and the server's reader of the
  package, which is the standard input of the \<open>install-write\<close> command or is copied to the temporary file.
\<close>

section \<open>The client\<close>

text \<open>
  The whole call: the size of the file, opening the stream, the request, the copy of the file into messages and the
  response. \<open>reply\<close> is the server's answer to the messages; \<open>None\<close> is a copy that does not end.
\<close>

definition Install_call ::
    "nat \<Rightarrow> nat result \<Rightarrow> go_error option \<Rightarrow> string list \<Rightarrow> input \<Rightarrow> InstallRequest sender \<Rightarrow>
     (InstallRequest list \<Rightarrow> InstallResponse result) \<Rightarrow> ((string \<times> go_error option) \<times> InstallRequest sender) option"
where
  "Install_call fuel stat openErr args f s reply =
     (case stat of
        Inl e \<Rightarrow> Some (([], Some e), s)
      | Inr sz \<Rightarrow>
          (case openErr of
             Some e \<Rightarrow> Some (([], Some e), s)
           | None \<Rightarrow>
               (case SendMsg s (install_request args sz) of
                  (Some e, s1) \<Rightarrow> Some (([], Some e), s1)
                | (None, s1) \<Rightarrow>
                    (case io_copy fuel input_read (swrite install_BuildMsg install_SetBytes) f s1 of
                       None \<Rightarrow> None
                     | Some (Some e, _, s2) \<Rightarrow> Some (([], Some e), s2)
                     | Some (None, _, s2) \<Rightarrow> Some (client_Install (reply (sd_sent s2)), s2)))))"

section \<open>The server\<close>

text \<open>
  The server's reader of the package over the messages behind the request, read to its end into a file or a process.
\<close>

definition install_payload :: "nat \<Rightarrow> nat list \<Rightarrow> InstallRequest list \<Rightarrow> sink \<Rightarrow> (go_error option \<times> bytes) option" where
  "install_payload fuel sched ms f =
     map_option (\<lambda>(e, _, f'). (e, snk_bytes f')) (io_copy fuel (Reader_Read install_GetBytes) sink_write (NewReader (tl ms) EOF sched) f)"


section \<open>Properties\<close>

text \<open>
  (C29) A package arrives whole. For a file of fewer than \<open>2 ^ 32\<close> bytes over a working stream, the client's copy ends, the server's
  reader delivers exactly the bytes of the file, whatever the portions and the schedule, the size that is announced
  to the package manager is their number, and the client reports what the server answers to these messages.
\<close>

theorem install_payload_end_to_end:
  assumes "in_err f = EOF" and "concat (in_chunks f) = apk" and "sd_room s = None" and "sd_sent s = []"
    and "length (in_chunks f) + length apk < fuel" and "2 * length apk < fuel'" and "length apk < 2 ^ 32"
    and "snk_room w = None" and "snk_bytes w = []"
  shows "\<exists>s' ms. Install_call fuel (Inr (length apk)) None args f s reply = Some (client_Install (reply (sd_sent s')), s') \<and>
    sd_sent s' = install_request args (length apk) # ms \<and>
    install_payload fuel' sched (sd_sent s') w = Some (None, apk) \<and>
    unat (ir_apk_size (hd (sd_sent s'))) = length apk"
proof -
  let ?req = "install_request args (length apk)"
  let ?s = "s\<lparr>sd_sent := [?req]\<rparr>"
  have send: "SendMsg s ?req = (None, ?s)" using assms(3,4) by (simp add: SendMsg_def)
  have "sd_room ?s = None" "sd_sent ?s = [?req]" "in_delivers f apk" "in_work f < fuel"
    using assms by (simp_all add: in_delivers_def in_work_def)
  from ins.copied_up [OF this] obtain f' s' ms where cp:
    "io_copy fuel input_read (swrite install_BuildMsg install_SetBytes) f ?s = Some (None, f', s')"
    "sd_sent s' = ?req # ms" "carries install_GetBytes ms apk"
    by auto
  have "Install_call fuel (Inr (length apk)) None args f s reply = Some (client_Install (reply (sd_sent s')), s')"
    by (simp add: Install_call_def send cp(1))
  moreover have "install_payload fuel' sched (sd_sent s') w = Some (None, apk)" 
    using copied_down [OF cp(3) assms(8,6), of sched] assms(9) cp(2) by (auto simp: install_payload_def)
  moreover have "unat (ir_apk_size ?req) = length apk" using assms(7) by (simp add: install_request_def)
  ultimately show ?thesis using cp(2) by auto
qed

theorem install_payload_end_to_end_witness:
  "\<exists>s'. Install_call 9 (Inr 3) None [''-r''] \<lparr>in_chunks = [[1, 2], [3]], in_err = EOF\<rparr>
      \<lparr>sd_sent = [], sd_room = None, sd_err = EOF\<rparr> (\<lambda>_. Inr (response 0 ''Success'')) = Some ((''Success'', None), s') \<and>
    install_payload 9 [0, 2] (sd_sent s') \<lparr>snk_bytes = [], snk_room = None, snk_err = EOF\<rparr> = Some (None, [1, 2, 3])"
  using install_payload_end_to_end [of "\<lparr>in_chunks = [[1, 2], [3]], in_err = EOF\<rparr>" "[1, 2, 3]"
      "\<lparr>sd_sent = [], sd_room = None, sd_err = EOF\<rparr>" 9 9 "\<lparr>snk_bytes = [], snk_room = None, snk_err = EOF\<rparr>"
      "[''-r'']" "\<lambda>_. Inr (response 0 ''Success'')" "[0, 2]"]
  by (auto simp: client_Install_def response_def numeral_3_eq_3)

text \<open>
  A file of \<open>2 ^ 32\<close> bytes or more is sent whole, but the announced size is its size modulo \<open>2 ^ 32\<close>, so the package manager is
  told a size that is not that of its input.
\<close>

theorem large_package_size:
  "2 ^ 32 \<le> sz \<Longrightarrow> unat (ir_apk_size (install_request args sz)) \<noteq> sz"
  using unsigned_less [of "ir_apk_size (install_request args sz)", where 'a = nat] by simp

end
