(* ===== verification/PushControl.thy ===== *)
theory PushControl
  imports Runs
begin

text \<open>
  The goroutines of \<open>Push\<close> and \<open>PushBytes\<close> in \<open>client/client.go\<close>: one packs the files into the writing end of an \<open>io.Pipe\<close> and
  closes it, one reads the pipe and sends (\<open>pushTar\<close>), and the caller waits for both; the reading end is closed by a
  deferred call of the caller, after the wait. A write to the pipe returns when its bytes were read, or when the reading end
  is closed. What a push transfers is the theory on file transfers; here it is shown when the call returns.
\<close>

section \<open>The goroutines\<close>

text \<open>
  The packing goroutine carries the error that packing will return and the sizes of the writes that are left; in a write, also
  how many bytes of it nobody has read yet. The sending goroutine reads at most \<open>pushBuff\<close> bytes at a time, sends them and, at the
  end of the pipe, receives the answer. The caller waits.
\<close>

datatype packer = Packing "go_error option" "nat list" | Writing "go_error option" nat "nat list" | PackEnded "go_error option"

datatype sending = NotStarted | Reading | Sending | SendEnded "go_error option"

datatype pusher = Waiting | PushReturned "go_error option"

record push =
  ps_packer :: packer
  ps_sender :: sending
  ps_wClosed :: bool
  ps_rClosed :: bool
  ps_groupErr :: "go_error option"
  ps_main :: pusher

definition pushBuff :: nat where
  "pushBuff = 64 * 1024"

text \<open>
  The start: when the stream cannot be opened, \<open>pushTar\<close> returns the error, and the deferred close of the reading end runs.
\<close>

definition push_init :: "nat list \<Rightarrow> go_error option \<Rightarrow> push" where
  "push_init ws openErr =
     (case openErr of
        None \<Rightarrow> \<lparr>ps_packer = Packing None ws, ps_sender = Reading, ps_wClosed = False, ps_rClosed = False, ps_groupErr = None,
                 ps_main = Waiting\<rparr>
      | Some e \<Rightarrow> \<lparr>ps_packer = Packing None ws, ps_sender = NotStarted, ps_wClosed = False, ps_rClosed = True, ps_groupErr = None,
                   ps_main = PushReturned (Some e)\<rparr>)"

text \<open>
  The steps. When packing fails, the deferred close of the archive writer may still write the end of the archive, with the writes
  \<open>closing\<close>; the error of a write in that close is dropped. A read takes the bytes of one write, and nothing is sent for an empty one.
\<close>

inductive push_step :: "nat list \<Rightarrow> push \<Rightarrow> push \<Rightarrow> bool" for closing where
  begin_write: "ps_packer s = Packing e (w # ws) \<Longrightarrow> push_step closing s (s\<lparr>ps_packer := Writing e w ws\<rparr>)"
| hand_over: "ps_packer s = Writing e w ws \<Longrightarrow> ps_sender s = Reading \<Longrightarrow>
    push_step closing s (s\<lparr>ps_packer := (if w \<le> pushBuff then Packing e ws else Writing e (w - pushBuff) ws),
      ps_sender := (if w = 0 then Reading else Sending)\<rparr>)"
| write_closed: "ps_packer s = Writing e w ws \<Longrightarrow> ps_rClosed s \<Longrightarrow> e' = e \<or> e = None \<and> e' = Some ErrClosedPipe \<Longrightarrow>
    push_step closing s (s\<lparr>ps_packer := Packing e' []\<rparr>)"
| pack_fails: "ps_packer s = Packing None ws \<Longrightarrow> ws' = [] \<or> ws' = closing \<Longrightarrow>
    push_step closing s (s\<lparr>ps_packer := Packing (Some e) ws'\<rparr>)"
| pack_done: "ps_packer s = Packing e [] \<Longrightarrow>
    push_step closing s (s\<lparr>ps_packer := PackEnded e, ps_wClosed := True, ps_groupErr := keep_err (ps_groupErr s) e\<rparr>)"
| send: "ps_sender s = Sending \<Longrightarrow> push_step closing s (s\<lparr>ps_sender := Reading\<rparr>)"
| send_fails: "ps_sender s = Sending \<Longrightarrow>
    push_step closing s (s\<lparr>ps_sender := SendEnded (Some e), ps_groupErr := keep_err (ps_groupErr s) (Some e)\<rparr>)"
| answer: "ps_sender s = Reading \<Longrightarrow> ps_wClosed s \<Longrightarrow>
    push_step closing s (s\<lparr>ps_sender := SendEnded r, ps_groupErr := keep_err (ps_groupErr s) r\<rparr>)"
| push_return: "ps_main s = Waiting \<Longrightarrow> ps_packer s = PackEnded a \<Longrightarrow> ps_sender s = SendEnded b \<Longrightarrow>
    push_step closing s (s\<lparr>ps_main := PushReturned (ps_groupErr s), ps_rClosed := True\<rparr>)"

inductive push_reach :: "nat list \<Rightarrow> nat list \<Rightarrow> push \<Rightarrow> bool" for closing ws where
  push_start: "push_reach closing ws (push_init ws openErr)"
| push_next: "push_reach closing ws s \<Longrightarrow> push_step closing s t \<Longrightarrow> push_reach closing ws t"

inductive_cases push_stepE: "push_step closing s t"


section \<open>The invariant\<close>

definition push_inv :: "push \<Rightarrow> bool" where
  "push_inv s \<longleftrightarrow> (ps_wClosed s \<longleftrightarrow> (\<exists>e. ps_packer s = PackEnded e)) \<and>
     (ps_sender s = SendEnded None \<longrightarrow> ps_wClosed s) \<and>
     (ps_main s = Waiting \<longrightarrow> \<not> ps_rClosed s \<and> ps_sender s \<noteq> NotStarted) \<and>
     (ps_groupErr s = None \<longleftrightarrow> (\<forall>e. ps_packer s \<noteq> PackEnded (Some e)) \<and> (\<forall>e. ps_sender s \<noteq> SendEnded (Some e))) \<and>
     (ps_main s = PushReturned None \<longrightarrow> ps_packer s = PackEnded None \<and> ps_sender s = SendEnded None)"

lemma push_inv_step:
  assumes "push_step closing s t" "push_inv s"
  shows "push_inv t"
  using assms
proof (induction rule: push_step.induct)
  case (answer s r)
  then show ?case by (cases r) (auto simp: push_inv_def)
next
  case (pack_done s e)
  then show ?case by (cases e) (auto simp: push_inv_def)
next
  case (push_return s a b)
  then show ?case by (cases a; cases b) (auto simp: push_inv_def)
qed (auto simp: push_inv_def)

lemma push_reach_inv: "push_reach closing ws s \<Longrightarrow> push_inv s"
proof (induction rule: push_reach.induct)
  case (push_start openErr)
  show ?case by (cases openErr) (simp_all add: push_inv_def push_init_def)
qed (rule push_inv_step)

text \<open>Every step brings the call closer to its end.\<close>

definition writes_work :: "nat list \<Rightarrow> nat" where
  "writes_work ws = (\<Sum>w\<leftarrow>ws. 4 * w + 5)"

lemma writes_work_simps [simp]: "writes_work [] = 0" "writes_work (w # ws) = 4 * w + 5 + writes_work ws"
  by (simp_all add: writes_work_def)

fun packer_work :: "nat list \<Rightarrow> packer \<Rightarrow> nat" where
  "packer_work cl (Packing e ws) = writes_work ws + 1 + (if e = None then writes_work cl + 1 else 0)"
| "packer_work cl (Writing e w ws) = 4 * w + 4 + writes_work ws + 1 + (if e = None then writes_work cl + 1 else 0)"
| "packer_work cl (PackEnded e) = 0"

definition push_work :: "nat list \<Rightarrow> push \<Rightarrow> nat" where
  "push_work cl s = packer_work cl (ps_packer s) + (case ps_sender s of Sending \<Rightarrow> 3 | Reading \<Rightarrow> 1 | _ \<Rightarrow> 0) +
     (if ps_main s = Waiting then 1 else 0)"

lemma push_step_work: "push_step closing s t \<Longrightarrow> push_work closing t < push_work closing s"
  by (induction rule: push_step.induct) (auto simp: push_work_def pushBuff_def)

text \<open>A waiting call is stuck exactly when the packing goroutine is in a write and the sending goroutine has failed.\<close>

lemma push_stuck:
  assumes "push_inv s" "ps_main s = Waiting"
  shows "(\<nexists>t. push_step closing s t) \<longleftrightarrow> (\<exists>e w ws e'. ps_packer s = Writing e w ws \<and> ps_sender s = SendEnded (Some e'))"
proof (cases "ps_packer s")
  case (Packing e ws)
  show ?thesis
  proof (cases ws)
    case Nil
    then show ?thesis using pack_done [of s e closing] Packing by auto
  next
    case (Cons w ws')
    then show ?thesis using begin_write [of s e w ws' closing] Packing by auto
  qed
next
  case (Writing e w ws)
  show ?thesis
  proof (cases "ps_sender s")
    case Reading
    then show ?thesis using hand_over [OF Writing Reading, of closing] by auto
  next
    case Sending
    then show ?thesis using send [OF Sending, of closing] by auto
  next
    case (SendEnded r)
    then have "r \<noteq> None" "\<not> ps_rClosed s" using assms Writing by (auto simp: push_inv_def)
    then show ?thesis using Writing SendEnded by (auto elim: push_stepE)
  qed (use assms in \<open>simp add: push_inv_def\<close>)
next
  case (PackEnded a)
  then have w: "ps_wClosed s" using assms(1) by (simp add: push_inv_def)
  have "\<exists>t. push_step closing s t"
  proof (cases "ps_sender s")
    case Reading
    then show ?thesis using answer [OF Reading w] by blast
  next
    case Sending
    then show ?thesis using send [OF Sending] by blast
  next
    case (SendEnded b)
    then show ?thesis using push_return [OF assms(2) PackEnded SendEnded] by blast
  qed (use assms in \<open>simp add: push_inv_def\<close>)
  then show ?thesis using PackEnded by auto
qed


section \<open>Properties\<close>

text \<open>
  (C26) When a push returns. Every run of the goroutines of a push is finite, whatever their interleaving and the sizes of the
  writes; a call that has not returned can go on, except in one situation: a message could not be sent while there was more to
  pack. Then the call never returns, for the packing goroutine waits for a reader that is closed only after the wait for
  that goroutine. A call that returns without an error has packed and sent everything without an error.
\<close>

theorem push_returns_or_hangs:
  assumes "push_reach closing ws s"
  shows "(\<forall>t. push_step closing s t \<longrightarrow> push_work closing t < push_work closing s) \<and>
    (ps_main s = Waiting \<longrightarrow>
       ((\<nexists>t. push_step closing s t) \<longleftrightarrow>
        (\<exists>e w ws' e'. ps_packer s = Writing e w ws' \<and> ps_sender s = SendEnded (Some e')))) \<and>
    (ps_main s = PushReturned None \<longrightarrow> ps_packer s = PackEnded None \<and> ps_sender s = SendEnded None)"
  using push_step_work push_stuck [OF push_reach_inv [OF assms]] push_reach_inv [OF assms] by (auto simp: push_inv_def)

text \<open>Two writes of a block each, and the first message cannot be sent.\<close>

definition push_state :: "packer \<Rightarrow> sending \<Rightarrow> go_error option \<Rightarrow> push" where
  "push_state p snd1 e = \<lparr>ps_packer = p, ps_sender = snd1, ps_wClosed = False, ps_rClosed = False, ps_groupErr = e, ps_main = Waiting\<rparr>"

lemma push_hang_reach: "push_reach [] [512, 512] (push_state (Writing None 512 []) (SendEnded (Some EOF)) (Some EOF))"
proof -
  have 0: "push_reach [] [512, 512] (push_state (Packing None [512, 512]) Reading None)"
    using push_start [of "[]" "[512, 512]" None] by (simp add: push_init_def push_state_def)
  from push_next [OF 0 begin_write [of _ None 512 "[512]"]]
  have 1: "push_reach [] [512, 512] (push_state (Writing None 512 [512]) Reading None)" by (simp add: push_state_def)
  from push_next [OF 1 hand_over [of _ None 512 "[512]"]]
  have 2: "push_reach [] [512, 512] (push_state (Packing None [512]) Sending None)" by (simp add: push_state_def pushBuff_def)
  from push_next [OF 2 send_fails [of _ _ EOF]]
  have 3: "push_reach [] [512, 512] (push_state (Packing None [512]) (SendEnded (Some EOF)) (Some EOF))" by (simp add: push_state_def)
  from push_next [OF 3 begin_write [of _ None 512 "[]"]] show ?thesis by (simp add: push_state_def)
qed

theorem push_returns_or_hangs_witness:
  "\<not> (\<exists>t. push_step [] (push_state (Writing None 512 []) (SendEnded (Some EOF)) (Some EOF)) t)"
  using push_returns_or_hangs [OF push_hang_reach] by (simp add: push_state_def)

end
