(* ===== verification/PortTunnel.thy ===== *)
theory PortTunnel
  imports Forward Ports Server Reverse
begin

text \<open>
  Forwarded ports from end to end: the forwarder of \<open>forward/stream.go\<close> between a socket and a stream; the connection that
  the accept loop of \<open>forward/ports/ports.go\<close> hands to it on the host, and \<open>Forward\<close> of \<open>server/server.go\<close>, which dials on the
  device and forwards from there; and the other way round, the receive loop of a reverse session on the host with
  \<open>ReverseForward\<close> on the device. The control flow of \<open>Forward\<close>, with its goroutines, is the theory \<open>ForwardCtl\<close>; here are
  the bytes that both directions carry.
\<close>

section \<open>Sockets\<close>

text \<open>
  A connection of the host's or the device's network: what its peer has sent and will have sent, what is written to the
  peer, and the halves that were closed.
\<close>

record sock =
  so_in :: input
  so_out :: sink
  so_cr :: bool
  so_cw :: bool

definition sock_Read :: "sock reader" where
  "sock_Read c n =
     (if so_cr c then Some (([], Some EOF), c) else map_option (\<lambda>(v, i). (v, c\<lparr>so_in := i\<rparr>)) (input_read (so_in c) n))"

definition sock_Write :: "sock writer" where
  "sock_Write c b =
     (if so_cw c then ((0, Some ErrClosedPipe), c) else (case sink_write (so_out c) b of (v, s) \<Rightarrow> (v, c\<lparr>so_out := s\<rparr>)))"

definition sock_CloseRead :: "sock \<Rightarrow> sock" where
  "sock_CloseRead c = c\<lparr>so_cr := True\<rparr>"

definition sock_CloseWrite :: "sock \<Rightarrow> sock" where
  "sock_CloseWrite c = c\<lparr>so_cw := True\<rparr>"

definition sock_Close :: "sock \<Rightarrow> sock" where
  "sock_Close c = c\<lparr>so_cr := True, so_cw := True\<rparr>"

text \<open>A new connection, whose peer sends \<open>bs\<close> and closes its side.\<close>

definition fresh_sock :: "sock \<Rightarrow> bytes \<Rightarrow> bool" where
  "fresh_sock c bs \<longleftrightarrow> \<not> so_cr c \<and> \<not> so_cw c \<and> in_delivers (so_in c) bs \<and> snk_room (so_out c) = None \<and> snk_bytes (so_out c) = []"


section \<open>The forwarder of a stream\<close>

text \<open>The copies of the two goroutines: from the connection to the stream, and back.\<close>

definition copy_out :: "nat \<Rightarrow> sock StreamForwarder \<Rightarrow> (go_error option \<times> sock StreamForwarder) option" where
  "copy_out fuel f =
     map_option (\<lambda>(e, c, s). (e, f\<lparr>sw_stream := s, sw_conn := c\<rparr>))
       (asyncCopy fuel sock_Read fwd_Write sock_CloseRead fwd_closeWrite (sw_conn f) (sw_stream f))"

definition copy_in :: "nat \<Rightarrow> sock StreamForwarder \<Rightarrow> (go_error option \<times> sock StreamForwarder) option" where
  "copy_in fuel f =
     map_option (\<lambda>(e, s, c). (e, f\<lparr>sw_stream := s, sw_conn := c\<rparr>))
       (asyncCopy fuel fwd_Read sock_Write (\<lambda>s. snd (rwc_CloseRead s)) sock_CloseWrite (sw_stream f) (sw_conn f))"

text \<open>
  \<open>Forward\<close> of the forwarder. The two copies work on different halves of the two ends; \<open>outFirst\<close> says which of them ends
  first. An error ends the call and both ends are closed; otherwise they are closed when both copies have ended. What the
  second copy had moved when the first one failed is not represented.
\<close>

definition StreamForwarder_Forward :: "bool \<Rightarrow> nat \<Rightarrow> sock StreamForwarder \<Rightarrow> (go_error option \<times> sock StreamForwarder) option" where
  "StreamForwarder_Forward outFirst fuel f =
     (let close = (\<lambda>f. snd (StreamForwarder_Stop sock_Close f));
          first = (if outFirst then copy_out else copy_in); second = (if outFirst then copy_in else copy_out)
      in case first fuel f of
           None \<Rightarrow> None
         | Some (Some e, f1) \<Rightarrow> Some (Some e, close f1)
         | Some (None, f1) \<Rightarrow> map_option (\<lambda>(e, f2). (e, close f2)) (second fuel f1))"

text \<open>
  A connection that the accept loop of the host took: the stream's first message names the destination, and the forwarder is
  run; without a forwarder the connection is closed. The result has the stream's messages and the connection.
\<close>

definition serve_conn ::
    "go_error option \<Rightarrow> bool \<Rightarrow> nat \<Rightarrow> string \<Rightarrow> ForwardMessage list \<Rightarrow> go_error \<Rightarrow> nat list \<Rightarrow> ForwardMessage sender \<Rightarrow> sock \<Rightarrow>
     (go_error option \<times> ForwardMessage sender \<times> sock) option"
where
  "serve_conn rpcErr outFirst fuel dst down fin sched sd conn =
     (case makeForwarder rpcErr None dst of
        Inl e \<Rightarrow> Some (Some e, sd, sock_Close conn)
      | Inr m \<Rightarrow>
          (case SendMsg sd m of
             (Some e, sd') \<Rightarrow> Some (Some e, sd', sock_Close conn)
           | (None, sd') \<Rightarrow>
               map_option (\<lambda>(e, f). (e, rw_w (sw_stream f), sw_conn f))
                 (StreamForwarder_Forward outFirst fuel (NewStreamForwarder down fin sched sd' conn))))"

text \<open>The server's handler: the first message of the stream is received, its address dialled, and the rest forwarded.\<close>

definition server_Forward_call ::
    "(string \<Rightarrow> string \<Rightarrow> sock result) \<Rightarrow> bool \<Rightarrow> nat \<Rightarrow> ForwardMessage list \<Rightarrow> go_error \<Rightarrow> nat list \<Rightarrow> ForwardMessage sender \<Rightarrow>
     (go_error option \<times> ForwardMessage sender \<times> sock option) option"
where
  "server_Forward_call dial outFirst fuel up fin sched sd =
     (case server_Forward dial (case up of [] \<Rightarrow> Inl fin | m # _ \<Rightarrow> Inr m) of
        Inl e \<Rightarrow> Some (Some e, sd, None)
      | Inr conn \<Rightarrow>
          map_option (\<lambda>(e, f). (e, rw_w (sw_stream f), Some (sw_conn f)))
            (StreamForwarder_Forward outFirst fuel (NewStreamForwarder (tl up) fin sched sd conn)))"


text \<open>
  A turn of the receive loop of a reverse session on the host: the stream's first message answers the message \<open>msg\<close> of the
  device, and the forwarder is run on the connection that was dialled, if it was.
\<close>

definition reverse_host_call ::
    "fkind \<Rightarrow> string \<Rightarrow> sock result \<Rightarrow> bool \<Rightarrow> nat \<Rightarrow> ForwardMessage \<Rightarrow> ForwardMessage list \<Rightarrow> go_error \<Rightarrow> nat list \<Rightarrow>
     ForwardMessage sender \<Rightarrow> (go_error option \<times> ForwardMessage sender \<times> sock option) option"
where
  "reverse_host_call k a dialled outFirst fuel msg down fin sched sd =
     (case (receive_turn k a (Inr msg) None None (case dialled of Inl e \<Rightarrow> Some e | Inr _ \<Rightarrow> None), dialled) of
        (Piped m, Inr conn) \<Rightarrow>
          (case SendMsg sd m of
             (Some e, sd') \<Rightarrow> Some (Some e, sd', None)
           | (None, sd') \<Rightarrow>
               map_option (\<lambda>(e, f). (e, rw_w (sw_stream f), Some (sw_conn f)))
                 (StreamForwarder_Forward outFirst fuel (NewStreamForwarder down fin sched sd' conn)))
      | (DialFailed m, _) \<Rightarrow> (case SendMsg sd m of (e, sd') \<Rightarrow> Some (e, sd', None))
      | _ \<Rightarrow> Some (None, sd, None))"

text \<open>
  \<open>ReverseForward\<close> on the device: the first message of the stream names an accepted connection, which is forwarded and then
  forgotten. \<open>socks\<close> are the connections of the device.
\<close>

definition server_ReverseForward_call ::
    "(nat \<Rightarrow> sock) \<Rightarrow> bool \<Rightarrow> nat \<Rightarrow> ForwardMessage list \<Rightarrow> go_error \<Rightarrow> nat list \<Rightarrow> ForwardMessage sender \<Rightarrow> WaterfallServer \<Rightarrow>
     (go_error option \<times> ForwardMessage sender \<times> sock option \<times> WaterfallServer) option"
where
  "server_ReverseForward_call socks outFirst fuel up fin sched sd s =
     (case up of
        [] \<Rightarrow> Some (Some fin, sd, None, s)
      | m # ms \<Rightarrow>
          (case ReverseForward m s of
             Inl e \<Rightarrow> Some (Some e, sd, None, s)
           | Inr (p, cID, conn) \<Rightarrow>
               map_option (\<lambda>(e, f). (e, rw_w (sw_stream f), Some (sw_conn f), ReverseForward_done p cID s))
                 (StreamForwarder_Forward outFirst fuel (NewStreamForwarder ms fin sched sd (socks conn)))))"


section \<open>The copies on their halves\<close>

lemma sock_read_lift:
  "\<not> so_cr c \<Longrightarrow> io_copy fuel sock_Read wr c w =
     map_option (\<lambda>(e, i, w'). (e, c\<lparr>so_in := i\<rparr>, w')) (io_copy fuel input_read wr (so_in c) w)"
  using io_copy_lift_reader [of sock_Read "\<lambda>i. c\<lparr>so_in := i\<rparr>" input_read fuel wr "so_in c" w] by (simp add: sock_Read_def)

lemma sock_write_lift:
  "\<not> so_cw c \<Longrightarrow> io_copy fuel rd sock_Write r c =
     map_option (\<lambda>(e, r', s). (e, r', c\<lparr>so_out := s\<rparr>)) (io_copy fuel rd sink_write r (so_out c))"
  using io_copy_lift_writer [of sock_Write "\<lambda>s. c\<lparr>so_out := s\<rparr>" sink_write fuel rd r "so_out c"]
  by (simp add: sock_Write_def split: prod.split)

lemma stream_read_lift:
  "\<not> rw_cr s \<Longrightarrow> io_copy fuel (rwc_Read g) wr s w =
     map_option (\<lambda>(e, r, w'). (e, s\<lparr>rw_r := r\<rparr>, w')) (io_copy fuel (Reader_Read g) wr (rw_r s) w)"
  using io_copy_lift_reader [of "rwc_Read g" "\<lambda>r. s\<lparr>rw_r := r\<rparr>" "Reader_Read g" fuel wr "rw_r s" w] by (simp add: rwc_Read_def)

lemma stream_write_lift:
  "\<not> rw_cw s \<Longrightarrow> io_copy fuel rd (rwc_Write B S) r s =
     map_option (\<lambda>(e, r', w). (e, r', s\<lparr>rw_w := w\<rparr>)) (io_copy fuel rd (swrite B S) r (rw_w s))"
  using io_copy_lift_writer [of "rwc_Write B S" "\<lambda>w. s\<lparr>rw_w := w\<rparr>" "swrite B S" fuel rd r "rw_w s"]
  by (simp add: rwc_Write_def split: prod.split)

text \<open>Each copy changes its own halves only.\<close>

lemma copy_out_ok:
  assumes "\<not> so_cr (sw_conn f)" "\<not> rw_cw (sw_stream f)"
    and "io_copy fuel input_read (swrite fwd_BuildMsg fwd_SetBytes) (so_in (sw_conn f)) (rw_w (sw_stream f)) = Some (e, i, w)"
  shows "copy_out fuel f = Some (e, f\<lparr>sw_stream := (sw_stream f)\<lparr>rw_w := snd (SendMsg w fwd_CloseMsg), rw_cw := True\<rparr>,
    sw_conn := (sw_conn f)\<lparr>so_in := i, so_cr := True\<rparr>\<rparr>)"
  using assms
  by (simp add: copy_out_def asyncCopy_def sock_read_lift stream_write_lift sock_CloseRead_def fwd_closeWrite_def rwc_CloseWrite_def
      split: prod.split)

lemma copy_in_ok:
  assumes "\<not> so_cw (sw_conn f)" "\<not> rw_cr (sw_stream f)"
    and "io_copy fuel (Reader_Read fwd_GetBytes) sink_write (rw_r (sw_stream f)) (so_out (sw_conn f)) = Some (e, r, s)"
  shows "copy_in fuel f = Some (e, f\<lparr>sw_stream := (sw_stream f)\<lparr>rw_r := r, rw_cr := True\<rparr>,
    sw_conn := (sw_conn f)\<lparr>so_out := s, so_cw := True\<rparr>\<rparr>)"
  using assms
  by (simp add: copy_in_def asyncCopy_def sock_write_lift stream_read_lift sock_CloseWrite_def rwc_CloseRead_def)

text \<open>
  A forwarder whose copies both end without an error: whichever ends first, the messages of the stream are those of the one copy
  with the closing messages, and the connection has received the bytes of the other.
\<close>

lemma forwarder_ok:
  assumes "\<not> so_cr c" "\<not> so_cw c" "sd_room w = None"
    and "io_copy fuel input_read (swrite fwd_BuildMsg fwd_SetBytes) (so_in c) sd = Some (None, i, w)"
    and "io_copy fuel (Reader_Read fwd_GetBytes) sink_write (NewReader ms fin sched) (so_out c) = Some (None, r, s)"
  shows "\<exists>f. StreamForwarder_Forward outFirst fuel (NewStreamForwarder ms fin sched sd c) = Some (None, f) \<and>
    sd_sent (rw_w (sw_stream f)) = sd_sent w @ [fwd_CloseMsg, fwd_CloseMsg] \<and>
    so_out (sw_conn f) = s \<and> so_cr (sw_conn f) \<and> so_cw (sw_conn f)"
  using assms
  by (cases outFirst)
    (simp_all add: StreamForwarder_Forward_def NewStreamForwarder_def NewReadWriteCloser_def copy_out_ok copy_in_ok
      StreamForwarder_Stop_def sock_Close_def rwc_Close_def rwc_CloseWrite_def rwc_CloseRead_def SendMsg_def)

text \<open>What a forwarder sends for a connection is received at the other end.\<close>

lemma fwd_received:
  assumes "carries fwd_GetBytes ms bs" "snk_room w = None" "2 * length bs + 2 < fuel"
  shows "\<exists>r w'. io_copy fuel (Reader_Read fwd_GetBytes) sink_write (NewReader (ms @ [fwd_CloseMsg, fwd_CloseMsg]) fin sched) w
    = Some (None, r, w') \<and> snk_bytes w' = snk_bytes w @ bs"
proof -
  have *: "final_err fwd_GetBytes ms EOF = EOF \<Longrightarrow> payloads fwd_GetBytes (ms @ [fwd_CloseMsg, fwd_CloseMsg]) = payloads fwd_GetBytes ms \<and>
      final_err fwd_GetBytes (ms @ [fwd_CloseMsg, fwd_CloseMsg]) fin = EOF" for ms
    by (induction ms) (auto simp: fwd.get_close split: sum.splits)
  have "s_delivers fwd_GetBytes (NewReader (ms @ [fwd_CloseMsg, fwd_CloseMsg]) fin sched) bs"
    using assms(1) * [of ms] by (simp add: carries_def s_delivers_def NewReader_inv) (simp add: outcome_err_def content_def NewReader_def)
  moreover have "rd_work fwd_GetBytes (NewReader (ms @ [fwd_CloseMsg, fwd_CloseMsg]) fin sched) < fuel"
    using assms(1,3) * [of ms] by (simp add: carries_def rd_work_def pending_def content_def NewReader_def)
  ultimately show ?thesis using stream_sink.io_copy_all [of fwd_GetBytes _ bs w fuel] assms(2) by blast
qed

text \<open>
  Two forwarders at the two ends of a stream, the first behind the message \<open>m\<close> that opened it: each connection receives what
  the peer of the other one sent.
\<close>

lemma joined_forwarders:
  assumes conns: "fresh_sock ch bs" "fresh_sock cd cs"
    and streams: "sd_room sh = None" "sd_sent sh = [m]" "sd_room sd = None" "sd_sent sd = []"
    and fuel: "in_work (so_in ch) < fuel" "in_work (so_in cd) < fuel" "2 * length bs + 2 < fuel" "2 * length cs + 2 < fuel"
  obtains up down f1 f2 where
    "StreamForwarder_Forward o1 fuel (NewStreamForwarder down e1 sched1 sh ch) = Some (None, f1)"
    "StreamForwarder_Forward o2 fuel (NewStreamForwarder up e2 sched2 sd cd) = Some (None, f2)"
    "sd_sent (rw_w (sw_stream f1)) = m # up" "sd_sent (rw_w (sw_stream f2)) = down"
    "snk_bytes (so_out (sw_conn f2)) = bs" "snk_bytes (so_out (sw_conn f1)) = cs"
    "so_cr (sw_conn f1)" "so_cw (sw_conn f1)" "so_cr (sw_conn f2)" "so_cw (sw_conn f2)"
proof -
  let ?cl = "[fwd_CloseMsg, fwd_CloseMsg]"
  note c = conns [unfolded fresh_sock_def]
  obtain i1 w1 ms1 where up: "io_copy fuel input_read (swrite fwd_BuildMsg fwd_SetBytes) (so_in ch) sh = Some (None, i1, w1)"
      "sd_sent w1 = [m] @ ms1" "sd_room w1 = None" "carries fwd_GetBytes ms1 bs"
    using fwd.copied_up [of sh "[m]" "so_in ch" bs fuel] c(1) streams(1,2) fuel(1) by auto
  obtain i2 w2 ms2 where down: "io_copy fuel input_read (swrite fwd_BuildMsg fwd_SetBytes) (so_in cd) sd = Some (None, i2, w2)"
      "sd_sent w2 = ms2" "sd_room w2 = None" "carries fwd_GetBytes ms2 cs"
    using fwd.copied_up [of sd "[]" "so_in cd" cs fuel] c(2) streams(3,4) fuel(2) by auto
  obtain r1 s1 where host: "io_copy fuel (Reader_Read fwd_GetBytes) sink_write (NewReader (ms2 @ ?cl) e1 sched1) (so_out ch) = Some (None, r1, s1)"
      "snk_bytes s1 = cs"
    using fwd_received [OF down(4) _ fuel(4), of "so_out ch" e1 sched1] c(1) by auto
  obtain r2 s2 where dev: "io_copy fuel (Reader_Read fwd_GetBytes) sink_write (NewReader (ms1 @ ?cl) e2 sched2) (so_out cd) = Some (None, r2, s2)"
      "snk_bytes s2 = bs"
    using fwd_received [OF up(4) _ fuel(3), of "so_out cd" e2 sched2] c(2) by auto
  from forwarder_ok [OF _ _ up(3,1) host(1), of o1] forwarder_ok [OF _ _ down(3,1) dev(1), of o2] c up(2) down(2) host(2) dev(2)
  show ?thesis by (auto intro: that)
qed

text \<open>A connection that the host's accept loop takes, and the call on the device that answers it.\<close>

lemma forwarded_connection:
  assumes dst: "ports_parseAddr dst = Inr (kind, a)" "networkKind kind = Inr k" and dial: "dial kind a = Inr cd"
    and conns: "fresh_sock ch bs" "fresh_sock cd cs"
    and streams: "sd_room sh = None" "sd_sent sh = []" "sd_room sd = None" "sd_sent sd = []"
    and fuel: "in_work (so_in ch) < fuel" "in_work (so_in cd) < fuel" "2 * length bs + 2 < fuel" "2 * length cs + 2 < fuel"
  shows "\<exists>up hc down dc.
    serve_conn None o1 fuel dst (sd_sent down) e1 sched1 sh ch = Some (None, up, hc) \<and>
    server_Forward_call dial o2 fuel (sd_sent up) e2 sched2 sd = Some (None, down, Some dc) \<and>
    hd (sd_sent up) = zeroForwardMessage\<lparr>fm_kind := k, fm_addr := a\<rparr> \<and>
    snk_bytes (so_out dc) = bs \<and> snk_bytes (so_out hc) = cs \<and> so_cr hc \<and> so_cw hc \<and> so_cr dc \<and> so_cw dc"
proof -
  let ?m = "zeroForwardMessage\<lparr>fm_kind := k, fm_addr := a\<rparr>"
  have sh: "sd_room (sh\<lparr>sd_sent := [?m]\<rparr>) = None" "sd_sent (sh\<lparr>sd_sent := [?m]\<rparr>) = [?m]" using streams(1) by simp_all
  obtain up down f1 f2 where f:
      "StreamForwarder_Forward o1 fuel (NewStreamForwarder down e1 sched1 (sh\<lparr>sd_sent := [?m]\<rparr>) ch) = Some (None, f1)"
      "StreamForwarder_Forward o2 fuel (NewStreamForwarder up e2 sched2 sd cd) = Some (None, f2)"
      "sd_sent (rw_w (sw_stream f1)) = ?m # up" "sd_sent (rw_w (sw_stream f2)) = down"
      "snk_bytes (so_out (sw_conn f2)) = bs" "snk_bytes (so_out (sw_conn f1)) = cs"
      "so_cr (sw_conn f1)" "so_cw (sw_conn f1)" "so_cr (sw_conn f2)" "so_cw (sw_conn f2)"
    by (rule joined_forwarders [OF conns sh streams(3,4) fuel])
  have "serve_conn None o1 fuel dst down e1 sched1 sh ch = Some (None, rw_w (sw_stream f1), sw_conn f1)"
    using dst streams(1,2) f(1) by (simp add: serve_conn_def makeForwarder_def SendMsg_def)
  moreover have "server_Forward_call dial o2 fuel (?m # up) e2 sched2 sd = Some (None, rw_w (sw_stream f2), Some (sw_conn f2))"
    using networkKind_Description [of kind k] dst(2) dial f(2)
    by (simp add: server_Forward_call_def server_Forward_def zeroForwardMessage_def)
  ultimately show ?thesis using f(3-)
    by (intro exI [of _ "rw_w (sw_stream f1)"] exI [of _ "sw_conn f1"] exI [of _ "rw_w (sw_stream f2)"] exI [of _ "sw_conn f2"]) simp
qed


section \<open>Properties\<close>


text \<open>A client that sends three bytes in two portions, and a service that sends one.\<close>

definition demo_sender :: "ForwardMessage sender" where
  "demo_sender = \<lparr>sd_sent = [], sd_room = None, sd_err = EOF\<rparr>"

definition demo_sock :: "bytes list \<Rightarrow> sock" where
  "demo_sock cs = \<lparr>so_in = \<lparr>in_chunks = cs, in_err = EOF\<rparr>, so_out = \<lparr>snk_bytes = [], snk_room = None, snk_err = EOF\<rparr>, so_cr = False, so_cw = False\<rparr>"

definition demo_dial :: "string \<Rightarrow> string \<Rightarrow> sock result" where
  "demo_dial kind a = (if (kind, a) = (''tcp'', ''localhost:80'') then Inr (demo_sock [[9]]) else Inl ErrClosed)"

lemma demo_socks: "fresh_sock (demo_sock [[1], [2, 3]]) [1, 2, 3]" "fresh_sock (demo_sock [[9]]) [9]"
  by (simp_all add: fresh_sock_def in_delivers_def demo_sock_def)

lemma demo_sender_new: "sd_room demo_sender = None" "sd_sent demo_sender = []"
  by (simp_all add: demo_sender_def)

lemma demo_fuel:
  "in_work (so_in (demo_sock [[1], [2, 3]])) < 20" "in_work (so_in (demo_sock [[9]])) < 20"
  "2 * length [1, 2, 3 :: 8 word] + 2 < 20" "2 * length [9 :: 8 word] + 2 < 20"
  by (simp_all add: in_work_def demo_sock_def)


text \<open>
  (C6) A reverse connection from end to end. The device has announced an accepted connection, whose client sends \<open>bs\<close>, by the
  message \<open>msg\<close>; the host dials the session's destination, a service that sends \<open>cs\<close>. When the host's answer names
  that connection, the device joins exactly it with the stream: the service receives \<open>bs\<close>, the client of the device \<open>cs\<close>, both
  calls end without an error and close their connection, and the device forgets the connection.
\<close>

theorem reverse_forward_end_to_end:
  assumes host: "receive_turn k a (Inr msg) None None None = Piped m" and dev: "ReverseForward m s = Inr (p, cID, conn)"
    and conns: "fresh_sock ch cs" "fresh_sock (socks conn) bs"
    and streams: "sd_room sh = None" "sd_sent sh = []" "sd_room sd = None" "sd_sent sd = []"
    and fuel: "in_work (so_in ch) < fuel" "in_work (so_in (socks conn)) < fuel" "2 * length cs + 2 < fuel" "2 * length bs + 2 < fuel"
    and heap: "p < length (ws_heap s)"
  shows "\<exists>up hc down dc s'.
    reverse_host_call k a (Inr ch) o1 fuel msg (sd_sent down) e1 sched1 sh = Some (None, up, Some hc) \<and>
    server_ReverseForward_call socks o2 fuel (sd_sent up) e2 sched2 sd s = Some (None, down, Some dc, s') \<and>
    snk_bytes (so_out hc) = bs \<and> snk_bytes (so_out dc) = cs \<and> so_cr hc \<and> so_cw hc \<and> so_cr dc \<and> so_cw dc \<and>
    map_of (rs_connMap (ws_heap s' ! p)) cID = None"
proof -
  have sh: "sd_room (sh\<lparr>sd_sent := [m]\<rparr>) = None" "sd_sent (sh\<lparr>sd_sent := [m]\<rparr>) = [m]" using streams(1) by simp_all
  obtain up down f1 f2 where f:
      "StreamForwarder_Forward o1 fuel (NewStreamForwarder down e1 sched1 (sh\<lparr>sd_sent := [m]\<rparr>) ch) = Some (None, f1)"
      "StreamForwarder_Forward o2 fuel (NewStreamForwarder up e2 sched2 sd (socks conn)) = Some (None, f2)"
      "sd_sent (rw_w (sw_stream f1)) = m # up" "sd_sent (rw_w (sw_stream f2)) = down"
      "snk_bytes (so_out (sw_conn f2)) = cs" "snk_bytes (so_out (sw_conn f1)) = bs"
      "so_cr (sw_conn f1)" "so_cw (sw_conn f1)" "so_cr (sw_conn f2)" "so_cw (sw_conn f2)"
    by (rule joined_forwarders [OF conns sh streams(3,4) fuel])
  have "reverse_host_call k a (Inr ch) o1 fuel msg down e1 sched1 sh = Some (None, rw_w (sw_stream f1), Some (sw_conn f1))"
    using host streams(1,2) f(1) by (simp add: reverse_host_call_def SendMsg_def)
  moreover have "server_ReverseForward_call socks o2 fuel (m # up) e2 sched2 sd s =
      Some (None, rw_w (sw_stream f2), Some (sw_conn f2), ReverseForward_done p cID s)"
    using dev f(2) by (simp add: server_ReverseForward_call_def)
  moreover have "map_of (rs_connMap (ws_heap (ReverseForward_done p cID s) ! p)) cID = None"
    using heap by (simp add: ReverseForward_done_def heap_conns_def delete_conv')
  ultimately show ?thesis using f(3-)
    by (intro exI [of _ "rw_w (sw_stream f1)"] exI [of _ "sw_conn f1"] exI [of _ "rw_w (sw_stream f2)"] exI [of _ "sw_conn f2"]
        exI [of _ "ReverseForward_done p cID s"]) simp
qed

text \<open>The session of port 9000 with one accepted connection, announced under the number 1.\<close>

definition demo_msg :: ForwardMessage where
  "demo_msg = zeroForwardMessage\<lparr>fm_op := OPEN, fm_kind := TCP, fm_addr := ''localhost:9000/1''\<rparr>"

definition demo_srv :: WaterfallServer where
  "demo_srv = heap_conns 0 (\<lambda>_. [(1, 70)]) srv9000"

lemma demo_found: "ReverseForward demo_msg demo_srv = Inr (0, 1, 70)"
proof -
  have "show_nat 1 = ''1''" by code_simp
  then have "parse_uint64 ''1'' = Inr 1" using parse_uint64_show_nat [of 1] by simp
  moreover have "splitN 2 (CHR ''/'') ''localhost:9000/1'' = [''localhost:9000'', ''1'']" by (simp add: splitN_two)
  ultimately show ?thesis
    by (simp add: ReverseForward_def demo_msg_def demo_srv_def heap_conns_def srv9000_def networkDescription_def zeroForwardMessage_def)
qed

theorem reverse_forward_end_to_end_witness:
  "\<exists>up hc down dc s'.
    reverse_host_call TCP ''localhost:9000'' (Inr (demo_sock [[9]])) True 20 demo_msg (sd_sent down) EOF [0, 3] demo_sender
      = Some (None, up, Some hc) \<and>
    server_ReverseForward_call (\<lambda>_. demo_sock [[1], [2, 3]]) False 20 (sd_sent up) EOF [1] demo_sender demo_srv = Some (None, down, Some dc, s') \<and>
    snk_bytes (so_out hc) = [1, 2, 3] \<and> snk_bytes (so_out dc) = [9] \<and> map_of (rs_connMap (ws_heap s' ! 0)) 1 = None"
proof -
  have h: "receive_turn TCP ''localhost:9000'' (Inr demo_msg) None None None = Piped demo_msg"
    by (simp add: receive_turn_def demo_msg_def zeroForwardMessage_def Let_def)
  have l: "0 < length (ws_heap demo_srv)" by (simp add: demo_srv_def heap_conns_def srv9000_def)
  from reverse_forward_end_to_end [of _ _ _ _ _ _ _ _ _ _ "\<lambda>_. demo_sock [[1], [2, 3]]", OF h demo_found demo_socks(2,1)
      demo_sender_new demo_sender_new demo_fuel(2,1,4,3) l, of True EOF "[0, 3]" False EOF "[1]"]
  show ?thesis by blast
qed

text \<open>
  A destination that cannot be dialled. The host has then opened a stream and named the connection on it, and leaves it so: no
  closing message follows and nothing else is sent. The device's connection stays joined with a silent stream.
\<close>

theorem failed_dial_leaves_stream:
  assumes "receive_turn k a (Inr msg) None None None = Piped m" "sd_room sh = None" "sd_sent sh = []"
  shows "reverse_host_call k a (Inl e) o1 fuel msg down fin sched sh = Some (None, sh\<lparr>sd_sent := [m]\<rparr>, None) \<and> fm_op m \<noteq> CLOSE"
  using assms
  by (auto simp: receive_turn_def reverse_host_call_def SendMsg_def Let_def zeroForwardMessage_def split: if_splits)

end
