(* ===== verification/TransferControl.thy ===== *)
theory TransferControl
  imports Runs
begin

text \<open>
  The goroutines of the transfers that join two of them by an \<open>io.Pipe\<close> whose two ends are both closed by the goroutine that uses
  them: \<open>Pull\<close> and \<open>PullBytes\<close> of \<open>client/client.go\<close>, which receive into the pipe and unpack from it, \<open>Push\<close> of \<open>server/server.go\<close>, which
  does the same, and its \<open>Pull\<close>, which packs into the pipe and sends from it. What the transfers carry is the theory on file
  transfers; here it is shown that the calls return. The client's push, whose reading end is closed too late, is in the
  theory \<open>PushControl\<close>.
\<close>

section \<open>The three calls\<close>

text \<open>
  Where the three calls differ: the error that a write to the pipe returns after the reading goroutine has ended with a result,
  and what the writing goroutine then returns. The client's pull returns the error of the write. The server's push closes its
  reading end with the error of unpacking, tells the client, and returns the outcome of that call. The server's pull returns
  what packing returns, which drops the error of a write of the deferred close of the archive.
\<close>

record transfer_use =
  tu_closeErr :: "go_error option \<Rightarrow> go_error"
  tu_result :: "go_error \<Rightarrow> go_error option \<Rightarrow> bool"

definition client_pull_use :: transfer_use where
  "client_pull_use = \<lparr>tu_closeErr = (\<lambda>_. ErrClosedPipe), tu_result = (\<lambda>e r. r = Some e)\<rparr>"

definition server_push_use :: transfer_use where
  "server_push_use = \<lparr>tu_closeErr = (\<lambda>c. case c of None \<Rightarrow> ErrClosedPipe | Some e \<Rightarrow> e), tu_result = (\<lambda>_ _. True)\<rparr>"

definition server_pull_use :: transfer_use where
  "server_pull_use = \<lparr>tu_closeErr = (\<lambda>_. ErrClosedPipe), tu_result = (\<lambda>e r. r = Some e \<or> r = None)\<rparr>"


section \<open>The goroutines\<close>

text \<open>
  The writing goroutine is about to get its next piece, is in a write of which some bytes were not read yet, or has ended with a
  result. The reading goroutine works on what it read, is in a read with a buffer of some size, has seen the end of the
  pipe, or has ended. \<open>tr_left\<close> are the sizes of the writes to come.
\<close>

datatype producer = Produces | Writes nat | ProducerEnded "go_error option"

datatype consumer = Consumes | Reads nat | Stops | ConsumerEnded "go_error option"

record transfer =
  tr_left :: "nat list"
  tr_producer :: producer
  tr_consumer :: consumer
  tr_wClosed :: bool
  tr_rClosed :: bool
  tr_groupErr :: "go_error option"
  tr_result :: "go_error option option"

definition transfer_init :: "nat list \<Rightarrow> transfer" where
  "transfer_init ws = \<lparr>tr_left = ws, tr_producer = Produces, tr_consumer = Consumes, tr_wClosed = False, tr_rClosed = False,
     tr_groupErr = None, tr_result = None\<rparr>"

text \<open>A goroutine that ends closes its end of the pipe and hands its result to the group.\<close>

definition producer_ends :: "go_error option \<Rightarrow> transfer \<Rightarrow> transfer" where
  "producer_ends e s = s\<lparr>tr_producer := ProducerEnded e, tr_wClosed := True, tr_groupErr := keep_err (tr_groupErr s) e\<rparr>"

definition consumer_ends :: "go_error option \<Rightarrow> transfer \<Rightarrow> transfer" where
  "consumer_ends e s = s\<lparr>tr_consumer := ConsumerEnded e, tr_rClosed := True, tr_groupErr := keep_err (tr_groupErr s) e\<rparr>"

text \<open>
  The steps. The writing goroutine may end between two writes, with or without an error; so may the reading goroutine, between
  two reads or at the end of the pipe, after which it does not read again.
\<close>

inductive transfer_step :: "transfer_use \<Rightarrow> transfer \<Rightarrow> transfer \<Rightarrow> bool" for use where
  produce: "tr_producer s = Produces \<Longrightarrow> tr_left s = w # ws \<Longrightarrow> transfer_step use s (s\<lparr>tr_left := ws, tr_producer := Writes w\<rparr>)"
| produced: "tr_producer s = Produces \<Longrightarrow> transfer_step use s (producer_ends e s)"
| consume: "tr_consumer s = Consumes \<Longrightarrow> 0 < n \<Longrightarrow> transfer_step use s (s\<lparr>tr_consumer := Reads n\<rparr>)"
| pass_on: "tr_producer s = Writes w \<Longrightarrow> tr_consumer s = Reads n \<Longrightarrow>
    transfer_step use s (s\<lparr>tr_producer := (if w \<le> n then Produces else Writes (w - n)), tr_consumer := Consumes\<rparr>)"
| write_fails: "tr_producer s = Writes w \<Longrightarrow> tr_rClosed s \<Longrightarrow> tr_consumer s = ConsumerEnded c \<Longrightarrow>
    tu_result use (tu_closeErr use c) e \<Longrightarrow> transfer_step use s (producer_ends e s)"
| end_of_pipe: "tr_consumer s = Reads n \<Longrightarrow> tr_wClosed s \<Longrightarrow> transfer_step use s (s\<lparr>tr_consumer := Stops\<rparr>)"
| consumed: "tr_consumer s = Consumes \<or> tr_consumer s = Stops \<Longrightarrow> transfer_step use s (consumer_ends e s)"
| transfer_return: "tr_result s = None \<Longrightarrow> tr_producer s = ProducerEnded a \<Longrightarrow> tr_consumer s = ConsumerEnded b \<Longrightarrow>
    transfer_step use s (s\<lparr>tr_result := Some (tr_groupErr s)\<rparr>)"

inductive transfer_reach :: "transfer_use \<Rightarrow> nat list \<Rightarrow> transfer \<Rightarrow> bool" for use ws where
  transfer_start: "transfer_reach use ws (transfer_init ws)"
| transfer_more: "transfer_reach use ws s \<Longrightarrow> transfer_step use s t \<Longrightarrow> transfer_reach use ws t"


section \<open>The invariant, and the end\<close>

definition transfer_inv :: "transfer \<Rightarrow> bool" where
  "transfer_inv s \<longleftrightarrow> (tr_wClosed s \<longleftrightarrow> (\<exists>e. tr_producer s = ProducerEnded e)) \<and>
     (tr_rClosed s \<longleftrightarrow> (\<exists>e. tr_consumer s = ConsumerEnded e)) \<and>
     (tr_groupErr s = None \<longleftrightarrow> (\<forall>e. tr_producer s \<noteq> ProducerEnded (Some e)) \<and> (\<forall>e. tr_consumer s \<noteq> ConsumerEnded (Some e))) \<and>
     (tr_result s \<noteq> None \<longrightarrow> tr_wClosed s \<and> tr_rClosed s \<and> tr_result s = Some (tr_groupErr s))"

lemmas ends_defs = producer_ends_def consumer_ends_def

lemma transfer_inv_step:
  assumes "transfer_step use s t" "transfer_inv s"
  shows "transfer_inv t"
  using assms
proof (induction rule: transfer_step.induct)
  case (produced s e)
  then show ?case by (cases e) (auto simp: transfer_inv_def ends_defs)
next
  case (write_fails s w c e)
  then show ?case by (cases e) (auto simp: transfer_inv_def ends_defs)
next
  case (consumed s e)
  then show ?case by (cases e) (auto simp: transfer_inv_def ends_defs)
qed (auto simp: transfer_inv_def)

text \<open>The work that is left: a write costs the steps in which its bytes are read, at least one byte each.\<close>

definition transfer_work :: "transfer \<Rightarrow> nat" where
  "transfer_work s = (\<Sum>w\<leftarrow>tr_left s. 2 * w + 4) +
     (case tr_producer s of Produces \<Rightarrow> 1 | Writes w \<Rightarrow> 2 * w + 4 | ProducerEnded _ \<Rightarrow> 0) +
     (case tr_consumer s of Consumes \<Rightarrow> 3 | Reads _ \<Rightarrow> 2 | Stops \<Rightarrow> 1 | ConsumerEnded _ \<Rightarrow> 0) +
     (if tr_result s = None then 1 else 0)"

text \<open>A read takes at least one byte of a write that does not fit its buffer.\<close>

definition reads_ok :: "transfer \<Rightarrow> bool" where
  "reads_ok s \<longleftrightarrow> (\<forall>n. tr_consumer s = Reads n \<longrightarrow> 0 < n)"

lemma reads_ok_step: "transfer_step use s t \<Longrightarrow> reads_ok s \<Longrightarrow> reads_ok t"
  by (induction rule: transfer_step.induct) (auto simp: reads_ok_def ends_defs)

lemma transfer_step_work: "transfer_step use s t \<Longrightarrow> reads_ok s \<Longrightarrow> transfer_work t < transfer_work s"
  by (induction rule: transfer_step.induct) (auto simp: transfer_work_def ends_defs reads_ok_def)

text \<open>A call that has not returned can go on, if a failed write lets the writing goroutine return something.\<close>

definition use_ok :: "transfer_use \<Rightarrow> bool" where
  "use_ok use \<longleftrightarrow> (\<forall>e. \<exists>r. tu_result use e r)"

lemma uses_ok: "use_ok client_pull_use" "use_ok server_push_use" "use_ok server_pull_use"
  by (auto simp: use_ok_def client_pull_use_def server_push_use_def server_pull_use_def)

lemma transfer_can_step:
  assumes "use_ok use" "transfer_inv s" "tr_result s = None"
  shows "\<exists>t. transfer_step use s t"
proof (cases "tr_consumer s")
  case (Reads n)
  then show ?thesis
    using produced [of s] pass_on [of s _ n] end_of_pipe [of s n] assms(2) by (cases "tr_producer s") (auto simp: transfer_inv_def)
next
  case (ConsumerEnded c)
  then have closed: "tr_rClosed s" using assms(2) by (auto simp: transfer_inv_def)
  show ?thesis
  proof (cases "tr_producer s")
    case (Writes w)
    obtain e where "tu_result use (tu_closeErr use c) e" using assms(1) by (auto simp: use_ok_def)
    from write_fails [OF Writes closed ConsumerEnded this] show ?thesis by blast
  next
    case (ProducerEnded e)
    from transfer_return [OF assms(3) ProducerEnded ConsumerEnded] show ?thesis by blast
  qed (use produced [of s] in blast)
qed (use consumed [of s] in blast)+

interpretation transfer_runs: bounded_run "transfer_step use" "\<lambda>s. use_ok use \<and> transfer_inv s \<and> reads_ok s" transfer_work
    "\<lambda>s. tr_result s \<noteq> None" for use
  by unfold_locales (auto intro: transfer_inv_step reads_ok_step transfer_step_work transfer_can_step)

lemma transfer_reach_ok: "transfer_reach use ws s \<Longrightarrow> transfer_inv s \<and> reads_ok s"
proof (induction rule: transfer_reach.induct)
  case transfer_start
  show ?case by (simp add: transfer_inv_def reads_ok_def transfer_init_def)
qed (auto intro: transfer_inv_step reads_ok_step)


section \<open>Properties\<close>

text \<open>
  (C27) The other transfers always return. For the client's pull and both handlers of the server, for all sizes of the writes and
  every interleaving: a run of the goroutines that cannot be continued has returned, no run is longer than the writes
  allow, and the call returns nil only if both goroutines did.
\<close>

theorem transfers_return:
  assumes "use \<in> {client_pull_use, server_push_use, server_pull_use}" "transfer_reach use ws s"
  shows "(\<forall>t. (transfer_step use)\<^sup>*\<^sup>* s t \<and> (\<nexists>u. transfer_step use t u) \<longrightarrow> tr_result t \<noteq> None) \<and>
    (\<forall>n t. (transfer_step use ^^ n) (transfer_init ws) t \<longrightarrow> n \<le> (\<Sum>w\<leftarrow>ws. 2 * w + 4) + 5) \<and>
    (tr_result s = Some None \<longrightarrow> tr_producer s = ProducerEnded None \<and> tr_consumer s = ConsumerEnded None)"
proof -
  have use: "use_ok use" using assms(1) uses_ok by auto
  note ok = conjI [OF use transfer_reach_ok [OF assms(2)]] and start = conjI [OF use transfer_reach_ok [OF transfer_start]]
  have "transfer_work (transfer_init ws) = (\<Sum>w\<leftarrow>ws. 2 * w + 4) + 5" by (simp add: transfer_work_def transfer_init_def)
  then have "\<forall>n t. (transfer_step use ^^ n) (transfer_init ws) t \<longrightarrow> n \<le> (\<Sum>w\<leftarrow>ws. 2 * w + 4) + 5"
    using transfer_runs.run_length [OF _ start] by fastforce
  with transfer_runs.stuck_ended [OF ok] ok show ?thesis by (auto simp: transfer_inv_def)
qed

text \<open>The client's pull of two messages: unpacking fails at once, and the write of the first message fails with it.\<close>

theorem transfers_return_witness:
  "\<nexists>t. (transfer_step client_pull_use)\<^sup>*\<^sup>* (consumer_ends (Some EOF) (transfer_init [512, 512])) t \<and>
     (\<nexists>u. transfer_step client_pull_use t u) \<and> tr_result t = None"
proof -
  have "transfer_reach client_pull_use [512, 512] (consumer_ends (Some EOF) (transfer_init [512, 512]))"
    by (rule transfer_more [OF transfer_start consumed]) (simp add: transfer_init_def)
  from transfers_return [OF _ this] show ?thesis by blast
qed

end
