(* ===== verification/ServerRun.thy ===== *)
theory ServerRun
  imports Daemons Server
begin

text \<open>
  The running server: what a server that was started becomes, if need be through the child that it forks, and what happens to a
  call that it receives, from the end of \<open>main\<close> in \<open>server/server_bin.go\<close> and the interceptors of \<open>server/auth_interceptor.go\<close>.
\<close>

section \<open>Starting\<close>

text \<open>
  A server in daemon mode starts its own program again with the flags it hands on, and ends; the child reads them and is started
  in the environment \<open>cenv\<close>.
\<close>

definition started :: "server_env \<Rightarrow> server_env \<Rightarrow> server_flags \<Rightarrow> server_run" where
  "started env cenv fl =
     (case server_main env fl of
        ServerForked args _ \<Rightarrow>
          (case parse_flags args default_flags of
             None \<Rightarrow> ServerDied (Errorf ''flag provided but not defined'')
           | Some cf \<Rightarrow> server_main cenv cf)
      | r \<Rightarrow> r)"

text \<open>
  A call of a stream method and one of a unary method: the interceptors are installed when a session identifier was given.
\<close>

definition serve_stream ::
    "string \<Rightarrow> metadata option \<Rightarrow> ('s \<Rightarrow> go_error option \<times> 's) \<Rightarrow> 's \<Rightarrow> go_error option \<times> 's"
where
  "serve_stream sessionID ctx handler s =
     (if sessionID \<noteq> [] then StreamServerInterceptor sessionID ctx handler s else handler s)"

definition serve_unary ::
    "string \<Rightarrow> metadata option \<Rightarrow> ('s \<Rightarrow> 'r result \<times> 's) \<Rightarrow> 's \<Rightarrow> 'r result \<times> 's"
where
  "serve_unary sessionID ctx handler s =
     (if sessionID \<noteq> [] then UnaryServerInterceptor sessionID ctx handler s else handler s)"


section \<open>What a started server serves\<close>

lemma server_serve_Serving:
  "server_serve env fl l = Serving l' tls sid \<Longrightarrow> sid = sf_sessionID fl \<and> (tls \<longleftrightarrow> sf_cert fl \<noteq> [] \<and> sf_privateKey fl \<noteq> []) \<and>
     (\<not> tls \<longrightarrow> sf_cert fl = [] \<and> sf_privateKey fl = [])"
  by (auto simp: server_serve_def split: if_splits)

lemma server_main_Serving:
  assumes "server_main env fl = Serving l tls sid"
  shows "sid = sf_sessionID fl \<and> (tls \<longleftrightarrow> sf_cert fl \<noteq> [] \<and> sf_privateKey fl \<noteq> []) \<and> (\<not> tls \<longrightarrow> sf_cert fl = [] \<and> sf_privateKey fl = [])"
  using assms
  by (auto simp: server_main_def split: if_splits sum.splits option.splits outcome.splits prod.splits dest: server_serve_Serving)

lemma server_main_forked:
  assumes "server_main env fl = ServerForked args inherits"
  shows "\<exists>a. args = [''-addr'', a, ''-daemon=false'', ''-session_id'', sf_sessionID fl, ''-cert'', sf_cert fl, ''-private_key'', sf_privateKey fl]"
  using assms
  by (auto simp: server_main_def server_serve_def forkInDaemonMode_def Let_def
      split: if_splits sum.splits option.splits outcome.splits prod.splits)

lemma started_Serving:
  assumes "started env cenv fl = Serving l tls sid"
  shows "sid = sf_sessionID fl \<and> (tls \<longleftrightarrow> sf_cert fl \<noteq> [] \<and> sf_privateKey fl \<noteq> []) \<and> (\<not> tls \<longrightarrow> sf_cert fl = [] \<and> sf_privateKey fl = [])"
proof (cases "server_main env fl")
  case (ServerForked args inherits)
  then obtain a where "args = [''-addr'', a, ''-daemon=false'', ''-session_id'', sf_sessionID fl, ''-cert'', sf_cert fl, ''-private_key'', sf_privateKey fl]"
    using server_main_forked by blast
  with assms ServerForked server_main_Serving show ?thesis by (fastforce simp: started_def child_flags)
qed (use assms server_main_Serving in \<open>auto simp: started_def\<close>)

text \<open>Without an identifier the interceptors let every call through, so that it does not matter whether they are installed.\<close>

lemma serve_interceptor:
  "serve_stream sid ctx h s = StreamServerInterceptor sid ctx h s" "serve_unary sid ctx u s = UnaryServerInterceptor sid ctx u s"
  by (simp_all add: serve_stream_def serve_unary_def StreamServerInterceptor_def UnaryServerInterceptor_def authorize_def)


section \<open>Properties\<close>

text \<open>
  (C32) A server enforces the session it was started with, also as a daemon. When a server was started with some flags and serves in
  the end, directly or in the child that it forked, it serves over TLS if a certificate or a key was given, and a
  call of either kind runs its handler exactly if no session identifier was given or the call carries that identifier
  as the only value of its header; any other call gets an authentication error and leaves the server as it was.
\<close>

theorem session_enforced:
  assumes "started env cenv fl = Serving l tls sid"
  shows "(tls \<longleftrightarrow> sf_cert fl \<noteq> [] \<or> sf_privateKey fl \<noteq> []) \<and>
    (if sf_sessionID fl = [] \<or> (\<exists>md. ctx = Some md \<and> map_of md sessionHdr = Some [sf_sessionID fl])
     then serve_stream sid ctx h s = h s \<and> serve_unary sid ctx u s = u s
     else \<exists>t. serve_stream sid ctx h s = (Some (StatusErr Unauthenticated t), s) \<and>
              serve_unary sid ctx u s = (Inl (StatusErr Unauthenticated t), s))"
proof -
  note st = started_Serving [OF assms]
  then have sid: "sid = sf_sessionID fl" ..
  have "tls \<longleftrightarrow> sf_cert fl \<noteq> [] \<or> sf_privateKey fl \<noteq> []" using st by blast
  then show ?thesis unfolding serve_interceptor sid using interceptor_guards_handlers by (rule conjI)
qed

text \<open>A daemon on a TCP address, with a session identifier.\<close>

theorem session_enforced_witness:
  "\<exists>t. serve_unary ''abc'' (Some [(''x-session-id'', [''abd''])]) (\<lambda>n :: nat. (Inr (), Suc n)) 0 =
     (Inl (StatusErr Unauthenticated t), 0)"
proof -
  let ?env = "\<lparr>sv_isSnapshot = Inr False, sv_open = \<lambda>_. None, sv_listen = Inr (''8088'', None), sv_start = None, sv_keys = None\<rparr>"
  let ?fl = "\<lparr>sf_addr = ''tcp:localhost:8088'', sf_snapshotAddr = ''qemu-guest:s'', sf_sessionID = ''abc'', sf_cert = [], sf_privateKey = [], sf_daemon = True\<rparr>"
  have "started ?env ?env ?fl = Serving (LisFD 3) False ''abc''" by code_simp
  from session_enforced [OF this, of "Some [(''x-session-id'', [''abd''])]" "\<lambda>n. (None, n)" "0 :: nat" "\<lambda>n. (Inr (), Suc n)"]
  show ?thesis by (auto simp: sessionHdr_def)
qed

end
