(* ===== verification/AdbTunnel.thy ===== *)
theory AdbTunnel
  imports AdbTool PortTunnel
begin

text \<open>
  The command \<open>adb forward\<close> from the command line to the bytes: \<open>forwardFn\<close> of \<open>client/adb/adb.go\<close>, the session in the daemon of
  \<open>forward/ports\<close>, its accept loop, and the server on the device.
\<close>

text \<open>The network and the address on the device that an address of adb's command line means.\<close>

definition device_target :: "string \<Rightarrow> string \<Rightarrow> string \<times> string" where
  "device_target kind a =
     (if kind = ''tcp'' then (''tcp'', ''localhost:'' @ a) else if kind = ''localabstract'' then (''unix'', ''@'' @ a) else (''unix'', a))"

lemma parseFwd_target:
  assumes "adb_addr kind a"
  obtains b k where "parseFwd (kind @ '':'' @ a) False = Return b" "ports_parseAddr b = Inr (device_target kind a)"
    "networkKind (fst (device_target kind a)) = Inr k"
proof -
  have c: "CHR '':'' \<notin> set a" using assms by (simp add: adb_addr_def)
  have sp: "ports_parseAddr (''tcp:'' @ x) = Inr (''tcp'', x)" "ports_parseAddr (''unix:'' @ x) = Inr (''unix'', x)" for x
    by (simp_all add: ports_parseAddr_def splitN_two)
  have nk: "networkKind ''tcp'' = Inr TCP" "networkKind ''unix'' = Inr UNIX" by (simp_all add: networkKind_def)
  consider "kind = ''tcp''" | "kind = ''localabstract''" | "kind = ''localreserved''" using assms by (auto simp: adb_addr_def)
  then show ?thesis
  proof cases
    case 1
    with that [of "''tcp:'' @ ''localhost:'' @ a" TCP] parseFwd_kind [OF _ c, of kind] sp(1) nk show ?thesis by (simp add: device_target_def)
  next
    case 2
    with that [of "''unix:'' @ ''@'' @ a" UNIX] parseFwd_kind [OF _ c, of kind] sp(2) nk show ?thesis by (simp add: device_target_def)
  next
    case 3
    with that [of "''unix:'' @ a" UNIX] parseFwd_kind [OF _ c, of kind] sp(2) nk show ?thesis by (simp add: device_target_def)
  qed
qed

text \<open>After a successful request the session is in the table, its listener is open, and its accept loop runs.\<close>

lemma start_forward_runs:
  assumes "start_forward kind addr ses pf = (None, pf')"
  shows "\<exists>ctx lis. (ctx, lis, fs_dst ses) \<in> set (pf_accepting pf') \<and> is_open pf' lis \<and>
    map_of (pf_sessions pf') (fs_src ses) = Some \<lparr>ss_src = fs_src ses, ss_dst = fs_dst ses, ss_lis = lis, ss_ctx = ctx\<rparr>"
  using assms by (cases rule: start_forward_cases) (auto simp: is_open_def update_conv')

lemma ForwardPort_runs:
  assumes "ForwardPort req pf = (None, pf')"
  shows "\<exists>ctx lis. (ctx, lis, fs_dst (pr_session req)) \<in> set (pf_accepting pf') \<and> is_open pf' lis \<and>
    map_of (pf_sessions pf') (fs_src (pr_session req)) =
      Some \<lparr>ss_src = fs_src (pr_session req), ss_dst = fs_dst (pr_session req), ss_lis = lis, ss_ctx = ctx\<rparr>"
proof -
  obtain kind addr pf1 where "start_forward kind addr (pr_session req) pf1 = (None, pf')"
    using assms by (auto simp: ForwardPort_def Let_def split: sum.splits prod.splits option.splits if_splits)
  then show ?thesis by (rule start_forward_runs)
qed


section \<open>Properties\<close>

text \<open>
  (C7) \<open>adb forward\<close> from the command line to the bytes. A successful \<open>adb forward SRC DST\<close> leaves a session with an open listener
  whose accept loop runs; every connection that this loop takes, with a client that sends \<open>bs\<close>, is joined on the device with
  the service at the network and address that \<open>DST\<close> means, which sends \<open>cs\<close>: the service receives \<open>bs\<close> and the
  client \<open>cs\<close>, both calls end without an error, and both connections are closed.
\<close>

theorem adb_forward_end_to_end:
  assumes cmd: "ae_dial env = None" "adb_addr k1 a1" "adb_addr k2 a2"
      "forwardFn env [''forward'', k1 @ '':'' @ a1, k2 @ '':'' @ a2] pf = (Ended None, out, pf')"
    and dial: "dial (fst (device_target k2 a2)) (snd (device_target k2 a2)) = Inr cd"
    and conns: "fresh_sock ch bs" "fresh_sock cd cs"
    and streams: "sd_room sh = None" "sd_sent sh = []" "sd_room sd = None" "sd_sent sd = []"
    and fuel: "in_work (so_in ch) < fuel" "in_work (so_in cd) < fuel" "2 * length bs + 2 < fuel" "2 * length cs + 2 < fuel"
  shows "\<exists>src dst ctx lis. parseFwd (k1 @ '':'' @ a1) False = Return src \<and> (ctx, lis, dst) \<in> set (pf_accepting pf') \<and> is_open pf' lis \<and>
    map_of (pf_sessions pf') src = Some \<lparr>ss_src = src, ss_dst = dst, ss_lis = lis, ss_ctx = ctx\<rparr> \<and>
    (\<exists>up hc down dc. serve_conn None o1 fuel dst (sd_sent down) e1 sched1 sh ch = Some (None, up, hc) \<and>
       server_Forward_call dial o2 fuel (sd_sent up) e2 sched2 sd = Some (None, down, Some dc) \<and>
       snk_bytes (so_out dc) = bs \<and> snk_bytes (so_out hc) = cs \<and> so_cr hc \<and> so_cw hc \<and> so_cr dc \<and> so_cw dc)"
proof -
  obtain src where src: "parseFwd (k1 @ '':'' @ a1) False = Return src" by (rule parseFwd_target [OF cmd(2)])
  obtain dst k where dst: "parseFwd (k2 @ '':'' @ a2) False = Return dst" "ports_parseAddr dst = Inr (device_target k2 a2)"
      "networkKind (fst (device_target k2 a2)) = Inr k" by (rule parseFwd_target [OF cmd(3)])
  let ?r = "\<lparr>pr_rebind = True, pr_session = \<lparr>fs_src = src, fs_dst = dst\<rparr>\<rparr>"
  have "k1 @ '':'' @ a1 \<notin> {''--list'', ''--remove'', ''--remove-all'', ''--no-rebind''}" using cmd(2) by (auto simp: adb_addr_def)
  then have "ForwardPort ?r pf = (None, pf')"
    using cmd(1,4) src dst(1) by (auto simp: forwardFn_def with_conn_def with_pair_def parse_arg_def split: prod.splits)
  from ForwardPort_runs [OF this] obtain ctx lis where acc: "(ctx, lis, dst) \<in> set (pf_accepting pf')" "is_open pf' lis"
      "map_of (pf_sessions pf') src = Some \<lparr>ss_src = src, ss_dst = dst, ss_lis = lis, ss_ctx = ctx\<rparr>"
    by auto
  have "ports_parseAddr dst = Inr (fst (device_target k2 a2), snd (device_target k2 a2))" using dst(2) by simp
  from forwarded_connection [where dial = dial, OF this dst(3) dial conns streams fuel, of o1 e1 sched1 o2 e2 sched2] src acc
  show ?thesis by blast
qed

theorem adb_forward_end_to_end_witness:
  "\<exists>dst up hc down dc. serve_conn None True 20 dst (sd_sent down) EOF [0, 3] demo_sender (demo_sock [[1], [2, 3]]) = Some (None, up, hc) \<and>
     server_Forward_call demo_dial False 20 (sd_sent up) EOF [1] demo_sender = Some (None, down, Some dc) \<and>
     snk_bytes (so_out dc) = [1, 2, 3] \<and> snk_bytes (so_out hc) = [9]"
proof -
  have p: "parseFwd ''tcp:1'' False = Return ''tcp:localhost:1''" "parseFwd ''tcp:80'' False = Return ''tcp:localhost:80''"
    "ports_parseAddr ''tcp:localhost:1'' = Inr (''tcp'', ''localhost:1'')" "ports_parseAddr ''tcp:localhost:80'' = Inr (''tcp'', ''localhost:80'')"
    by code_simp+
  have "fst (forwardFn adb_ok [''forward'', ''tcp'' @ '':'' @ ''1'', ''tcp'' @ '':'' @ ''80''] (NewServer host_net)) = Ended None"
    by (simp add: forwardFn_def with_conn_def with_pair_def parse_arg_def adb_ok_def p ForwardPort_def
        NewServer_def start_forward_def net_listen_def host_net_def)
  then obtain out pf' where cmd: "forwardFn adb_ok [''forward'', ''tcp'' @ '':'' @ ''1'', ''tcp'' @ '':'' @ ''80''] (NewServer host_net) = (Ended None, out, pf')"
    by (metis prod.collapse)
  have a: "ae_dial adb_ok = None" "adb_addr ''tcp'' ''1''" "adb_addr ''tcp'' ''80''" by (simp_all add: adb_ok_def adb_addr_def)
  have dial: "demo_dial (fst (device_target ''tcp'' ''80'')) (snd (device_target ''tcp'' ''80'')) = Inr (demo_sock [[9]])"
    by (simp add: demo_dial_def device_target_def)
  from adb_forward_end_to_end [where dial = demo_dial, OF a cmd dial demo_socks demo_sender_new demo_sender_new demo_fuel, of True EOF "[0, 3]" False EOF "[1]"]
  show ?thesis by blast
qed

end
