(* ===== verification/AdbShell.thy ===== *)
theory AdbShell
  imports AdbTool RemoteExec
begin

text \<open>
  The command \<open>adb shell\<close> from the command line to the process on the device: \<open>shellFn\<close> and \<open>shellIO\<close> of \<open>client/adb/adb.go\<close>, \<open>Exec\<close> of
  \<open>client/client.go\<close> with one writer for both outputs, and \<open>Exec\<close> of \<open>server/server.go\<close>.
\<close>

section \<open>A call with one writer\<close>

text \<open>
  \<open>Exec\<close> when both outputs go to the same writer, which accepts everything: the terminal, or the buffer of \<open>shellString\<close>. The
  result holds the exit code, what was written and the error; the input is \<open>nil\<close>.
\<close>

fun shared_recv :: "CmdProgress list \<Rightarrow> go_error \<Rightarrow> bytes \<Rightarrow> CmdProgress option \<Rightarrow> (int \<times> bytes \<times> go_error option) outcome" where
  "shared_recv [] fin out lst =
     (if fin = EOF then (case lst of None \<Rightarrow> Panic | Some m \<Rightarrow> Return (uint (cp_exit_code m), out, None))
      else Return (0, out, Some fin))"
| "shared_recv (m # ms) fin out lst = shared_recv ms fin (out @ cp_stdout m @ cp_stderr m) (Some m)"

definition text_of :: "bytes \<Rightarrow> string" where
  "text_of bs = map (\<lambda>b. char_of (unat b)) bs"

text \<open>
  The call of the tool and that of the server together. \<open>None\<close>: one of them does not return, or panics.
\<close>

definition device_exec ::
    "exec_env \<Rightarrow> bool list \<Rightarrow> (nat \<Rightarrow> go_error option) \<Rightarrow> string \<Rightarrow> string list \<Rightarrow> (int \<times> string \<times> go_error option) option"
where
  "device_exec xe sch sendErr cmd args =
     (case server_Exec xe sch sendErr (Inr (exec_request cmd args False)) of
        Some (Return (ms, err)) \<Rightarrow>
          (case shared_recv ms (rpc_end err) [] None of
             Return (ec, out, e) \<Rightarrow> Some (ec, text_of out, e)
           | _ \<Rightarrow> None)
      | _ \<Rightarrow> None)"


section \<open>What is written\<close>

definition merged :: "CmdProgress list \<Rightarrow> bytes" where
  "merged ms = concat (map (\<lambda>m. cp_stdout m @ cp_stderr m) ms)"

lemma shuffles_append_left: "zs \<in> shuffles xs ys \<Longrightarrow> as @ zs \<in> shuffles (as @ xs) ys"
  by (induction as) (auto intro: Cons_in_shuffles_leftI)

lemma shuffles_append_right: "zs \<in> shuffles xs ys \<Longrightarrow> bs @ zs \<in> shuffles xs (bs @ ys)"
  by (induction bs) (auto intro: Cons_in_shuffles_rightI)

lemma merged_shuffles: "merged ms \<in> shuffles (outs ms) (errs ms)"
  by (induction ms) (auto simp: merged_def intro: shuffles_append_left shuffles_append_right)

lemma shared_recv_EOF:
  "ms \<noteq> [] \<Longrightarrow> shared_recv ms EOF out lst = Return (uint (cp_exit_code (last ms)), out @ merged ms, None)"
  by (induction ms arbitrary: out lst) (auto simp: merged_def)

text \<open>A receiving loop that ends with an error has still written what it received.\<close>

lemma shared_recv_err: "fin \<noteq> EOF \<Longrightarrow> shared_recv ms fin out lst = Return (0, out @ merged ms, Some fin)"
  by (induction ms arbitrary: out lst) (auto simp: merged_def)

lemma device_exec_ok:
  assumes "first_err [xe_stdoutPipe xe, xe_stderrPipe xe, xe_start xe cmd args ''/''] = None"
    and "xe_outErr xe = None" "xe_errErr xe = None" "exitCode (xe_wait xe) = (ec, None)"
    and "length (xe_out xe) < count_list sch True" "length (xe_err xe) < count_list sch False"
  shows "\<exists>bs \<in> shuffles (concat (xe_out xe)) (concat (xe_err xe)).
    device_exec xe sch (\<lambda>_. None) cmd args = Some (ec mod 2 ^ 32, text_of bs, None)"
proof -
  obtain r ms os es where mux: "exec_mux sch (\<lambda>_. None) 0 True True (xe_out xe) (xe_err xe) = Some (r, ms, os, es)"
    using exec_mux_terminates [of True "xe_out xe" sch True "xe_err xe" "\<lambda>_. None" 0] assms(5,6) by auto
  have "r = None" by (rule exec_mux_no_err [OF mux])
  then have st: "outs ms = concat (xe_out xe)" "errs ms = concat (xe_err xe)" "os = []" "es = []"
    using exec_mux_streams [OF mux] by auto
  have start: "first_err [xe_stdoutPipe xe, xe_stderrPipe xe, if False then xe_stdinPipe xe else None, xe_start xe cmd args ''/''] = None"
    using assms(1) by (auto simp: first_err_def split: option.splits if_splits)
  have "device_exec xe sch (\<lambda>_. None) cmd args = Some (ec mod 2 ^ 32, text_of (merged ms), None)"
    using assms(2-4)
    by (simp add: device_exec_def server_Exec_started [OF start] mux \<open>r = None\<close> st copies_end_def first_err_def rpc_end_def
        shared_recv_EOF uint_word_of_int merged_def)
  with merged_shuffles [of ms] show ?thesis unfolding st by blast
qed


section \<open>The command\<close>

definition sh_args :: "string \<Rightarrow> string list \<Rightarrow> string list" where
  "sh_args c args = [''-c'', c @ '' '' @ str_join args '' '']"

text \<open>How the tool ends after a call without an error that returned the exit code \<open>n\<close>.\<close>

definition shell_end :: "adb_env \<Rightarrow> int \<Rightarrow> adb_end" where
  "shell_end env n = (if parse_bool (ae_propagate env) = Some True \<and> n \<noteq> 0 then Exited n else Ended None)"

lemma propagateStatusCode_iff: "propagateStatusCode p n = (if parse_bool p = Some True \<and> n \<noteq> 0 then Some n else None)"
  by (auto simp: propagateStatusCode_def parse_bool_def split: option.splits)

lemma shellFn_answer:
  assumes "ae_dial env = None" "ae_exec env ''/system/bin/sh'' (sh_args c args) = (n, out, None)"
  shows "shellFn env (''shell'' # c # args) pf = (shell_end env n, [out], pf)"
  using assms by (simp add: shellFn_def with_conn_def from_shell_def shellIO_def sh_args_def propagateStatusCode_iff shell_end_def idx_def)


section \<open>Properties\<close>

text \<open>
  (C18) \<open>adb shell\<close> from the command line to the process. When the device can run its shell, read its outputs and send them, and
  \<open>select\<close> does not starve a channel, the call returns an answer, and with it \<open>adb shell CMD ARGS\<close> runs the shell on the
  words of the command line joined by blanks, prints an interleaving of the standard output and the standard error of
  the process, each complete and in order, changes no session, and ends with the exit code of the process, reduced to 32 bits,
  if the user asked for it and it is not zero, and without an error otherwise.
\<close>

theorem adb_shell_end_to_end:
  assumes start: "first_err [xe_stdoutPipe xe, xe_stderrPipe xe, xe_start xe ''/system/bin/sh'' (sh_args c args) ''/''] = None"
    and proc: "xe_outErr xe = None" "xe_errErr xe = None" "exitCode (xe_wait xe) = (ec, None)"
    and fair: "length (xe_out xe) < count_list sch True" "length (xe_err xe) < count_list sch False"
    and dial: "ae_dial env = None"
  shows "\<exists>ans. device_exec xe sch (\<lambda>_. None) ''/system/bin/sh'' (sh_args c args) = Some ans \<and>
    (ae_exec env ''/system/bin/sh'' (sh_args c args) = ans \<longrightarrow>
      (\<exists>bs \<in> shuffles (concat (xe_out xe)) (concat (xe_err xe)).
        shellFn env (''shell'' # c # args) pf = (shell_end env (ec mod 2 ^ 32), [text_of bs], pf)))"
proof -
  obtain bs where "bs \<in> shuffles (concat (xe_out xe)) (concat (xe_err xe))"
      "device_exec xe sch (\<lambda>_. None) ''/system/bin/sh'' (sh_args c args) = Some (ec mod 2 ^ 32, text_of bs, None)"
    using device_exec_ok [OF start proc fair] by blast
  then show ?thesis using shellFn_answer [OF dial, where pf = pf] by auto
qed

text \<open>
  A command that prints on both streams and is ended by a signal, for which \<open>ExitCode\<close> returns a negative number: the tool
  ends with the number that it becomes as a field of 32 bits.
\<close>

definition kill_env :: exec_env where
  "kill_env = \<lparr>xe_stdoutPipe = None, xe_stderrPipe = None, xe_stdinPipe = None, xe_start = (\<lambda>_ _ _. None),
     xe_out = [[104], [105]], xe_err = [[33]], xe_outErr = None, xe_errErr = None, xe_wait = Some (ExitError (- 1))\<rparr>"

theorem adb_shell_end_to_end_witness:
  "\<exists>bs \<in> shuffles [104, 105] [33].
     shellFn (adb_ok\<lparr>ae_exec := \<lambda>_ _. (4294967295, ''h!i'', None), ae_propagate := ''1''\<rparr>) [''shell'', ''kill'', ''$$''] (NewServer host_net) =
       (Exited 4294967295, [text_of bs], NewServer host_net)"
proof -
  let ?sch = "[True, False, False, True, True]"
  have "device_exec kill_env ?sch (\<lambda>_. None) ''/system/bin/sh'' (sh_args ''kill'' [''$$'']) = Some (4294967295, ''h!i'', None)"
    by code_simp
  then show ?thesis
    using adb_shell_end_to_end [of kill_env "''kill''" "[''$$'']" "-1" ?sch
        "adb_ok\<lparr>ae_exec := \<lambda>_ _. (4294967295, ''h!i'', None), ae_propagate := ''1''\<rparr>" "NewServer host_net"]
    by (simp add: kill_env_def first_err_def exitCode_def adb_ok_def shell_end_def parse_bool_def)
qed

end
