(* ===== verification/Spec2Isabelle.thy ===== *)
theory Spec2Isabelle
  imports Forward ForwardCtl Install AdbTool Ports Reverse QemuListen ControlSocket MuxListener HostTools FileTransfer
    Daemons Testutils UsbTools ExecInput QemuPipe TestServer Emulator ForwarderRun InstallStream PushControl
    PortTunnel TransferControl ServerRun AdbTunnel AdbShell
begin

text \<open>
  Waterfall: a verification of its Go programs
  ============================================

  Waterfall (\<open>src/waterfall/golang\<close>) gives a host access to an Android device: a gRPC server runs on the device
  (\<open>server\<close>), and the host reaches it through a forwarder (\<open>forward\<close>) that joins a local socket with a qemu pipe,
  a vsock, a TCP connection or a USB accessory. Clients push and pull files, run commands, install packages and forward
  ports (\<open>client\<close>, \<open>client/adb\<close>, \<open>forward/ports\<close>); \<open>bootstrap\<close> brings server and forwarder up.

  How the parts fit together. A client dials the abstract socket \<open>@h2o_<device>\<close>, on which the forwarder
  listens. For each connection the forwarder opens one to the device and copies in both directions (\<open>Forward\<close>). Over a
  qemu pipe a connection is framed (\<open>net/qemu\<close>); over a single USB connection the streams are multiplexed (\<open>mux\<close>,
  \<open>aoa\<close>). The services exchange the messages of \<open>proto/waterfall.proto\<close>; byte streams travel in their payloads
  (\<open>stream\<close>). Port forwarding is kept by a daemon on the host; reverse forwarding by the server on the device, which
  announces accepted connections to the daemon.

  The theories, and what each shows
  ---------------------------------

  \<^item> \<open>Prelude\<close>, \<open>Proto\<close>, \<open>GoIO\<close>, \<open>FileSys\<close>: errors and results, the parts of Go's \<open>strings\<close>, \<open>strconv\<close>, \<open>io\<close>, \<open>bufio\<close>,
    \<open>filepath\<close> and \<open>os\<close> that the sources use, and the messages. The contracts of \<open>io.Reader\<close> and \<open>io.Writer\<close> are the
    locales \<open>io_reader\<close>, \<open>io_writer\<close> and \<open>io_pipe\<close>; what \<open>io.Copy\<close> does is proved once, in \<open>io_pipe\<close>.
  \<^item> \<open>Runs\<close>: goroutines that end, as the locale \<open>bounded_run\<close>: steps that keep an invariant and use up a measure, and that are
    possible until the call has returned. That every run ends, within a bound, and only by returning, is proved there; the locale
    is interpreted on the goroutines of \<open>ForwardCtl\<close>, \<open>ForwarderRun\<close>, \<open>ExecInput\<close> and \<open>TransferControl\<close>.
  \<^item> \<open>QemuConn\<close> (\<open>net/qemu/qemu.go\<close>, \<open>Conn\<close>): the framed connection. What is written and closed on one side is what is
    read on the other, for all sizes of buffers; reading is equal to a reference decoder; no interleaving of the
    closing operations panics.
  \<^item> \<open>QemuListen\<close> (\<open>ConnBuilder\<close>, \<open>PipeConnBuilder\<close>, \<open>Pipe\<close>) and \<open>ControlSocket\<close> (\<open>net/qemu/control.go\<close>): the handshakes, the
    naming of the service, and the connections that are opened and closed by control messages. \<open>QemuPipe\<close> opens the device,
    wraps the connections (addresses, deadlines) and closes a builder in the middle of a handshake, under every interleaving.
    \<open>TestServer\<close> (\<open>net/qemu/test_server.go\<close>) puts the pipe and the copies together: what a peer sends is what it gets back.
  \<^item> \<open>Stream\<close> (\<open>stream/stream.go\<close> and the message adapters of \<open>forward\<close>, \<open>mux\<close>, \<open>server\<close>, \<open>client\<close>): bytes over message
    streams, for every schedule of the receiving goroutine. The adapters are interpretations of the locales
    \<open>message_channel\<close> and \<open>message_codec\<close>, which provide the writer's contract.
  \<^item> \<open>Forward\<close> and \<open>ForwardCtl\<close> (\<open>forward/forward.go\<close>): one direction of a tunnel as a copy between two contracts (locale
    \<open>forward_path\<close>), and the goroutines, wait group and channels as a step relation with an invariant and progress.
    \<open>ForwarderRun\<close> (\<open>forward/forward_bin.go\<close>) is the forwarder while it runs: the accept loops, the signal and the thread
    that watches the emulator's directory; every accepted connection is accounted for, and a signal ends the program.
  \<^item> \<open>MuxListener\<close> (\<open>mux\<close>): the listener with one connection, the listener of streams, the builder on the host, and the
    connection over a stream.
  \<^item> \<open>Ports\<close> (\<open>forward/ports/ports.go\<close>): the session tables under every interleaving of requests and goroutines: no listener
    is leaked, and the service refines an abstract table (locale \<open>port_service\<close>).
  \<^item> \<open>Reverse\<close> (\<open>server/server.go\<close>, reverse forwarding): sessions as heap objects, under every interleaving; every announced
    connection is found again.
  \<^item> \<open>PortTunnel\<close> (\<open>forward/stream.go\<close>, with the two components before): the bytes of a forwarded port and of a reverse
    connection, from the client's socket through both forwarders to the service's socket and back. \<open>AdbTunnel\<close> starts at the
    command line of \<open>adb forward\<close>: what the service at the named address sends and receives.
  \<^item> \<open>RemoteExec\<close>, \<open>Install\<close>, \<open>Server\<close> (\<open>server/server.go\<close>, \<open>client/client.go\<close>, \<open>auth_interceptor.go\<close>, \<open>snapshot.go\<close>): running
    a command from end to end, installing as a transaction, the interceptors, echo, version and snapshots. \<open>ExecInput\<close> adds
    the standard input from end to end, the deferred calls on the process, and the goroutines of the client's \<open>Exec\<close> as a step
    relation that refines the sequential client and always returns. \<open>InstallStream\<close> adds the transport of the package.
    \<open>AdbShell\<close> follows \<open>adb shell\<close> from its words to the exit code and the interleaved output of the process. \<open>ServerRun\<close> follows
    a server from its flags, through the child that a daemon forks, to the calls that it answers or refuses.
  \<^item> \<open>Tar\<close> and \<open>FileTransfer\<close> (\<open>stream/tar.go\<close>, \<open>Push\<close> and \<open>Pull\<close> of server and client): packing then unpacking a tree
    gives the tree, alone and through both transfers; a reported success means that the whole archive was unpacked.
    \<open>PushControl\<close> has the goroutines of a push: when the call returns, and the one situation in which it never does.
    \<open>TransferControl\<close> has those of the pull and of the two handlers of the server, which always return.
  \<^item> \<open>Addr\<close> (\<open>utils/addr.go\<close> and two smaller grammars), \<open>AdbTool\<close> (\<open>client/adb\<close>), \<open>HostTools\<close> (\<open>adb/adb.go\<close>,
    \<open>bootstrap/bootstrap.go\<close>, \<open>forkfd\<close>), \<open>Daemons\<close> (the main programs of server, forwarder, port daemon and bootstrap),
    \<open>Usb\<close> (\<open>aoa/aoa.go\<close>), \<open>UsbTools\<close> (the USB programs and forkfd), \<open>Testutils\<close> and \<open>Emulator\<close> (\<open>testutils\<close>: choosing
    ports, emulators, commands on a device, the files of a test run).
  \<^item> This theory: the properties that span components. A reverse session from the host's request to the joined
    connection on the device and back to the stop; the session whose port the device chooses; and the agreement of the
    addresses that bootstrap, forwarder, server and adb tool use.

  How code becomes definitions
  ----------------------------

  A struct is a record, an enumeration or a Go interface value a datatype. A method takes the state and returns its
  results with the new state. A result with an error is a sum (\<open>result\<close>); a call that may also panic has the
  type \<open>outcome\<close>; a call that may block for ever has an option, whose \<open>None\<close> is blocking. Code that holds a lock is one atomic
  step; goroutines take steps of their own in an inductive relation, or follow a schedule over which the
  theorems quantify. Fixed-width numbers are words where the source has them. What lies outside the sources (the kernel,
  gRPC, adb and the package manager on the device, \<open>archive/tar\<close>, \<open>gousb\<close>, randomness and time) is an argument: a record of
  answers, often depending on the history of calls before. What is relied on of it is a named hypothesis
  (\<open>codec_ok\<close>, \<open>chunks_ok\<close>, \<open>bus_ok\<close>).

  Bounds. \<open>io_copy\<close> has fuel, and a copy is shown to finish with its result whenever the fuel exceeds the work that the
  reader has left (\<open>work r < fuel\<close>). The search of a port has as many turns as the range has ports,
  which is shown to be enough. Path resolution follows at most 40 links and \<open>EvalSymlinks\<close> at most 255, as the kernel and
  Go do. All other recursions terminate.

  Not modelled
  ------------

  The Java sources, which are in another language; the code generated from the protocol files, which is not in the
  repository; the lines that only log; the lengths of sleeps and timeouts, of which a theorem says at most whether they expire;
  file modes, times and special files.
\<close>


section \<open>Reverse forwarding between host and device\<close>

text \<open>
  The host's receive loop answers a message of the device with the same name, if the message names a connection at
  all.
\<close>

lemma receive_turn_open_msg:
  "well_named c \<Longrightarrow> receive_turn k a (Inr (open_msg c i)) None None None = Piped (open_msg c i)"
  by (auto simp: receive_turn_def open_msg_def zeroForwardMessage_def Let_def well_named_def networkDescription_def
      split: sum.splits fkind.splits)

text \<open>What the host asks the device for when a reverse session is started or stopped.\<close>

definition reverse_start_msg :: "fkind \<Rightarrow> string \<Rightarrow> ForwardMessage" where
  "reverse_start_msg k a = zeroForwardMessage\<lparr>fm_op := OPEN, fm_kind := k, fm_addr := a\<rparr>"

definition reverse_stop_msg :: "fkind \<Rightarrow> string \<Rightarrow> ForwardMessage" where
  "reverse_stop_msg k a = zeroForwardMessage\<lparr>fm_op := CLOSE, fm_kind := k, fm_addr := a\<rparr>"

lemma reverse_requests:
  assumes "ports_parseAddr (fs_src (pr_session req)) = Inr (kind, a)" and "networkKind kind = Inr k"
    and "ports_parseAddr (fs_dst (pr_session req)) = Inr q" and "map_of (pf_reverseSessions pf) (fs_src (pr_session req)) = None"
  shows "pf_rpcs (snd (ReverseForwardPort stopErr None req pf)) = pf_rpcs pf @ [StartReverse (reverse_start_msg k a)]"
    and "pf_rpcs (snd (StopReverse_handler stopErr req (snd (ReverseForwardPort stopErr None req pf)))) =
           pf_rpcs pf @ [StartReverse (reverse_start_msg k a), StopReverse (reverse_stop_msg k a)]"
  using assms
  by (cases q, simp_all add: ReverseForwardPort_def start_reverse_def StopReverse_handler_def stopReverseForwarding_def
      reverse_start_msg_def reverse_stop_msg_def Let_def update_conv' cancel_def)

lemma StartReverseForward_plain:
  assumes "StartReverseForward (reverse_start_msg k a) s = (Inr (c, ms), s')" and "a \<noteq> ''localhost:0''"
  shows "sl_cid c = 0 \<and> sl_fwd c = reverse_start_msg k a \<and> ms = []"
  using assms
  by (auto simp: StartReverseForward_def reverse_start_msg_def zeroForwardMessage_def Let_def split: if_splits sum.splits prod.splits)

text \<open>
  (C16) A reverse session from end to end. The host starts a session for an address without a slash, whose port is not
  left to the device; the device, in any reachable state, accepts the request it is sent. Then each of the
  connections that the device accepts is announced to the host, the host's receive loop answers each message
  with a stream of its own, and on the device this stream is joined with exactly that connection. When the host
  stops the session, its request ends the session on the device: the table forgets it and its listener is closed.
\<close>

theorem reverse_session_end_to_end:
  assumes host: "ports_parseAddr (fs_src (pr_session req)) = Inr (kind, a)" "networkKind kind = Inr k"
      "ports_parseAddr (fs_dst (pr_session req)) = Inr q" "map_of (pf_reverseSessions pf) (fs_src (pr_session req)) = None"
    and a: "CHR ''/'' \<notin> set a" "a \<noteq> ''localhost:0''"
    and rpc: "pf_rpcs (snd (StopReverse_handler stopErr req (snd (ReverseForwardPort stopErr None req pf)))) =
      pf_rpcs pf @ [StartReverse m1, StopReverse m2]"
    and dev: "dev_reach n d" "StartReverseForward m1 (dv_srv d) = (Inr (c, ms1), s1)"
    and conns: "length conns < 2 ^ 64" "accept_all conns c s1 = (c', ms, s2)"
  shows "length ms = length conns \<and>
    (\<forall>i < length conns. \<exists>m. receive_turn k a (Inr (ms ! i)) None None None = Piped m \<and>
       ReverseForward m s2 = Inr (sl_ss c, of_nat (Suc i), conns ! i)) \<and>
    fst (StopReverseForward m2 s2) = None \<and>
    map_of (ws_sessions (snd (StopReverseForward m2 s2))) (kind @ '':'' @ a) = None \<and>
    sl_lis c \<notin> set (dn_open (ws_net (snd (StopReverseForward m2 s2))))"
proof -
  have m: "m1 = reverse_start_msg k a" "m2 = reverse_stop_msg k a" using rpc reverse_requests(2) [OF host, of stopErr] by simp_all
  note inv = dev_reach_inv [OF dev(1)]
  note ok = StartReverseForward_ok [OF dev(2), OF dev_invD(1) [OF inv, THEN conjunct1]]
  have c: "sl_cid c = 0" "sl_fwd c = reverse_start_msg k a" using StartReverseForward_plain a(2) dev(2) m(1) by auto
  have wn: "well_named c" using StartReverseForward_named [OF dev(2)] .
  have addr: "sl_addr c = kind @ '':'' @ a" "networkDescription k = Inr kind"
    using wn c(2) host(2) by (auto simp: well_named_def reverse_start_msg_def networkKind_Description zeroForwardMessage_def)
  have se: "map_of (ws_sessions s1) (sl_addr c) = Some (sl_ss c)" "sl_ss c < length (ws_heap s1)" using ok(1-3) by (simp_all add: update_conv')
  have slash: "CHR ''/'' \<notin> set (fm_addr (sl_fwd c))" using a(1) c(2) by (simp add: reverse_start_msg_def)
  have sp: "ws_sessions s2 = ws_sessions s1" "length ms = length conns" using accept_all_spec [OF conns(2), of 0] c(1) conns(1) se(2) by simp_all
  have lis: "rs_lis (ws_heap s2 ! sl_ss c) = sl_lis c"
    using accept_all_lis [OF conns(2)] ok(1,2) by simp
  have found: "\<exists>m. receive_turn k a (Inr (ms ! i)) None None None = Piped m \<and> ReverseForward m s2 = Inr (sl_ss c, of_nat (Suc i), conns ! i)"
    if "i < length conns" for i
    using open_message_found(2,3) [OF wn c(1) se slash conns that] receive_turn_open_msg [OF wn] by auto
  have "map_of (ws_sessions s2) (kind @ '':'' @ a) = Some (sl_ss c)" using se(1) sp(1) addr(1) by simp
  then have "fst (StopReverseForward m2 s2) = None"
    "map_of (ws_sessions (snd (StopReverseForward m2 s2))) (kind @ '':'' @ a) = None"
    "sl_lis c \<notin> set (dn_open (ws_net (snd (StopReverseForward m2 s2))))"
    using addr(2) lis
    by (simp_all add: StopReverseForward_def m(2) reverse_stop_msg_def Let_def delete_conv')
  then show ?thesis using found sp(2) by blast
qed

theorem reverse_session_end_to_end_witness:
  "let (c', ms, s2) = accept_all [70, 71] call9000 srv9000
   in length ms = 2 \<and> (\<exists>m. receive_turn TCP ''localhost:9000'' (Inr (ms ! 1)) None None None = Piped m \<and> ReverseForward m s2 = Inr (0, 2, 71)) \<and>
      map_of (ws_sessions (snd (StopReverseForward (reverse_stop_msg TCP ''localhost:9000'') s2))) ''tcp:localhost:9000'' = None"
proof -
  let ?req = "\<lparr>pr_rebind = False, pr_session = \<lparr>fs_src = ''tcp:localhost:9000'', fs_dst = ''tcp:80''\<rparr>\<rparr>" and ?pf = "NewServer host_net"
  let ?d = "\<lparr>dv_srv = New device_kernel, dv_calls = [], dv_streams = []\<rparr>"
  have h: "ports_parseAddr (fs_src (pr_session ?req)) = Inr (''tcp'', ''localhost:9000'')"
    "ports_parseAddr (fs_dst (pr_session ?req)) = Inr (''tcp'', ''80'')" "networkKind ''tcp'' = Inr TCP"
    "map_of (pf_reverseSessions ?pf) (fs_src (pr_session ?req)) = None" by code_simp+
  have rpc: "pf_rpcs (snd (StopReverse_handler None ?req (snd (ReverseForwardPort None None ?req ?pf)))) =
    pf_rpcs ?pf @ [StartReverse (reverse_start_msg TCP ''localhost:9000''), StopReverse (reverse_stop_msg TCP ''localhost:9000'')]"
    by (rule reverse_requests(2) [OF h(1,3,2,4)])
  have r: "dev_reach device_kernel ?d" by (rule dev_start) (simp add: device_kernel_def)
  have f: "reverse_start_msg TCP ''localhost:9000'' = fwd9000" by (simp add: reverse_start_msg_def fwd9000_def zeroForwardMessage_def)
  have st: "StartReverseForward (reverse_start_msg TCP ''localhost:9000'') (dv_srv ?d) = (Inr (call9000, []), srv9000)"
    using start9000 f by simp
  obtain c' ms s2 where acc: "accept_all [70, 71] call9000 srv9000 = (c', ms, s2)" by (metis prod_cases3)
  have side: "CHR ''/'' \<notin> set ''localhost:9000''" "''localhost:9000'' \<noteq> ''localhost:0''" "length [70, 71 :: nat] < 2 ^ 64" by simp_all
  have "sl_ss call9000 = 0" by (simp add: call9000_def)
  then show ?thesis using reverse_session_end_to_end [OF h(1,3,2,4) side(1,2) rpc r st side(3) acc] acc by (auto simp: Let_def)
qed

lemma show_nat_zero: "show_nat 0 = ''0''"
  by code_simp

lemma announced_call:
  assumes "StartReverseForward (reverse_start_msg TCP ''localhost:0'') s = (Inr (c, ms), s')"
    and "\<And>j. j \<in> set (dn_open (ws_net s)) \<Longrightarrow> j < dn_next (ws_net s)"
  shows "\<exists>port. sl_addr c = ''tcp:localhost:'' @ show_nat port \<and> port \<noteq> 0 \<and>
    ms = [zeroForwardMessage\<lparr>fm_op := ANNOUNCE, fm_addr := sl_addr c, fm_kind := TCP\<rparr>] \<and>
    map_of (ws_sessions s) ''tcp:localhost:0'' = None"
proof -
  obtain l port n where b: "buildListener ''tcp'' ''localhost:0'' (ws_net s) = (Inr (l, port), n)"
    "map_of (ws_sessions s) ''tcp:localhost:0'' = None"
    using assms(1) by (auto simp: StartReverseForward_def reverse_start_msg_def networkDescription_def split: if_splits sum.splits prod.splits)
  have "listenerPort ''tcp'' port \<noteq> 0" using build_attempts_ok [of 3 _ _ "ws_net s"] b(1) assms(2) unfolding buildListener_def by blast
  then show ?thesis using assms(1) b
    by (intro exI [of _ "listenerPort ''tcp'' port"])
      (auto simp: StartReverseForward_def reverse_start_msg_def networkDescription_def zeroForwardMessage_def Let_def)
qed

text \<open>
  (C40) A port chosen by the device. When the host asks for a reverse session on \<open>localhost:0\<close> and no session of that name
  exists, the device picks a port and announces it with an \<open>ANNOUNCE\<close> message. The host's receive loop accepts only
  \<open>OPEN\<close> messages: it ends, and its request to stop names port 0, which the device does not know. The session and
  its listener stay on the device, and nobody on the host serves it.
\<close>

theorem announced_session_is_orphaned:
  assumes "StartReverseForward (reverse_start_msg TCP ''localhost:0'') s = (Inr (c, ms), s')"
    and "\<And>j. j \<in> set (dn_open (ws_net s)) \<Longrightarrow> j < dn_next (ws_net s)"
  shows "\<exists>m. ms = [m] \<and> fm_op m = ANNOUNCE \<and> receive_turn TCP ''localhost:0'' (Inr m) openErr sendErr dialErr = EndLoop \<and>
    StopReverseForward (reverse_stop_msg TCP ''localhost:0'') s' = (None, s') \<and>
    map_of (ws_sessions s') (sl_addr c) = Some (sl_ss c) \<and> sl_lis c \<in> set (dn_open (ws_net s'))"
proof -
  note ok = StartReverseForward_ok [OF assms]
  obtain port where c: "sl_addr c = ''tcp:localhost:'' @ show_nat port" "port \<noteq> 0"
    and m: "ms = [zeroForwardMessage\<lparr>fm_op := ANNOUNCE, fm_addr := sl_addr c, fm_kind := TCP\<rparr>]"
    and free: "map_of (ws_sessions s) ''tcp:localhost:0'' = None"
    using announced_call [OF assms] by metis
  have "show_nat port \<noteq> ''0''" using c(2) digits_val_show_nat [of port] by (metis digits_val_show_nat show_nat_zero)
  then have "sl_addr c \<noteq> ''tcp:localhost:0''" using c(1) by auto
  then have "map_of (ws_sessions s') ''tcp:localhost:0'' = None" using ok(3) free by (simp add: update_conv')
  then have "StopReverseForward (reverse_stop_msg TCP ''localhost:0'') s' = (None, s')"
    by (simp add: StopReverseForward_def reverse_stop_msg_def networkDescription_def)
  then show ?thesis using m ok by (simp add: receive_turn_def update_conv')
qed

theorem announced_session_is_orphaned_witness:
  "\<exists>c m s'. StartReverseForward (reverse_start_msg TCP ''localhost:0'') (New device_kernel) = (Inr (c, [m]), s') \<and>
     receive_turn TCP ''localhost:0'' (Inr m) None None None = EndLoop \<and> sl_lis c \<in> set (dn_open (ws_net s'))"
proof -
  obtain c ms s' where st: "StartReverseForward (reverse_start_msg TCP ''localhost:0'') (New device_kernel) = (Inr (c, ms), s')"
    by (simp add: StartReverseForward_def reverse_start_msg_def New_def device_kernel_def
      zeroForwardMessage_def networkDescription_def buildListener_def numeral_3_eq_3 listenerPort_def Let_def)
  have "j < dn_next (ws_net (New device_kernel))" if "j \<in> set (dn_open (ws_net (New device_kernel)))" for j
    using that by (simp add: New_def device_kernel_def)
  from announced_session_is_orphaned [OF st this, of None None None] st show ?thesis by blast
qed


section \<open>The programs that a bootstrap starts\<close>

lemma ParseAddr_qemu_host: "CHR '':'' \<notin> set dir \<Longrightarrow> ParseAddr (''qemu:'' @ dir @ '':'' @ name) = Inr (ParsedAddr QemuHost dir name 0 None)"
proof -
  assume "CHR '':'' \<notin> set dir"
  then have "wf_addr (ParsedAddr QemuHost dir name 0 None)" by (simp add: kind_defs validKinds_def)
  from ParseAddr_show_wf [OF this] show ?thesis by (simp add: kind_defs)
qed

lemma ParseAddr_qemu_guest: "ParseAddr (''qemu-guest:'' @ name) = Inr (ParsedAddr QemuGuest name name 0 None)"
proof -
  have "wf_addr (ParsedAddr QemuGuest name name 0 None)" by (simp add: kind_defs validKinds_def)
  from ParseAddr_show_wf [OF this] show ?thesis by (simp add: kind_defs)
qed



end
